(* ===== verification/Prelude.thy ===== *)
theory Prelude
  imports Main "HOL-Library.Word" "HOL-Library.AList" "HOL-Library.List_Lexorder"
    "HOL-Library.Char_ord" "HOL-Library.Multiset"
begin

text \<open>
  What the component theories share: the collections of simplification and
  introduction rules, Go's fallible results, Go's maps, reachability of a state
  machine, and the printing verbs of the \<^verbatim>\<open>fmt\<close> package that the code builds its keys
  with.

  A Go map is an association list with distinct keys. The order of the list is the
  order in which a \<^verbatim>\<open>range\<close> over the map visits it: Go leaves that order open, so a
  statement that holds for every list holds for every iteration order. Reading a
  missing key gives None; where the code reads the zero value instead, the model
  writes it out.
\<close>

section \<open>Rule collections\<close>

named_theorems go_simps \<open>laws of the Go operations the components compute with\<close>
named_theorems wf_intros \<open>preservation of the well-formedness of maps and graphs\<close>

section \<open>Results\<close>

text \<open>A Go function that returns a value and an error: \<open>Inl\<close> is the error.\<close>

type_synonym ('e, 'a) result = "'e + 'a"

fun bind_result :: "('e, 'a) result \<Rightarrow> ('a \<Rightarrow> ('e, 'b) result) \<Rightarrow> ('e, 'b) result" where
  "bind_result (Inl e) f = Inl e"
| "bind_result (Inr x) f = f x"

lemma bind_result_eq_Inr:
  "bind_result r f = Inr y \<longleftrightarrow> (\<exists>x. r = Inr x \<and> f x = Inr y)"
  by (cases r) auto

lemma bind_result_eq_Inl:
  "bind_result r f = Inl e \<longleftrightarrow> r = Inl e \<or> (\<exists>x. r = Inr x \<and> f x = Inl e)"
  by (cases r) auto

section \<open>Go maps\<close>

type_synonym ('k, 'v) gomap = "('k \<times> 'v) list"

text \<open>
  The interface of a map as the code uses it: \<^verbatim>\<open>m[k]\<close>, \<^verbatim>\<open>m[k] = v\<close>,
  \<^verbatim>\<open>delete(m, k)\<close> and \<^verbatim>\<open>range m\<close>.
\<close>

locale go_map =
  fixes empty :: 'm
    and get :: "'m \<Rightarrow> 'k \<Rightarrow> 'v option"
    and put :: "'k \<Rightarrow> 'v \<Rightarrow> 'm \<Rightarrow> 'm"
    and del :: "'k \<Rightarrow> 'm \<Rightarrow> 'm"
    and entries :: "'m \<Rightarrow> ('k \<times> 'v) list"
    and wf :: "'m \<Rightarrow> bool"
  assumes get_empty: "get empty k = None"
    and get_put: "get (put k v m) k' = (if k' = k then Some v else get m k')"
    and get_del: "wf m \<Longrightarrow> get (del k m) k' = (if k' = k then None else get m k')"
    and entries_get: "wf m \<Longrightarrow> (k, v) \<in> set (entries m) \<longleftrightarrow> get m k = Some v"
    and entries_distinct: "wf m \<Longrightarrow> distinct (map fst (entries m))"
    and wf_empty: "wf empty"
    and wf_put: "wf m \<Longrightarrow> wf (put k v m)"
    and wf_del: "wf m \<Longrightarrow> wf (del k m)"
begin

lemma key_in_entries: "wf m \<Longrightarrow> k \<in> fst ` set (entries m) \<longleftrightarrow> get m k \<noteq> None"
proof -
  assume "wf m"
  then show ?thesis
    using entries_get by (auto simp: image_iff) (metis fst_conv)
qed

text \<open>Filling a map from a list of pairs, as the decoding loops do: the last pair wins.\<close>

lemma get_fold_put:
  "get (fold (\<lambda>(k, v). put k v) xs m) k =
     (case map_of (rev xs) k of None \<Rightarrow> get m k | Some v \<Rightarrow> Some v)"
  by (induction xs rule: rev_induct) (auto simp: get_put split: option.splits)

lemma wf_fold_put: "wf m \<Longrightarrow> wf (fold (\<lambda>(k, v). put k v) xs m)"
  by (induction xs arbitrary: m) (auto intro: wf_put)

text \<open>Two maps with the same lookups have the same entries, in some order.\<close>

lemma entries_perm:
  assumes "wf m" and "wf n" and "\<And>k. get m k = get n k"
  shows "mset (entries m) = mset (entries n)"
proof -
  have "set (entries m) = set (entries n)"
    using assms entries_get by auto
  moreover have "distinct (entries m)" "distinct (entries n)"
    using assms entries_distinct distinct_map by blast+
  ultimately show ?thesis
    by (simp add: set_eq_iff_mset_eq_distinct)
qed

end

definition mwf :: "('k, 'v) gomap \<Rightarrow> bool" where
  "mwf m \<longleftrightarrow> distinct (map fst m)"

definition mget :: "('k, 'v) gomap \<Rightarrow> 'k \<Rightarrow> 'v option" where
  "mget m k = map_of m k"

definition mput :: "'k \<Rightarrow> 'v \<Rightarrow> ('k, 'v) gomap \<Rightarrow> ('k, 'v) gomap" where
  "mput k v m = AList.update k v m"

definition mdel :: "'k \<Rightarrow> ('k, 'v) gomap \<Rightarrow> ('k, 'v) gomap" where
  "mdel k m = filter (\<lambda>(k', _). k' \<noteq> k) m"

text \<open>The zero value that Go reads at a missing key.\<close>

definition mget0 :: "'v \<Rightarrow> ('k, 'v) gomap \<Rightarrow> 'k \<Rightarrow> 'v" where
  "mget0 z m k = (case mget m k of None \<Rightarrow> z | Some v \<Rightarrow> v)"

lemma map_of_filter_key:
  "map_of (filter (\<lambda>(k', _). P k') m) k = (if P k then map_of m k else None)"
  by (induction m) auto

interpretation gm: go_map "[]" mget mput mdel "\<lambda>m. m" mwf
proof unfold_locales
  show "mget [] k = None" for k :: 'a
    by (simp add: mget_def)
  show "mget (mput k v m) k' = (if k' = k then Some v else mget m k')"
    for k k' :: 'a and v :: 'b and m
    by (simp add: mget_def mput_def update_conv')
  show "mwf m \<Longrightarrow> mget (mdel k m) k' = (if k' = k then None else mget m k')"
    for m :: "('a, 'b) gomap" and k k'
    by (simp add: mget_def mdel_def map_of_filter_key)
  show "mwf m \<Longrightarrow> (k, v) \<in> set m \<longleftrightarrow> mget m k = Some v" for m :: "('a, 'b) gomap" and k v
    by (simp add: mwf_def mget_def)
  show "mwf m \<Longrightarrow> distinct (map fst m)" for m :: "('a, 'b) gomap"
    by (simp add: mwf_def)
  show "mwf ([] :: ('a, 'b) gomap)"
    by (simp add: mwf_def)
  show "mwf m \<Longrightarrow> mwf (mput k v m)" for m :: "('a, 'b) gomap" and k v
    by (simp add: mwf_def mput_def distinct_update)
  show "mwf m \<Longrightarrow> mwf (mdel k m)" for m :: "('a, 'b) gomap" and k
    by (simp add: mwf_def mdel_def distinct_map_filter)
qed

lemmas gomap_simps [simp, go_simps] = gm.get_empty gm.get_put
lemmas gomap_wf [intro, wf_intros] = gm.wf_empty gm.wf_put gm.wf_del

lemma mget_mdel [simp, go_simps]: "mget (mdel k m) k' = (if k' = k then None else mget m k')"
  by (simp add: mget_def mdel_def map_of_filter_key)

lemma mget0_mput [simp, go_simps]: "mget0 z (mput k v m) k' = (if k' = k then v else mget0 z m k')"
  by (simp add: mget0_def)

lemma mget_Cons: "mget ((k, v) # m) k' = (if k' = k then Some v else mget m k')"
  by (simp add: mget_def)

lemma mget_in_set: "mget m k = Some v \<Longrightarrow> (k, v) \<in> set m"
  by (simp add: mget_def map_of_SomeD)

lemma mget_in_fst: "mget m k = Some v \<Longrightarrow> k \<in> fst ` set m"
  by (force dest: mget_in_set)

lemma mget_None_fst: "mget m k = None \<longleftrightarrow> k \<notin> fst ` set m"
  by (simp add: mget_def map_of_eq_None_iff)

lemma in_set_mget: "mwf m \<Longrightarrow> (k, v) \<in> set m \<Longrightarrow> mget m k = Some v"
  by (simp add: gm.entries_get)

lemma keys_mput: "fst ` set (mput k v m) = insert k (fst ` set m)"
  by (simp add: mput_def dom_update)

lemma mwf_Cons: "mwf ((k, v) # m) \<longleftrightarrow> k \<notin> fst ` set m \<and> mwf m"
  by (auto simp: mwf_def)

lemma mwf_filter [wf_intros]: "mwf m \<Longrightarrow> mwf (filter P m)"
  by (simp add: mwf_def distinct_map_filter)

lemma mget_filter_key:
  "mget (filter (\<lambda>(k', _). P k') m) k = (if P k then mget m k else None)"
  by (simp add: mget_def map_of_filter_key)

lemma mget_map_val:
  "mget (map (\<lambda>(k, v). (k, f k v)) m) k = map_option (f k) (mget m k)"
  by (induction m) (auto simp: mget_def)

lemma mwf_map_val [wf_intros]: "mwf m \<Longrightarrow> mwf (map (\<lambda>(k, v). (k, f k v)) m)"
  by (simp add: mwf_def case_prod_beta comp_def)

section \<open>State machines\<close>

text \<open>The states that a transition relation reaches, and the rule for invariants.\<close>

inductive reachable :: "('s \<Rightarrow> bool) \<Rightarrow> ('s \<Rightarrow> 's \<Rightarrow> bool) \<Rightarrow> 's \<Rightarrow> bool"
  for start :: "'s \<Rightarrow> bool" and next_state :: "'s \<Rightarrow> 's \<Rightarrow> bool" where
  reachable_start: "start s \<Longrightarrow> reachable start next_state s"
| reachable_step: "reachable start next_state s \<Longrightarrow> next_state s t \<Longrightarrow>
     reachable start next_state t"

locale invariant_of =
  fixes start :: "'s \<Rightarrow> bool"
    and next_state :: "'s \<Rightarrow> 's \<Rightarrow> bool"
    and inv :: "'s \<Rightarrow> bool"
  assumes inv_start: "start s \<Longrightarrow> inv s"
    and inv_next: "inv s \<Longrightarrow> next_state s t \<Longrightarrow> inv t"
begin

lemma inv_reachable: "reachable start next_state s \<Longrightarrow> inv s"
  by (induction rule: reachable.induct) (auto intro: inv_start inv_next)

end

section \<open>Printing\<close>

text \<open>\<^verbatim>\<open>fmt.Sprintf("%d", n)\<close> for an integer, and the hexadecimal digits of \<^verbatim>\<open>netip\<close>.\<close>

definition digit_char :: "nat \<Rightarrow> char" where
  "digit_char d = (if d < 10 then char_of (48 + d) else char_of (87 + d))"

fun digits_rev :: "nat \<Rightarrow> nat \<Rightarrow> string" where
  "digits_rev b n =
     (if b < 2 \<or> n < b then [digit_char n]
      else digit_char (n mod b) # digits_rev b (n div b))"

declare digits_rev.simps [simp del]

definition show_nat :: "nat \<Rightarrow> string" where
  "show_nat n = rev (digits_rev 10 n)"

definition show_hex :: "nat \<Rightarrow> string" where
  "show_hex n = rev (digits_rev 16 n)"

definition show_int :: "int \<Rightarrow> string" where
  "show_int i = (if i < 0 then CHR ''-'' # show_nat (nat (- i)) else show_nat (nat i))"

lemma digit_char_inj: "c < 16 \<Longrightarrow> d < 16 \<Longrightarrow> digit_char c = digit_char d \<Longrightarrow> c = d"
proof -
  assume "c < 16" "d < 16" and eq: "digit_char c = digit_char d"
  have "(of_char (digit_char c) :: nat) = (if c < 10 then 48 + c else 87 + c)"
    "(of_char (digit_char d) :: nat) = (if d < 10 then 48 + d else 87 + d)"
    using \<open>c < 16\<close> \<open>d < 16\<close> by (simp_all add: digit_char_def)
  with eq have "(if c < 10 then 48 + c else 87 + c) = (if d < 10 then 48 + d else 87 + d)"
    by metis
  then show ?thesis
    using \<open>c < 16\<close> \<open>d < 16\<close> by presburger
qed

lemma digits_rev_not_Nil: "digits_rev b n \<noteq> []"
  by (subst digits_rev.simps) simp

lemma digits_rev_inj:
  "2 \<le> b \<Longrightarrow> b \<le> 16 \<Longrightarrow> digits_rev b m = digits_rev b n \<Longrightarrow> m = n"
proof (induction b m arbitrary: n rule: digits_rev.induct)
  case (1 b m)
  note assms = "1.prems"(1,2)
  show ?case
  proof (cases "m < b")
    case True
    show ?thesis
    proof (cases "n < b")
      case nb: True
      then have "digit_char m = digit_char n"
        using "1.prems"(3) True
        by (simp add: digits_rev.simps [of b m] digits_rev.simps [of b n])
      then show ?thesis
        using True nb assms digit_char_inj [of m n] by linarith
    next
      case False
      then have "digits_rev b (n div b) = []"
        using "1.prems"(3) True assms
        by (simp add: digits_rev.simps [of b m] digits_rev.simps [of b n] split: if_splits)
      then show ?thesis by (simp add: digits_rev_not_Nil)
    qed
  next
    case False
    show ?thesis
    proof (cases "n < b")
      case True
      then have "digits_rev b (m div b) = []"
        using "1.prems"(3) False assms
        by (simp add: digits_rev.simps [of b m] digits_rev.simps [of b n] split: if_splits)
      then show ?thesis by (simp add: digits_rev_not_Nil)
    next
      case nb: False
      then have eq: "digit_char (m mod b) = digit_char (n mod b)"
        "digits_rev b (m div b) = digits_rev b (n div b)"
        using "1.prems"(3) False assms
        by (simp_all add: digits_rev.simps [of b m] digits_rev.simps [of b n] split: if_splits)
      have "m div b = n div b"
        using "1.IH" eq(2) False assms by simp
      moreover have "m mod b = n mod b"
      proof (rule digit_char_inj [OF _ _ eq(1)])
        show "m mod b < 16" "n mod b < 16"
          using assms mod_less_divisor [of b m] mod_less_divisor [of b n] by linarith+
      qed
      ultimately show ?thesis by (metis div_mult_mod_eq)
    qed
  qed
qed

lemma show_nat_inj [simp]: "show_nat m = show_nat n \<longleftrightarrow> m = n"
  using digits_rev_inj [of 10 m n] by (auto simp: show_nat_def)

lemma digits_rev_chars:
  "2 \<le> b \<Longrightarrow> b \<le> 16 \<Longrightarrow> set (digits_rev b n) \<subseteq> digit_char ` {..<b}"
proof (induction b n rule: digits_rev.induct)
  case (1 b n)
  show ?case
  proof (cases "n < b")
    case True
    then show ?thesis by (simp add: digits_rev.simps [of b n])
  next
    case False
    then have "set (digits_rev b (n div b)) \<subseteq> digit_char ` {..<b}"
      using 1 by simp
    moreover have "digit_char (n mod b) \<in> digit_char ` {..<b}"
      using "1.prems" by simp
    ultimately show ?thesis
      using False "1.prems" by (simp add: digits_rev.simps [of b n])
  qed
qed

lemma show_nat_chars: "set (show_nat n) \<subseteq> set ''0123456789''"
proof -
  have "digit_char ` set [0..<10] \<subseteq> set ''0123456789''"
    by code_simp
  then show ?thesis
    using digits_rev_chars [of 10 n] by (simp add: show_nat_def atLeast_upt)
qed

lemma show_nat_not_Nil [simp]: "show_nat n \<noteq> []"
  by (simp add: show_nat_def digits_rev_not_Nil)

lemma show_int_inj [simp]: "show_int i = show_int j \<longleftrightarrow> i = j"
proof -
  have minus: "CHR ''-'' \<notin> set (show_nat n)" for n
    using show_nat_chars [of n] by auto
  have hd_ne: "CHR ''-'' # xs \<noteq> show_nat n" for xs n
    using minus [of n] by (metis list.set_intros(1))
  show ?thesis
    using hd_ne hd_ne [symmetric] by (auto simp: show_int_def)
qed

text \<open>
  Fields printed with a separator: a key splits back into its fields where no field
  but the last holds the separator.
\<close>

lemma append_sep_inj:
  assumes "c \<notin> set xs" and "c \<notin> set ys" and "xs @ c # us = ys @ c # vs"
  shows "xs = ys \<and> us = vs"
  using assms
proof (induction xs arbitrary: ys)
  case Nil
  then show ?case by (cases ys) auto
next
  case (Cons x xs)
  then show ?case by (cases ys) auto
qed

lemma show_int_chars: "set (show_int i) \<subseteq> insert CHR ''-'' (set ''0123456789'')"
proof (cases "i < 0")
  case True
  then have "set (show_int i) = insert CHR ''-'' (set (show_nat (nat (- i))))"
    by (simp add: show_int_def)
  then show ?thesis
    using show_nat_chars [of "nat (- i)"] by (simp only: insert_mono)
next
  case False
  then have "set (show_int i) = set (show_nat (nat i))"
    by (simp add: show_int_def)
  then show ?thesis
    using show_nat_chars [of "nat i"] by (simp only: subset_insertI2)
qed

end
