(* ===== verification/Float64.thy ===== *)
theory Float64
  imports Complex_Main Prelude "HOL-Library.Log_Nat"
begin

text \<open>
  Go's \<^verbatim>\<open>float64\<close>. A value is a rational, an infinity or NaN (the two zeros are one
  value). Every arithmetic operation computes the exact result and rounds it; the
  rounding is an argument of the operations, so that a lemma holds for each rounding
  that satisfies the laws of \<open>rounding_mode\<close>. The machine's own rounding is
  \<open>round64\<close>, round to nearest with ties to even on 53 significant bits, and \<open>Fin\<close> is
  arithmetic without rounding; both are shown to be rounding modes.
\<close>

datatype f64 = NaN | NInf | Fin rat | PInf

type_synonym rounding = "rat \<Rightarrow> f64"

section \<open>Comparisons\<close>

fun fle :: "f64 \<Rightarrow> f64 \<Rightarrow> bool" where
  "fle NaN b = False"
| "fle a NaN = False"
| "fle NInf b = True"
| "fle a PInf = True"
| "fle (Fin x) (Fin y) = (x \<le> y)"
| "fle a b = False"

definition flt :: "f64 \<Rightarrow> f64 \<Rightarrow> bool" where
  "flt a b \<longleftrightarrow> a \<noteq> NaN \<and> b \<noteq> NaN \<and> \<not> fle b a"

definition fnonneg :: "f64 \<Rightarrow> bool" where
  "fnonneg a \<longleftrightarrow> fle (Fin 0) a"

lemma flt_simps [simp]:
  "flt NaN b \<longleftrightarrow> False" "flt a NaN \<longleftrightarrow> False"
  "flt (Fin x) (Fin y) \<longleftrightarrow> x < y" "flt (Fin x) PInf" "\<not> flt PInf b" "flt NInf (Fin x)"
  "flt NInf PInf" "\<not> flt a NInf"
  by (cases a; cases b; auto simp: flt_def)+

lemma fnonneg_simps [simp]:
  "\<not> fnonneg NaN" "\<not> fnonneg NInf" "fnonneg PInf" "fnonneg (Fin x) \<longleftrightarrow> 0 \<le> x"
  by (auto simp: fnonneg_def)

lemma fle_refl: "a \<noteq> NaN \<Longrightarrow> fle a a"
  by (cases a) auto

lemma fle_trans: "fle a b \<Longrightarrow> fle b c \<Longrightarrow> fle a c"
  by (cases a; cases b; cases c) auto

lemma fle_antisym: "fle a b \<Longrightarrow> fle b a \<Longrightarrow> a = b"
  by (cases a; cases b) auto

lemma fle_total: "a \<noteq> NaN \<Longrightarrow> b \<noteq> NaN \<Longrightarrow> fle a b \<or> fle b a"
  by (cases a; cases b) auto

lemma fle_NaN: "fle a b \<Longrightarrow> a \<noteq> NaN \<and> b \<noteq> NaN"
  by (cases a; cases b) auto

lemma not_flt: "a \<noteq> NaN \<Longrightarrow> b \<noteq> NaN \<Longrightarrow> \<not> flt a b \<longleftrightarrow> fle b a"
  by (auto simp: flt_def)

lemma flt_imp_fle: "flt a b \<Longrightarrow> fle a b"
  using fle_total by (auto simp: flt_def)

lemma flt_fle_trans: "flt a b \<Longrightarrow> fle b c \<Longrightarrow> flt a c"
  by (cases a; cases b; cases c) (auto simp: flt_def)

lemma fle_flt_trans: "fle a b \<Longrightarrow> flt b c \<Longrightarrow> flt a c"
  by (cases a; cases b; cases c) (auto simp: flt_def)

lemma PInf_fle: "fle PInf a \<longleftrightarrow> a = PInf"
  by (cases a) auto

lemma fle_PInf [simp]: "fle a PInf \<longleftrightarrow> a \<noteq> NaN"
  by (cases a) auto

lemma fnonneg_NaN: "fnonneg a \<Longrightarrow> a \<noteq> NaN"
  by (cases a) auto

lemma fnonneg_fle: "fnonneg a \<Longrightarrow> fle a b \<Longrightarrow> fnonneg b"
  unfolding fnonneg_def by (rule fle_trans)

section \<open>Arithmetic\<close>

fun fneg :: "f64 \<Rightarrow> f64" where
  "fneg NaN = NaN"
| "fneg NInf = PInf"
| "fneg PInf = NInf"
| "fneg (Fin x) = Fin (- x)"

fun fadd :: "rounding \<Rightarrow> f64 \<Rightarrow> f64 \<Rightarrow> f64" where
  "fadd r NaN b = NaN"
| "fadd r a NaN = NaN"
| "fadd r (Fin x) (Fin y) = r (x + y)"
| "fadd r PInf NInf = NaN"
| "fadd r NInf PInf = NaN"
| "fadd r PInf b = PInf"
| "fadd r a PInf = PInf"
| "fadd r NInf b = NInf"
| "fadd r a NInf = NInf"

definition fsub :: "rounding \<Rightarrow> f64 \<Rightarrow> f64 \<Rightarrow> f64" where
  "fsub r a b = fadd r a (fneg b)"

text \<open>The product of an infinity and a value of the given sign.\<close>

definition finf_sign :: "bool \<Rightarrow> rat \<Rightarrow> f64" where
  "finf_sign pos x = (if x = 0 then NaN else if (0 < x) = pos then PInf else NInf)"

fun fmul :: "rounding \<Rightarrow> f64 \<Rightarrow> f64 \<Rightarrow> f64" where
  "fmul r NaN b = NaN"
| "fmul r a NaN = NaN"
| "fmul r (Fin x) (Fin y) = r (x * y)"
| "fmul r PInf (Fin y) = finf_sign True y"
| "fmul r (Fin x) PInf = finf_sign True x"
| "fmul r NInf (Fin y) = finf_sign False y"
| "fmul r (Fin x) NInf = finf_sign False x"
| "fmul r PInf PInf = PInf"
| "fmul r NInf NInf = PInf"
| "fmul r a b = NInf"

text \<open>Division; a zero divisor counts as positive zero.\<close>

fun fdiv :: "rounding \<Rightarrow> f64 \<Rightarrow> f64 \<Rightarrow> f64" where
  "fdiv r NaN b = NaN"
| "fdiv r a NaN = NaN"
| "fdiv r (Fin x) (Fin y) = (if y = 0 then finf_sign True x else r (x / y))"
| "fdiv r (Fin x) b = Fin 0"
| "fdiv r PInf (Fin y) = (if y < 0 then NInf else PInf)"
| "fdiv r NInf (Fin y) = (if y < 0 then PInf else NInf)"
| "fdiv r a b = NaN"

text \<open>\<^verbatim>\<open>math.Min\<close>.\<close>

fun fmin :: "f64 \<Rightarrow> f64 \<Rightarrow> f64" where
  "fmin NInf b = NInf"
| "fmin a NInf = NInf"
| "fmin NaN b = NaN"
| "fmin a NaN = NaN"
| "fmin a b = (if flt b a then b else a)"

text \<open>The sum that an accumulating loop computes, from the left.\<close>

definition fsum :: "rounding \<Rightarrow> f64 list \<Rightarrow> f64" where
  "fsum r xs = foldl (fadd r) (Fin 0) xs"

lemma fmin_fle: "a \<noteq> NaN \<Longrightarrow> b \<noteq> NaN \<Longrightarrow> fle (fmin a b) a \<and> fle (fmin a b) b"
  by (cases a; cases b) auto

lemma fmin_mono:
  "fle a a' \<Longrightarrow> fle b b' \<Longrightarrow> fle (fmin a b) (fmin a' b')"
  by (cases a; cases b; cases a'; cases b') auto

lemma fmin_cases: "fmin a b = a \<or> fmin a b = b"
  by (cases a; cases b) auto

lemma fmin_nonneg: "fnonneg a \<Longrightarrow> fnonneg b \<Longrightarrow> fnonneg (fmin a b)"
  using fmin_cases [of a b] by auto

definition fsafe :: "f64 \<Rightarrow> bool" where
  "fsafe a \<longleftrightarrow> a = NaN \<or> fnonneg a"

lemma fsafe_simps [simp]: "fsafe NaN" "fsafe PInf" "\<not> fsafe NInf" "fsafe (Fin x) \<longleftrightarrow> 0 \<le> x"
  by (simp_all add: fsafe_def)

lemma fsafe_fmin: "fsafe a \<Longrightarrow> fsafe b \<Longrightarrow> fsafe (fmin a b)"
  using fmin_cases [of a b] by auto

lemma fsafe_not_fle: "\<not> fle v (Fin 0) \<Longrightarrow> fsafe v"
  by (cases v) auto

section \<open>Rounding modes\<close>

text \<open>
  What the code relies on in the rounding of the machine: it is monotone, keeps zero,
  one and the values it produces, and never makes a NaN.
\<close>

locale rounding_mode =
  fixes r :: rounding
  assumes r_num: "r x \<noteq> NaN"
    and r_mono: "x \<le> y \<Longrightarrow> fle (r x) (r y)"
    and r_zero: "r 0 = Fin 0"
    and r_one: "r 1 = Fin 1"
    and r_idem: "r x = Fin y \<Longrightarrow> r y = Fin y"
begin

text \<open>The values the machine can hold.\<close>

definition representable :: "f64 \<Rightarrow> bool" where
  "representable a \<longleftrightarrow> (\<forall>x. a = Fin x \<longrightarrow> r x = Fin x)"

lemma r_nonneg: "0 \<le> x \<Longrightarrow> fnonneg (r x)"
  using r_mono [of 0 x] by (simp add: r_zero fnonneg_def)

lemma representable_zero: "representable (Fin 0)"
  by (simp add: representable_def r_zero)

lemma representable_r: "representable (r x)"
  using r_idem by (auto simp: representable_def)

lemma representable_fadd: "representable (fadd r a b)"
  by (cases a; cases b) (auto simp: representable_r representable_def [of NaN]
      representable_def [of PInf] representable_def [of NInf])

lemma fadd_nonneg: "fnonneg a \<Longrightarrow> fnonneg b \<Longrightarrow> fnonneg (fadd r a b)"
  by (cases a; cases b) (auto intro: r_nonneg)

lemma fadd_mono:
  assumes "fnonneg a" and "fnonneg c" and "fle a b" and "fle c d"
  shows "fle (fadd r a c) (fadd r b d)"
  using assms by (cases a; cases b; cases c; cases d) (auto intro: r_mono simp: r_num)

lemma fadd_extensive:
  assumes "representable a" and "fnonneg a" and "fnonneg w"
  shows "fle a (fadd r a w)"
proof (cases a)
  case (Fin x)
  then have "r x = Fin x"
    using assms(1) by (simp add: representable_def)
  moreover have "fle (r x) (r (x + y))" if "0 \<le> y" for y
    using that by (intro r_mono) simp
  ultimately show ?thesis
    using Fin assms(3) by (cases w) auto
qed (use assms in \<open>cases w; auto\<close>)+

lemma fmul_nonneg:
  "fnonneg a \<Longrightarrow> fnonneg b \<Longrightarrow> fmul r a b \<noteq> NaN \<Longrightarrow> fnonneg (fmul r a b)"
  by (cases a; cases b) (auto simp: finf_sign_def intro: r_nonneg split: if_splits)

lemma fdiv_nonneg:
  "fnonneg a \<Longrightarrow> fnonneg b \<Longrightarrow> fdiv r a b \<noteq> NaN \<Longrightarrow> fnonneg (fdiv r a b)"
  by (cases a; cases b) (auto simp: finf_sign_def intro: r_nonneg split: if_splits)

text \<open>Costs that the search can handle: not negative, or not a number.\<close>

lemma fsafe_fadd: "fsafe a \<Longrightarrow> fsafe b \<Longrightarrow> fsafe (fadd r a b)"
  by (cases a; cases b) (auto simp: fsafe_def intro: r_nonneg)

lemma fsafe_fmul: "fsafe a \<Longrightarrow> fsafe b \<Longrightarrow> fsafe (fmul r a b)"
  by (cases a; cases b) (auto simp: fsafe_def finf_sign_def intro: r_nonneg)

lemma fsafe_fdiv: "fsafe a \<Longrightarrow> fsafe b \<Longrightarrow> fsafe (fdiv r a b)"
  by (cases a; cases b) (auto simp: fsafe_def finf_sign_def intro: r_nonneg)

lemma fsafe_r: "0 \<le> x \<Longrightarrow> fsafe (r x)"
  by (simp add: fsafe_def r_nonneg)

lemma fsafe_foldl:
  "fsafe a \<Longrightarrow> (\<And>x. x \<in> set xs \<Longrightarrow> fsafe (f x)) \<Longrightarrow> fsafe (foldl (\<lambda>t x. fadd r t (f x)) a xs)"
  by (induction xs arbitrary: a) (auto intro: fsafe_fadd)

lemma fsum_nonneg_from:
  "fnonneg a \<Longrightarrow> \<forall>x \<in> set xs. fnonneg x \<Longrightarrow> fnonneg (foldl (fadd r) a xs)"
  by (induction xs arbitrary: a) (auto intro: fadd_nonneg)

lemma fsum_nonneg: "\<forall>x \<in> set xs. fnonneg x \<Longrightarrow> fnonneg (fsum r xs)"
  unfolding fsum_def by (rule fsum_nonneg_from) auto

end

text \<open>Arithmetic without rounding.\<close>

interpretation exact: rounding_mode Fin
  by unfold_locales auto

section \<open>The rounding of the machine\<close>

text \<open>The exponent of a positive rational: the largest \<open>k\<close> with \<open>2\<^sup>k\<close> below it.\<close>

definition rexp :: "rat \<Rightarrow> int" where
  "rexp x =
     (let (p, q) = quotient_of x; k = bitlen p - bitlen q
      in if 2 powi k \<le> x then k else k - 1)"

definition round_even :: "rat \<Rightarrow> int" where
  "round_even y =
     (let f = \<lfloor>y\<rfloor>; d = y - of_int f
      in if d < 1 / 2 \<or> (d = 1 / 2 \<and> even f) then f else f + 1)"

definition round_exp :: "rat \<Rightarrow> int" where
  "round_exp x = max (rexp x) (- 1022)"

definition round_pos :: "rat \<Rightarrow> rat" where
  "round_pos x =
     (let e = round_exp x - 52 in of_int (round_even (x / 2 powi e)) * 2 powi e)"

definition f64_limit :: rat where
  "f64_limit = 2 ^ 1024"

definition round64 :: rounding where
  "round64 x =
     (if x = 0 then Fin 0
      else let y = round_pos \<bar>x\<bar>
           in if f64_limit \<le> y then (if 0 < x then PInf else NInf)
              else Fin (if 0 < x then y else - y))"

lemma round_even_floor: "\<lfloor>y\<rfloor> \<le> round_even y \<and> round_even y \<le> \<lfloor>y\<rfloor> + 1"
  by (simp add: round_even_def Let_def)

lemma round_even_mono:
  assumes "x \<le> y" shows "round_even x \<le> round_even y"
proof (cases "\<lfloor>x\<rfloor> = \<lfloor>y\<rfloor>")
  case True
  then show ?thesis using assms by (simp add: round_even_def Let_def)
next
  case False
  then have "\<lfloor>x\<rfloor> + 1 \<le> \<lfloor>y\<rfloor>" using floor_mono [OF assms] by simp
  then show ?thesis using round_even_floor [of x] round_even_floor [of y] by linarith
qed

lemma round_even_of_int [simp]: "round_even (of_int n) = n"
  by (simp add: round_even_def)

lemma powi2_pos [simp]: "0 < (2 :: rat) powi k"
  by simp

lemma powi2_le: "(2 :: rat) powi m \<le> 2 powi n \<longleftrightarrow> m \<le> n"
proof
  assume "m \<le> n"
  then show "(2 :: rat) powi m \<le> 2 powi n" by (intro power_int_increasing) auto
next
  assume le: "(2 :: rat) powi m \<le> 2 powi n"
  show "m \<le> n"
  proof (rule ccontr)
    assume "\<not> m \<le> n"
    then have "(2 :: rat) powi n < 2 powi m" by (intro power_int_strict_increasing) auto
    with le show False by simp
  qed
qed

lemma powi2_less: "(2 :: rat) powi m < 2 powi n \<longleftrightarrow> m < n"
  using powi2_le [of n m] by linarith

lemma powi2_add: "(2 :: rat) powi (m + n) = 2 powi m * 2 powi n"
  by (simp add: power_int_add)

lemma powi2_diff: "(2 :: rat) powi (m - n) = 2 powi m / 2 powi n"
  by (simp add: power_int_diff)

lemma powi2_nat: "0 \<le> k \<Longrightarrow> (2 :: rat) powi k = of_int (2 ^ nat k)"
  by (simp add: power_int_def)

lemma bitlen_powi:
  assumes "0 < p"
  shows "2 powi (bitlen p - 1) \<le> (of_int p :: rat) \<and> (of_int p :: rat) < 2 powi (bitlen p)"
proof -
  have b: "1 \<le> bitlen p"
    using assms by (simp add: bitlen_ge_iff_power)
  have "2 ^ nat (bitlen p - 1) \<le> p \<and> p < 2 ^ nat (bitlen p)"
    using assms by (rule bitlen_bounds)
  then show ?thesis
    using b by (simp only: powi2_nat of_int_le_iff of_int_less_iff)
qed

lemma rexp_bounds:
  assumes "0 < x"
  shows "2 powi (rexp x) \<le> x \<and> x < 2 powi (rexp x + 1)"
proof -
  obtain p q where pq: "quotient_of x = (p, q)" by fastforce
  have q: "0 < q" and x: "x = of_int p / of_int q"
    using pq quotient_of_denom_pos quotient_of_div by blast+
  have p: "0 < p" using assms q by (simp add: x zero_less_divide_iff)
  note bp = bitlen_powi [OF p] and bq = bitlen_powi [OF q]
  define k where "k = bitlen p - bitlen q"
  have "(2 :: rat) powi (k - 1) = 2 powi (bitlen p - 1) / 2 powi (bitlen q)"
    unfolding k_def by (simp only: powi2_diff [symmetric]) (simp add: algebra_simps)
  also have "\<dots> \<le> of_int p / of_int q"
    using bp bq p q by (intro frac_le) auto
  finally have lo: "2 powi (k - 1) \<le> x" by (simp add: x)
  have "(of_int p :: rat) / of_int q < 2 powi (bitlen p) / 2 powi (bitlen q - 1)"
    using bp bq p q by (intro frac_less) auto
  also have "\<dots> = 2 powi (k + 1)"
    unfolding k_def by (simp only: powi2_diff [symmetric]) (simp add: algebra_simps)
  finally have hi: "x < 2 powi (k + 1)" by (simp add: x)
  have "rexp x = (if 2 powi k \<le> x then k else k - 1)"
    by (simp add: rexp_def pq k_def)
  then show ?thesis using lo hi by auto
qed

lemma rexp_mono: "0 < x \<Longrightarrow> x \<le> y \<Longrightarrow> rexp x \<le> rexp y"
proof -
  assume "0 < x" "x \<le> y"
  then have "(2 :: rat) powi (rexp x) < 2 powi (rexp y + 1)"
    using rexp_bounds [of x] rexp_bounds [of y] by linarith
  then show ?thesis by (simp add: powi2_less)
qed

text \<open>A rounded value lies between the powers of two around its argument.\<close>

lemma round_pos_upper: "0 < x \<Longrightarrow> round_pos x \<le> 2 powi (round_exp x + 1)"
proof -
  assume x: "0 < x"
  define e where "e = round_exp x - 52"
  have "x < 2 powi (e + 53)"
    using rexp_bounds [OF x] powi2_le [of "rexp x + 1" "e + 53"]
    by (simp add: e_def round_exp_def)
  then have "x / 2 powi e \<le> of_int (2 ^ 53)"
    by (simp add: powi2_add field_simps)
  then have "round_even (x / 2 powi e) \<le> 2 ^ 53"
    using round_even_mono round_even_of_int by metis
  then have "of_int (round_even (x / 2 powi e)) \<le> (2 ^ 53 :: rat)"
    by (metis of_int_le_iff of_int_numeral of_int_power)
  then have "round_pos x \<le> 2 ^ 53 * 2 powi e"
    by (simp add: round_pos_def e_def Let_def mult_right_mono)
  also have "\<dots> = 2 powi (e + 53)"
    by (simp add: powi2_add)
  finally show ?thesis by (simp add: e_def add.commute)
qed

lemma round_pos_lower:
  assumes "0 < x" and "- 1022 \<le> rexp x"
  shows "2 powi (rexp x) \<le> round_pos x"
proof -
  define e where "e = round_exp x - 52"
  have e: "e + 52 = rexp x" using assms(2) by (simp add: e_def round_exp_def)
  have "2 powi (e + 52) \<le> x" using rexp_bounds [OF assms(1)] by (simp add: e)
  then have "of_int (2 ^ 52) \<le> x / 2 powi e"
    by (simp add: powi2_add field_simps)
  then have "2 ^ 52 \<le> round_even (x / 2 powi e)"
    using round_even_mono round_even_of_int by metis
  then have "(2 ^ 52 :: rat) \<le> of_int (round_even (x / 2 powi e))"
    by (metis of_int_le_iff of_int_numeral of_int_power)
  then have "2 ^ 52 * 2 powi e \<le> round_pos x"
    by (simp add: round_pos_def e_def Let_def mult_right_mono)
  moreover have "2 ^ 52 * 2 powi e = (2 :: rat) powi (e + 52)"
    by (simp add: powi2_add)
  ultimately show ?thesis by (simp add: e)
qed

lemma round_pos_mono:
  assumes "0 < x" and "x \<le> y"
  shows "round_pos x \<le> round_pos y"
proof (cases "round_exp x = round_exp y")
  case True
  then show ?thesis
    using assms by (simp add: round_pos_def Let_def mult_right_mono round_even_mono divide_right_mono)
next
  case False
  then have lt: "round_exp x + 1 \<le> rexp y" and y: "- 1022 \<le> rexp y"
    using rexp_mono [OF assms] by (auto simp: round_exp_def max_def split: if_splits)
  have "round_pos x \<le> 2 powi (rexp y)"
    using round_pos_upper [OF assms(1)] lt powi2_le order_trans by blast
  also have "\<dots> \<le> round_pos y"
    using assms y by (intro round_pos_lower) auto
  finally show ?thesis .
qed

lemma round_pos_nonneg: "0 < x \<Longrightarrow> 0 \<le> round_pos x"
proof -
  assume "0 < x"
  then have "round_even 0 \<le> round_even (x / 2 powi e)" for e
    by (intro round_even_mono) simp
  then have "0 \<le> round_even (x / 2 powi e)" for e
    using round_even_of_int [of 0] by simp
  then show ?thesis by (simp add: round_pos_def Let_def)
qed

text \<open>Values on the grid of their own exponent are not changed.\<close>

lemma round_pos_grid:
  assumes "x = of_int m * 2 powi e" and "round_exp x - 52 \<le> e"
  shows "round_pos x = x"
proof -
  define e' where "e' = round_exp x - 52"
  have "x / 2 powi e' = of_int m * 2 powi (e - e')"
    by (simp add: assms(1) powi2_diff)
  also have "\<dots> = of_int (m * 2 ^ nat (e - e'))"
    using assms(2) by (simp add: powi2_nat e'_def)
  finally have q: "x / 2 powi e' = of_int (m * 2 ^ nat (e - e'))" .
  then have "round_even (x / 2 powi e') = m * 2 ^ nat (e - e')"
    by (simp only: round_even_of_int)
  then have "round_pos x = x / 2 powi e' * 2 powi e'"
    using q by (simp add: round_pos_def e'_def Let_def)
  then show ?thesis by simp
qed

lemma round_pos_idem:
  assumes "0 < x" and "0 < round_pos x"
  shows "round_pos (round_pos x) = round_pos x"
proof -
  define e where "e = round_exp x - 52"
  define m where "m = round_even (x / 2 powi e)"
  have z: "round_pos x = of_int m * 2 powi e"
    by (simp add: round_pos_def m_def e_def Let_def)
  have up: "round_pos x \<le> 2 powi (e + 53)"
    using round_pos_upper [OF assms(1)] by (simp add: e_def add.commute)
  show ?thesis
  proof (cases "round_pos x = 2 powi (e + 53)")
    case True
    have "rexp (round_pos x) \<le> e + 53"
      using rexp_bounds [OF assms(2)] True by (simp add: powi2_le)
    then have "round_exp (round_pos x) - 52 \<le> e + 53"
      by (auto simp: round_exp_def e_def)
    moreover have "round_pos x = of_int 1 * 2 powi (e + 53)"
      by (simp add: True)
    ultimately show ?thesis using round_pos_grid by blast
  next
    case False
    then have "(2 :: rat) powi (rexp (round_pos x)) < 2 powi (e + 53)"
      using up rexp_bounds [OF assms(2)] by linarith
    then have "round_exp (round_pos x) - 52 \<le> e"
      by (auto simp: powi2_less round_exp_def e_def)
    then show ?thesis using z round_pos_grid by blast
  qed
qed

lemma round64_pos: "0 < x \<Longrightarrow> round64 x = (if f64_limit \<le> round_pos x then PInf else Fin (round_pos x))"
  by (simp add: round64_def Let_def)

lemma round64_neg: "x < 0 \<Longrightarrow> round64 x = fneg (round64 (- x))"
  by (simp add: round64_def Let_def)

lemma fle_fneg: "fle (fneg a) (fneg b) \<longleftrightarrow> fle b a"
  by (cases a; cases b) auto

lemma round64_mono_pos: "0 < x \<Longrightarrow> x \<le> y \<Longrightarrow> fle (round64 x) (round64 y)"
  using round_pos_mono [of x y] by (auto simp: round64_pos)

lemma round64_nonneg: "0 < x \<Longrightarrow> fnonneg (round64 x)"
  by (simp add: round64_pos round_pos_nonneg)

lemma round64_zero: "round64 0 = Fin 0"
  by (simp add: round64_def)

lemma round64_idem_pos:
  assumes "0 < x" and "round64 x = Fin y"
  shows "round64 y = Fin y"
proof -
  have y: "y = round_pos x" and lim: "\<not> f64_limit \<le> y"
    using assms by (auto simp: round64_pos split: if_splits)
  show ?thesis
  proof (cases "y = 0")
    case False
    then have "0 < y" using round_pos_nonneg [OF assms(1)] y by simp
    then have "round_pos y = y" using round_pos_idem [OF assms(1)] y by simp
    then show ?thesis using \<open>0 < y\<close> lim by (simp add: round64_pos)
  qed (simp add: round64_zero)
qed

lemma round64_idem:
  assumes eq: "round64 x = Fin y"
  shows "round64 y = Fin y"
proof (cases x "0 :: rat" rule: linorder_cases)
  case less
  have flip: "round64 (- x) = Fin (- y)"
    using eq less by (cases "round64 (- x)") (auto simp: round64_neg [of x])
  then have y: "0 \<le> - y"
    using round64_nonneg [of "- x"] less by simp
  have "round64 (- y) = Fin (- y)"
    using flip less by (intro round64_idem_pos [of "- x"]) auto
  then show ?thesis
    using y by (cases "y = 0") (auto simp: round64_zero round64_neg [of y])
next
  case equal
  then show ?thesis using eq round64_zero by simp
next
  case greater
  then show ?thesis using eq by (rule round64_idem_pos)
qed

lemma round64_of_nat: "n < 2 ^ 53 \<Longrightarrow> round64 (of_nat n) = Fin (of_nat n)"
proof (cases "n = 0")
  case True
  then show ?thesis by (simp add: round64_def)
next
  case False
  assume n: "n < 2 ^ 53"
  let ?x = "of_nat n :: rat"
  have pos: "0 < ?x" using False by simp
  have lt: "?x < 2 powi 53"
    using n by (simp add: powi2_nat)
  then have "(2 :: rat) powi (rexp ?x) < 2 powi 53"
    using rexp_bounds [OF pos] by linarith
  then have "rexp ?x < 53"
    by (simp only: powi2_less)
  then have "round_exp ?x - 52 \<le> 0"
    by (simp add: round_exp_def)
  then have "round_pos ?x = ?x"
    by (intro round_pos_grid [of _ "int n" 0]) auto
  moreover have "?x < f64_limit"
  proof -
    have "(2 :: rat) powi 53 \<le> 2 powi 1024" by (simp only: powi2_le)
    also have "\<dots> = f64_limit" by (simp add: power_int_def f64_limit_def del: power_numeral)
    finally show ?thesis using lt by simp
  qed
  ultimately show ?thesis using pos by (simp add: round64_pos)
qed

interpretation ieee: rounding_mode round64
proof
  show "round64 1 = Fin 1"
    using round64_of_nat [of 1] by simp
  show "round64 x \<noteq> NaN" for x
    by (simp add: round64_def Let_def)
  show z: "round64 0 = Fin 0"
    by (rule round64_zero)
  show "fle (round64 x) (round64 y)" if le: "x \<le> y" for x y
  proof (cases x "0 :: rat" rule: linorder_cases)
    case greater
    then show ?thesis using le by (rule round64_mono_pos)
  next
    case equal
    then show ?thesis
      using le round64_nonneg [of y] by (cases "y = 0") (auto simp: z fnonneg_def)
  next
    case less
    show ?thesis
    proof (cases y "0 :: rat" rule: linorder_cases)
      case y: less
      then have "fle (round64 (- y)) (round64 (- x))"
        using le by (intro round64_mono_pos) auto
      then show ?thesis
        using less y by (simp add: round64_neg fle_fneg)
    next
      case equal
      have "fle (fneg (round64 (- x))) (fneg (Fin 0))"
        using round64_nonneg [of "- x"] less by (simp add: fle_fneg fnonneg_def del: fneg.simps)
      then show ?thesis using less equal by (simp add: round64_neg z)
    next
      case greater
      have "fle (fneg (round64 (- x))) (fneg (Fin 0))"
        using round64_nonneg [of "- x"] less by (simp add: fle_fneg fnonneg_def del: fneg.simps)
      moreover have "fle (Fin 0) (round64 y)"
        using round64_nonneg [OF greater] by (simp add: fnonneg_def)
      ultimately have "fle (fneg (round64 (- x))) (round64 y)"
        using fle_trans by fastforce
      then show ?thesis using less by (simp add: round64_neg)
    qed
  qed
  show "round64 y = Fin y" if "round64 x = Fin y" for x y
    using that by (rule round64_idem)
qed

text \<open>Integers below \<open>2\<^sup>5\<^sup>3\<close> are held exactly.\<close>


end
