(* ===== verification/Netip.thy ===== *)
theory Netip
  imports Prelude
begin

unbundle bit_operations_syntax

text \<open>
  What the code uses of Go's \<^verbatim>\<open>net/netip\<close>: addresses (the zero \<^verbatim>\<open>Addr\<close>, IPv4, IPv6
  without a zone), prefixes, containment, and the text form that the resource keys
  embed. A prefix with negative length is an invalid one.
\<close>

datatype addr = AddrZero | Addr4 "32 word" | Addr6 "128 word"

datatype prefix = Prefix (prefix_addr: addr) (prefix_bits: int)

definition addr_is_valid :: "addr \<Rightarrow> bool" where
  "addr_is_valid a \<longleftrightarrow> a \<noteq> AddrZero"

definition addr_is6 :: "addr \<Rightarrow> bool" where
  "addr_is6 a \<longleftrightarrow> (case a of Addr6 _ \<Rightarrow> True | _ \<Rightarrow> False)"

definition addr_bitlen :: "addr \<Rightarrow> int" where
  "addr_bitlen a = (case a of AddrZero \<Rightarrow> 0 | Addr4 _ \<Rightarrow> 32 | Addr6 _ \<Rightarrow> 128)"

definition prefix_zero :: prefix where
  "prefix_zero = Prefix AddrZero (- 1)"

definition prefix_from :: "addr \<Rightarrow> int \<Rightarrow> prefix" where
  "prefix_from a n =
     Prefix a (if addr_is_valid a \<and> 0 \<le> n \<and> n \<le> addr_bitlen a then n else - 1)"

definition prefix_is_valid :: "prefix \<Rightarrow> bool" where
  "prefix_is_valid p \<longleftrightarrow> 0 \<le> prefix_bits p"

text \<open>\<^verbatim>\<open>Prefix.Contains\<close>: same family and equal in the first \<^verbatim>\<open>Bits()\<close> bits.\<close>

fun prefix_contains :: "prefix \<Rightarrow> addr \<Rightarrow> bool" where
  "prefix_contains (Prefix (Addr4 x) n) (Addr4 y) =
     (0 \<le> n \<and> drop_bit (32 - nat n) (x XOR y) = 0)"
| "prefix_contains (Prefix (Addr6 x) n) (Addr6 y) =
     (0 \<le> n \<and> drop_bit (128 - nat n) (x XOR y) = 0)"
| "prefix_contains p a = False"

text \<open>\<^verbatim>\<open>::/0\<close>, the default route.\<close>

definition ipv6_unspecified :: addr where
  "ipv6_unspecified = Addr6 0"

section \<open>Text form\<close>

definition hextets :: "128 word \<Rightarrow> nat list" where
  "hextets w = map (\<lambda>i. unat (take_bit 16 (drop_bit (112 - 16 * i) w))) [0..<8]"

definition zero_run :: "nat list \<Rightarrow> nat \<Rightarrow> nat" where
  "zero_run hs i = length (takeWhile (\<lambda>h. h = 0) (drop i hs))"

text \<open>The first longest run of at least two zero hextets, as start and end.\<close>

fun best_run :: "nat list \<Rightarrow> nat list \<Rightarrow> (nat \<times> nat) \<Rightarrow> (nat \<times> nat)" where
  "best_run hs [] (s, e) = (s, e)"
| "best_run hs (i # is) (s, e) =
     (let l = zero_run hs i
      in best_run hs is (if 2 \<le> l \<and> e - s < l then (i, i + l) else (s, e)))"

fun show_hextets :: "nat list \<Rightarrow> string" where
  "show_hextets [] = []"
| "show_hextets [h] = show_hex h"
| "show_hextets (h # hs) = show_hex h @ '':'' @ show_hextets hs"

definition show_v4 :: "32 word \<Rightarrow> string" where
  "show_v4 w =
     (let b = (\<lambda>i. show_nat (unat (take_bit 8 (drop_bit (24 - 8 * i) w))))
      in b 0 @ ''.'' @ b 1 @ ''.'' @ b 2 @ ''.'' @ b 3)"

definition show_v6 :: "128 word \<Rightarrow> string" where
  "show_v6 w =
     (let hs = hextets w; (s, e) = best_run hs [0..<8] (255, 255)
      in if take 6 hs = [0, 0, 0, 0, 0, 65535] then ''::ffff:'' @ show_v4 (ucast w)
         else if s = 255 then show_hextets hs
         else show_hextets (take s hs) @ ''::'' @ show_hextets (drop e hs))"

definition addr_string :: "addr \<Rightarrow> string" where
  "addr_string a =
     (case a of AddrZero \<Rightarrow> ''invalid IP'' | Addr4 w \<Rightarrow> show_v4 w | Addr6 w \<Rightarrow> show_v6 w)"

definition prefix_string :: "prefix \<Rightarrow> string" where
  "prefix_string p =
     (if prefix_is_valid p then addr_string (prefix_addr p) @ ''/'' @ show_int (prefix_bits p)
      else ''invalid Prefix'')"

section \<open>Containment\<close>

text \<open>The code's \<^verbatim>\<open>prefixWithin\<close> is in the tenant repository; containment is monotone.\<close>

lemma xor_eq_0_iff:
  fixes x y :: "'a :: len word"
  shows "x XOR y = 0 \<longleftrightarrow> x = y"
  by (metis bit.xor_left_self xor.comm_neutral xor_self_eq)

lemma drop_bit_eq_mono:
  fixes x y :: "'a :: len word"
  assumes "drop_bit j x = drop_bit j y" and "j \<le> k"
  shows "drop_bit k x = drop_bit k y"
proof -
  have "drop_bit (k - j) (drop_bit j x) = drop_bit (k - j) (drop_bit j y)"
    by (simp only: assms(1))
  then show ?thesis
    using assms(2) by (simp add: drop_bit_drop_bit)
qed

lemma prefix_contains_trans:
  assumes "prefix_contains p (prefix_addr q)" and "prefix_contains q a"
    and "prefix_bits p \<le> prefix_bits q"
  shows "prefix_contains p a"
proof (cases p)
  case (Prefix b n)
  then show ?thesis
    using assms
    by (cases q; cases b; cases "prefix_addr q"; cases a)
      (auto simp: xor_eq_0_iff intro: drop_bit_eq_mono)
qed

end
