(* ===== verification/Topology.thy ===== *)
theory Topology
  imports Float64 Netip
begin

text \<open>
  The topology of the control plane (\<^verbatim>\<open>services/control-plane/topology.go\<close>,
  \<^verbatim>\<open>topology_clab.go\<close>, \<^verbatim>\<open>topology_report_collector.go\<close>, \<^verbatim>\<open>node_inventory.go\<close>): nodes,
  directed edges and adjacency, the graph built from the containerlab data, the
  End.X segment identifiers that nodes report for their interfaces, the sweep that
  withdraws the identifiers of a silent node, and the inventory of access sides.

  Reading and decoding the topology file and parsing prefixes are parameters. A time
  is a number of nanoseconds.
\<close>

type_synonym NodeID = string
type_synonym EdgeID = string
type_synonym time = int
type_synonym duration = int

text \<open>\<^verbatim>\<open>time.Time.Sub\<close> saturates at the bounds of a 64-bit duration.\<close>

definition time_sub :: "time \<Rightarrow> time \<Rightarrow> duration" where
  "time_sub t u = max (- (2 ^ 63)) (min (2 ^ 63 - 1) (t - u))"

definition second :: duration where
  "second = 1000000000"

record node =
  nd_ID :: NodeID
  nd_Name :: string
  nd_ASN :: "32 word"
  nd_ISISNet :: string
  nd_Loopback :: prefix
  nd_Locator :: prefix
  nd_Attrs :: "(string, string) gomap"

record edge =
  ed_ID :: EdgeID
  ed_Local :: NodeID
  ed_Remote :: NodeID
  ed_Role :: string
  ed_LocalIface :: string
  ed_RemoteIface :: string
  ed_LocalAddr :: string
  ed_RemoteAddr :: string
  ed_Subnet :: string
  ed_Metric :: int
  ed_TEMetric :: int
  ed_Bandwidth :: f64
  ed_Delay :: duration
  ed_Up :: bool
  ed_EndX :: addr

record topo_prefix =
  tp_Origin :: NodeID
  tp_Subnet :: string
  tp_Attrs :: "(string, string) gomap"

record domain_metadata =
  dm_LocatorPrefix :: prefix
  dm_LinkPrefix :: prefix
  dm_EdgePrefix :: prefix

record graph =
  gr_nodes :: "(NodeID, node) gomap"
  gr_edges :: "(EdgeID, edge) gomap"
  gr_prefixes :: "(string, topo_prefix) gomap"
  gr_adj :: "(NodeID, EdgeID list) gomap"

section \<open>The raw topology\<close>

record raw_interface =
  ri_name :: string
  ri_role :: string
  ri_peer :: string
  ri_address :: string

record raw_access =
  ra_interface :: string
  ra_address :: string
  ra_aggregate :: string
  ra_nexthop :: string

record raw_pop =
  rp_id :: string
  rp_name :: string
  rp_index :: int
  rp_isis_net :: string
  rp_locator :: string
  rp_loopback :: string
  rp_interfaces :: "raw_interface list"
  rp_access :: "raw_access option"

record raw_end =
  re_id :: string
  re_interface :: string
  re_address :: string

record raw_link =
  rl_type :: string
  rl_subnet :: string
  rl_bandwidth_mbps :: f64
  rl_a :: raw_end
  rl_b :: raw_end

record raw_topology =
  rt_locator_prefix :: string
  rt_link_prefix :: string
  rt_edge_prefix :: string
  rt_pops :: "raw_pop list"
  rt_links :: "raw_link list"

datatype topo_error =
    ErrReadTopology
  | ErrLoopback string
  | ErrLocator string
  | ErrDefaultPrefix string
  | ErrDuplicateNodeID string
  | ErrDuplicateNodeName string
  | ErrAccessAddress string
  | ErrAccessAggregate string
  | ErrAccessNexthop string
  | ErrAddressOutside string
  | ErrNexthopOutside string

text \<open>The loop over the points of presence of \<^verbatim>\<open>generateGraphFromRawTopology\<close>.\<close>

fun graphNodes :: "(string \<Rightarrow> prefix option) \<Rightarrow> raw_pop list \<Rightarrow> (NodeID, node) gomap \<Rightarrow>
    (topo_error, (NodeID, node) gomap) result" where
  "graphNodes parsePrefix [] nodes = Inr nodes"
| "graphNodes parsePrefix (p # ps) nodes =
     (case parsePrefix (rp_loopback p) of
        None \<Rightarrow> Inl (ErrLoopback (rp_loopback p))
      | Some loopback \<Rightarrow>
          (case parsePrefix (rp_locator p) of
             None \<Rightarrow> Inl (ErrLocator (rp_locator p))
           | Some locator \<Rightarrow>
               graphNodes parsePrefix ps
                 (mput (rp_id p)
                    \<lparr>nd_ID = rp_id p, nd_Name = rp_name p, nd_ASN = 0, nd_ISISNet = [],
                     nd_Loopback = loopback, nd_Locator = locator, nd_Attrs = []\<rparr> nodes)))"

definition edgeIdOf :: "raw_end \<Rightarrow> raw_end \<Rightarrow> EdgeID" where
  "edgeIdOf a b = re_id a @ '':'' @ re_interface a @ ''-'' @ re_id b @ '':'' @ re_interface b"

definition edgeOf :: "raw_link \<Rightarrow> raw_end \<Rightarrow> raw_end \<Rightarrow> edge" where
  "edgeOf l a b =
     \<lparr>ed_ID = edgeIdOf a b, ed_Local = re_id a, ed_Remote = re_id b, ed_Role = ''link'',
      ed_LocalIface = re_interface a, ed_RemoteIface = re_interface b,
      ed_LocalAddr = re_address a, ed_RemoteAddr = re_address b, ed_Subnet = rl_subnet l,
      ed_Metric = 0, ed_TEMetric = 0, ed_Bandwidth = rl_bandwidth_mbps l, ed_Delay = 0,
      ed_Up = True, ed_EndX = AddrZero\<rparr>"

definition adj_append :: "NodeID \<Rightarrow> 'e \<Rightarrow> (NodeID, 'e list) gomap \<Rightarrow> (NodeID, 'e list) gomap" where
  "adj_append n e adj = mput n (mget0 [] adj n @ [e]) adj"

text \<open>The body of the loop over the links: both directions of a core link.\<close>

definition addLink :: "raw_link \<Rightarrow> graph \<Rightarrow> graph" where
  "addLink l g =
     (if rl_type l \<noteq> ''core'' then g
      else
        let a = rl_a l; b = rl_b l in
        g\<lparr>gr_edges := mput (edgeIdOf b a) (edgeOf l b a)
                       (mput (edgeIdOf a b) (edgeOf l a b) (gr_edges g)),
          gr_adj := adj_append (re_id b) (edgeIdOf b a)
                      (adj_append (re_id a) (edgeIdOf a b) (gr_adj g))\<rparr>)"

definition generateGraphFromRawTopology ::
    "(string \<Rightarrow> prefix option) \<Rightarrow> raw_topology \<Rightarrow> (topo_error, graph) result" where
  "generateGraphFromRawTopology parsePrefix raw =
     bind_result (graphNodes parsePrefix (rt_pops raw) []) (\<lambda>nodes.
       Inr (fold addLink (rt_links raw)
              \<lparr>gr_nodes = nodes, gr_edges = [], gr_prefixes = [], gr_adj = []\<rparr>))"

section \<open>The topology manager\<close>

record clab_topology =
  ct_ready :: bool
  ct_graph :: graph
  ct_metadata :: domain_metadata

definition parse_default :: "(string \<Rightarrow> prefix option) \<Rightarrow> string \<Rightarrow> (topo_error, prefix) result" where
  "parse_default parsePrefix s =
     (case parsePrefix s of None \<Rightarrow> Inl (ErrDefaultPrefix s) | Some p \<Rightarrow> Inr p)"

definition LoadTopology :: "(string \<Rightarrow> prefix option) \<Rightarrow> raw_topology option \<Rightarrow> clab_topology \<Rightarrow>
    topo_error option \<times> clab_topology" where
  "LoadTopology parsePrefix readLatest c =
     (case readLatest of
        None \<Rightarrow> (Some ErrReadTopology, c)
      | Some raw \<Rightarrow>
          (case bind_result (generateGraphFromRawTopology parsePrefix raw) (\<lambda>g.
                bind_result (parse_default parsePrefix (rt_locator_prefix raw)) (\<lambda>loc.
                bind_result (parse_default parsePrefix (rt_link_prefix raw)) (\<lambda>link.
                bind_result (parse_default parsePrefix (rt_edge_prefix raw)) (\<lambda>edge.
                  Inr (g, \<lparr>dm_LocatorPrefix = loc, dm_LinkPrefix = link,
                           dm_EdgePrefix = edge\<rparr>))))) of
             Inl err \<Rightarrow> (Some err, c)
           | Inr (g, md) \<Rightarrow> (None, \<lparr>ct_ready = True, ct_graph = g, ct_metadata = md\<rparr>)))"

definition setEndX :: "(string, addr) gomap \<Rightarrow> edge \<Rightarrow> edge" where
  "setEndX sids e = e\<lparr>ed_EndX := mget0 AddrZero sids (ed_LocalIface e)\<rparr>"

definition endXChanges :: "NodeID \<Rightarrow> (string, addr) gomap \<Rightarrow> edge \<Rightarrow> bool" where
  "endXChanges n sids e \<longleftrightarrow>
     ed_Local e = n \<and> mget0 AddrZero sids (ed_LocalIface e) \<noteq> ed_EndX e"

text \<open>\<^verbatim>\<open>SetEndXSIDs\<close>: the changed graph and the identifiers of the edges it changed.\<close>

fun setEndXLoop :: "NodeID \<Rightarrow> (string, addr) gomap \<Rightarrow> (EdgeID, edge) gomap \<Rightarrow>
    (EdgeID, edge) gomap \<times> EdgeID list" where
  "setEndXLoop n sids [] = ([], [])"
| "setEndXLoop n sids ((k, e) # es) =
     (let (es', changed) = setEndXLoop n sids es
      in if endXChanges n sids e then ((k, setEndX sids e) # es', ed_ID e # changed)
         else ((k, e) # es', changed))"

definition SetEndXSIDs :: "NodeID \<Rightarrow> (string, addr) gomap \<Rightarrow> graph \<Rightarrow> graph \<times> EdgeID list" where
  "SetEndXSIDs n sids g =
     (let (es, changed) = setEndXLoop n sids (gr_edges g) in (g\<lparr>gr_edges := es\<rparr>, changed))"

section \<open>Topology reports\<close>

definition topologyReportStaleAfter :: duration where
  "topologyReportStaleAfter = 30 * second"

record adjacency =
  aj_Interface :: string
  aj_EndX :: addr

record topology_report =
  tr_NodeID :: string
  tr_Adjacencies :: "adjacency list"
  tr_ReportedAt :: time

record report_collector =
  rc_graph :: graph
  rc_reportedAt :: "(NodeID, time) gomap"

definition collector_apply :: "topology_report \<Rightarrow> report_collector \<Rightarrow> report_collector" where
  "collector_apply report t =
     (let sids = fold (\<lambda>a. mput (aj_Interface a) (aj_EndX a)) (tr_Adjacencies report) []
      in \<lparr>rc_graph = fst (SetEndXSIDs (tr_NodeID report) sids (rc_graph t)),
          rc_reportedAt = mput (tr_NodeID report) (tr_ReportedAt report) (rc_reportedAt t)\<rparr>)"

text \<open>The loop of \<^verbatim>\<open>clearStale\<close> over the entries it ranges over.\<close>

fun clearStaleLoop :: "time \<Rightarrow> (NodeID \<times> time) list \<Rightarrow> report_collector \<Rightarrow> report_collector" where
  "clearStaleLoop now [] t = t"
| "clearStaleLoop now ((n, reported) # rs) t =
     (if time_sub now reported < topologyReportStaleAfter then clearStaleLoop now rs t
      else clearStaleLoop now rs
             \<lparr>rc_graph = fst (SetEndXSIDs n [] (rc_graph t)),
              rc_reportedAt = mdel n (rc_reportedAt t)\<rparr>)"

definition clearStale :: "time \<Rightarrow> report_collector \<Rightarrow> report_collector" where
  "clearStale now t = clearStaleLoop now (rc_reportedAt t) t"

section \<open>The generated graph\<close>

text \<open>Both directions of every core link, in the order of the file.\<close>

fun directedEdges :: "raw_link list \<Rightarrow> edge list" where
  "directedEdges [] = []"
| "directedEdges (l # ls) =
     (if rl_type l = ''core'' then [edgeOf l (rl_a l) (rl_b l), edgeOf l (rl_b l) (rl_a l)]
      else []) @ directedEdges ls"

lemma directedEdges_append: "directedEdges (xs @ ys) = directedEdges xs @ directedEdges ys"
  by (induction xs) auto

lemma edgeOf_simps [simp, go_simps]:
  "ed_ID (edgeOf l a b) = edgeIdOf a b" "ed_Local (edgeOf l a b) = re_id a"
  "ed_Remote (edgeOf l a b) = re_id b" "ed_LocalIface (edgeOf l a b) = re_interface a"
  "ed_RemoteIface (edgeOf l a b) = re_interface b"
  "ed_Bandwidth (edgeOf l a b) = rl_bandwidth_mbps l" "ed_Up (edgeOf l a b)"
  "ed_EndX (edgeOf l a b) = AddrZero"
  by (simp_all add: edgeOf_def)

lemma mput_fresh: "k \<notin> fst ` set m \<Longrightarrow> mput k v m = m @ [(k, v)]"
  by (induction m) (auto simp: mput_def)

lemma mget0_adj_append:
  "mget0 [] (adj_append n e adj) m = mget0 [] adj m @ (if m = n then [e] else [])"
  by (simp add: adj_append_def mget0_def)

lemma fold_addLink_edges:
  assumes "distinct (map fst (gr_edges g) @ map ed_ID (directedEdges ls))"
  shows "gr_edges (fold addLink ls g) =
    gr_edges g @ map (\<lambda>e. (ed_ID e, e)) (directedEdges ls)"
  using assms
proof (induction ls arbitrary: g)
  case (Cons l ls)
  have "gr_edges (addLink l g) = gr_edges g @ map (\<lambda>e. (ed_ID e, e)) (directedEdges [l])"
  proof (cases "rl_type l = ''core''")
    case True
    then have "edgeIdOf (rl_a l) (rl_b l) \<noteq> edgeIdOf (rl_b l) (rl_a l)"
      using Cons.prems by simp
    note this [symmetric]
    then show ?thesis
      using Cons.prems True by (simp add: addLink_def Let_def mput_fresh)
  qed (simp add: addLink_def)
  moreover from this have
    "distinct (map fst (gr_edges (addLink l g)) @ map ed_ID (directedEdges ls))"
    using Cons.prems by (cases "rl_type l = ''core''") (simp_all add: Int_Un_distrib2)
  ultimately show ?case
    using Cons.IH [of "addLink l g"] by simp
qed simp

lemma fold_addLink_adj:
  "mget0 [] (gr_adj (fold addLink ls g)) n =
     mget0 [] (gr_adj g) n @ map ed_ID (filter (\<lambda>e. ed_Local e = n) (directedEdges ls))"
  by (induction ls arbitrary: g) (auto simp: addLink_def Let_def mget0_adj_append)

lemma fold_addLink_nodes [simp]: "gr_nodes (fold addLink ls g) = gr_nodes g"
  by (induction ls arbitrary: g) (auto simp: addLink_def Let_def)

lemma directedEdges_mirror:
  "e \<in> set (directedEdges ls) \<Longrightarrow>
   \<exists>e' \<in> set (directedEdges ls). ed_Local e' = ed_Remote e \<and> ed_Remote e' = ed_Local e \<and>
     ed_LocalIface e' = ed_RemoteIface e \<and> ed_RemoteIface e' = ed_LocalIface e \<and>
     ed_Bandwidth e' = ed_Bandwidth e \<and> ed_Up e' = ed_Up e"
proof (induction ls)
  case (Cons l ls)
  show ?case
  proof (cases "e \<in> set (directedEdges ls)")
    case False
    then have "rl_type l = ''core''"
      and "e = edgeOf l (rl_a l) (rl_b l) \<or> e = edgeOf l (rl_b l) (rl_a l)"
      using Cons.prems by (simp_all split: if_splits)
    then show ?thesis by auto
  qed (use Cons.IH in auto)
qed simp

lemma generate_eq_Inr:
  "generateGraphFromRawTopology parsePrefix raw = Inr g \<longleftrightarrow>
   (\<exists>nodes. graphNodes parsePrefix (rt_pops raw) [] = Inr nodes \<and>
     g = fold addLink (rt_links raw)
           \<lparr>gr_nodes = nodes, gr_edges = [], gr_prefixes = [], gr_adj = []\<rparr>)"
  by (auto simp: generateGraphFromRawTopology_def bind_result_eq_Inr)

lemma graphNodes_wf: "mwf nodes \<Longrightarrow> graphNodes parsePrefix ps nodes = Inr nodes' \<Longrightarrow> mwf nodes'"
  by (induction parsePrefix ps nodes rule: graphNodes.induct)
    (auto split: option.splits)

lemma graphNodes_keys:
  "graphNodes parsePrefix ps nodes = Inr nodes' \<Longrightarrow>
   fst ` set nodes' = fst ` set nodes \<union> rp_id ` set ps"
  by (induction parsePrefix ps nodes rule: graphNodes.induct)
    (auto simp: keys_mput split: option.splits)

lemma graphNodes_ok:
  "(\<forall>p \<in> set ps. parsePrefix (rp_loopback p) \<noteq> None \<and> parsePrefix (rp_locator p) \<noteq> None) \<longleftrightarrow>
   (\<exists>nodes'. graphNodes parsePrefix ps nodes = Inr nodes')"
  by (induction parsePrefix ps nodes rule: graphNodes.induct) (auto split: option.splits)

lemma generated_graph:
  assumes "generateGraphFromRawTopology parsePrefix raw = Inr g"
    and "distinct (map ed_ID (directedEdges (rt_links raw)))"
  shows "gr_edges g = map (\<lambda>e. (ed_ID e, e)) (directedEdges (rt_links raw))"
    and "mget0 [] (gr_adj g) n =
      map ed_ID (filter (\<lambda>e. ed_Local e = n) (directedEdges (rt_links raw)))"
    and "mwf (gr_nodes g)" and "fst ` set (gr_nodes g) = rp_id ` set (rt_pops raw)"
proof -
  obtain nodes where nodes: "graphNodes parsePrefix (rt_pops raw) [] = Inr nodes"
    and g: "g = fold addLink (rt_links raw)
           \<lparr>gr_nodes = nodes, gr_edges = [], gr_prefixes = [], gr_adj = []\<rparr>"
    using assms(1) by (auto simp: generate_eq_Inr)
  show "gr_edges g = map (\<lambda>e. (ed_ID e, e)) (directedEdges (rt_links raw))"
    unfolding g using assms(2) by (subst fold_addLink_edges) simp_all
  show "mget0 [] (gr_adj g) n =
      map ed_ID (filter (\<lambda>e. ed_Local e = n) (directedEdges (rt_links raw)))"
    unfolding g by (subst fold_addLink_adj) (simp add: mget0_def)
  show "mwf (gr_nodes g)"
    using graphNodes_wf [OF _ nodes] by (auto simp: g)
  show "fst ` set (gr_nodes g) = rp_id ` set (rt_pops raw)"
    using graphNodes_keys [OF nodes] by (simp add: g)
qed

section \<open>End.X identifiers\<close>

lemma setEndXLoop_eq:
  "setEndXLoop n sids es =
     (map (\<lambda>(k, e). (k, if ed_Local e = n then setEndX sids e else e)) es,
      map (ed_ID \<circ> snd) (filter (endXChanges n sids \<circ> snd) es))"
  by (induction n sids es rule: setEndXLoop.induct)
    (auto simp: endXChanges_def setEndX_def)

lemma setEndX_simps [simp, go_simps]:
  "ed_Local (setEndX sids e) = ed_Local e" "ed_ID (setEndX sids e) = ed_ID e"
  "ed_EndX (setEndX sids e) = mget0 AddrZero sids (ed_LocalIface e)"
  by (simp_all add: setEndX_def)

lemma SetEndXSIDs_edge:
  "mget (gr_edges (fst (SetEndXSIDs n sids g))) k =
     map_option (\<lambda>e. if ed_Local e = n then setEndX sids e else e) (mget (gr_edges g) k)"
  by (simp add: SetEndXSIDs_def setEndXLoop_eq mget_map_val)

lemma SetEndXSIDs_edgeE:
  assumes "mget (gr_edges (fst (SetEndXSIDs n sids g))) k = Some e"
  obtains (same) "mget (gr_edges g) k = Some e" and "ed_Local e \<noteq> n"
    | (set) e' where "mget (gr_edges g) k = Some e'" and "ed_Local e' = n"
        and "e = setEndX sids e'"
proof -
  obtain e' where e': "mget (gr_edges g) k = Some e'"
    "e = (if ed_Local e' = n then setEndX sids e' else e')"
    using assms unfolding SetEndXSIDs_edge by blast
  then show thesis
    using same set by (cases "ed_Local e' = n") simp_all
qed

lemma SetEndXSIDs_frame [simp, go_simps]:
  "gr_nodes (fst (SetEndXSIDs n sids g)) = gr_nodes g"
  "gr_adj (fst (SetEndXSIDs n sids g)) = gr_adj g"
  "gr_prefixes (fst (SetEndXSIDs n sids g)) = gr_prefixes g"
  by (simp_all add: SetEndXSIDs_def case_prod_beta)

text \<open>
  The state of the collector: an edge that carries an End.X identifier belongs to a
  node whose report is on record.
\<close>

definition collector_inv :: "report_collector \<Rightarrow> bool" where
  "collector_inv t \<longleftrightarrow> mwf (rc_reportedAt t) \<and>
     (\<forall>k e. mget (gr_edges (rc_graph t)) k = Some e \<longrightarrow> ed_EndX e \<noteq> AddrZero \<longrightarrow>
        mget (rc_reportedAt t) (ed_Local e) \<noteq> None)"

inductive collector_step :: "report_collector \<Rightarrow> report_collector \<Rightarrow> bool" where
  collector_report: "collector_step t (collector_apply report t)"
| collector_sweep: "collector_step t (clearStale now t)"

inductive_cases collector_stepE: "collector_step t t'"

definition collector_start :: "report_collector \<Rightarrow> bool" where
  "collector_start t \<longleftrightarrow> rc_reportedAt t = [] \<and>
     (\<forall>k e. mget (gr_edges (rc_graph t)) k = Some e \<longrightarrow> ed_EndX e = AddrZero)"

lemma collector_apply_inv: "collector_inv t \<Longrightarrow> collector_inv (collector_apply report t)"
  unfolding collector_inv_def collector_apply_def
  by (auto simp: Let_def elim!: SetEndXSIDs_edgeE split: if_splits)

lemma clear_one_inv:
  assumes "collector_inv t"
  shows "collector_inv \<lparr>rc_graph = fst (SetEndXSIDs n [] (rc_graph t)),
     rc_reportedAt = mdel n (rc_reportedAt t)\<rparr>"
proof -
  have "mget (mdel n (rc_reportedAt t)) (ed_Local e) \<noteq> None"
    if "mget (gr_edges (fst (SetEndXSIDs n [] (rc_graph t)))) k = Some e"
      and endx: "ed_EndX e \<noteq> AddrZero" for k e
    using that(1)
  proof (cases rule: SetEndXSIDs_edgeE)
    case same
    then show ?thesis
      using assms endx unfolding collector_inv_def by simp
  qed (use endx in \<open>simp add: mget0_def\<close>)
  then show ?thesis
    using assms unfolding collector_inv_def by (simp add: gm.wf_del)
qed

lemma clearStaleLoop_inv: "collector_inv t \<Longrightarrow> collector_inv (clearStaleLoop now rs t)"
  by (induction now rs t rule: clearStaleLoop.induct) (auto intro: clear_one_inv)

lemma clearStaleLoop_reportedAt:
  "mget (rc_reportedAt (clearStaleLoop now rs t)) n =
     (if \<exists>a. (n, a) \<in> set rs \<and> topologyReportStaleAfter \<le> time_sub now a then None
      else mget (rc_reportedAt t) n)"
  by (induction now rs t rule: clearStaleLoop.induct) auto

interpretation collector: invariant_of collector_start collector_step collector_inv
proof
  show "collector_start t \<Longrightarrow> collector_inv t" for t
    by (auto simp: collector_start_def collector_inv_def)
  show "collector_inv t \<Longrightarrow> collector_step t t' \<Longrightarrow> collector_inv t'" for t t'
    by (auto elim!: collector_stepE intro: collector_apply_inv clearStaleLoop_inv
        simp: clearStale_def)
qed

section \<open>A small topology\<close>

text \<open>
  Three nodes and three links, two of 100 and one of 40 Mbps, for the concrete instances
  of the properties.
\<close>

definition demo_pop :: "string \<Rightarrow> raw_pop" where
  "demo_pop n =
     \<lparr>rp_id = n, rp_name = n, rp_index = 0, rp_isis_net = [], rp_locator = ''L'' @ n,
      rp_loopback = ''O'' @ n, rp_interfaces = [], rp_access = None\<rparr>"

definition demo_end :: "string \<Rightarrow> string \<Rightarrow> raw_end" where
  "demo_end n i = \<lparr>re_id = n, re_interface = i, re_address = []\<rparr>"

definition demo_link :: "string \<Rightarrow> string \<Rightarrow> rat \<Rightarrow> raw_link" where
  "demo_link m n bw =
     \<lparr>rl_type = ''core'', rl_subnet = [], rl_bandwidth_mbps = Fin bw, rl_a = demo_end m n,
      rl_b = demo_end n m\<rparr>"

definition demo_raw :: raw_topology where
  "demo_raw =
     \<lparr>rt_locator_prefix = ''L'', rt_link_prefix = ''N'', rt_edge_prefix = ''E'',
      rt_pops = [demo_pop ''a'', demo_pop ''b'', demo_pop ''c''],
      rt_links = [demo_link ''a'' ''b'' 100, demo_link ''b'' ''c'' 100, demo_link ''a'' ''c'' 40]\<rparr>"

definition demo_parse :: "string \<Rightarrow> prefix option" where
  "demo_parse s = Some (Prefix (Addr6 (of_nat (length s))) 64)"

definition demo_graph :: graph where
  "demo_graph = (case generateGraphFromRawTopology demo_parse demo_raw of
     Inr g \<Rightarrow> g | Inl _ \<Rightarrow> \<lparr>gr_nodes = [], gr_edges = [], gr_prefixes = [], gr_adj = []\<rparr>)"

lemma demo_graph_eq: "generateGraphFromRawTopology demo_parse demo_raw = Inr demo_graph"
  by (simp add: demo_graph_def demo_parse_def demo_raw_def demo_pop_def
      generateGraphFromRawTopology_def)

section \<open>Properties\<close>

text \<open>C33. The graph built from the topology file has exactly the two directions of every core
  link, each filed under its own identifier and listed once, in file order, in the adjacency
  of the node it leaves; every edge has a mirror edge between the same interfaces with the
  same bandwidth. The edge identifiers of the file must be distinct.\<close>

theorem generated_graph_edges:
  assumes "generateGraphFromRawTopology parsePrefix raw = Inr g"
    and "distinct (map ed_ID (directedEdges (rt_links raw)))"
  shows "gr_edges g = map (\<lambda>e. (ed_ID e, e)) (directedEdges (rt_links raw)) \<and>
    fst ` set (gr_nodes g) = rp_id ` set (rt_pops raw) \<and>
    (\<forall>n. mget0 [] (gr_adj g) n =
       map ed_ID (filter (\<lambda>e. ed_Local e = n) (directedEdges (rt_links raw)))) \<and>
    (\<forall>k e. mget (gr_edges g) k = Some e \<longrightarrow>
       (\<exists>k' e'. mget (gr_edges g) k' = Some e' \<and> ed_Local e' = ed_Remote e \<and>
          ed_Remote e' = ed_Local e \<and> ed_LocalIface e' = ed_RemoteIface e \<and>
          ed_RemoteIface e' = ed_LocalIface e \<and> ed_Bandwidth e' = ed_Bandwidth e))"
proof -
  note G = generated_graph [OF assms]
  have wf: "mwf (gr_edges g)"
    using assms(2) by (simp add: G(1) mwf_def comp_def)
  have "\<exists>k' e'. mget (gr_edges g) k' = Some e' \<and> ed_Local e' = ed_Remote e \<and>
          ed_Remote e' = ed_Local e \<and> ed_LocalIface e' = ed_RemoteIface e \<and>
          ed_RemoteIface e' = ed_LocalIface e \<and> ed_Bandwidth e' = ed_Bandwidth e"
    if "mget (gr_edges g) k = Some e" for k e
  proof -
    have "e \<in> set (directedEdges (rt_links raw))"
      using mget_in_set [OF that] by (auto simp: G(1))
    then obtain e' where e': "e' \<in> set (directedEdges (rt_links raw))" "ed_Local e' = ed_Remote e"
      "ed_Remote e' = ed_Local e" "ed_LocalIface e' = ed_RemoteIface e"
      "ed_RemoteIface e' = ed_LocalIface e" "ed_Bandwidth e' = ed_Bandwidth e"
      using directedEdges_mirror by blast
    then have "mget (gr_edges g) (ed_ID e') = Some e'"
      using in_set_mget [OF wf] by (auto simp: G(1))
    with e' show ?thesis by blast
  qed
  then show ?thesis using G by blast
qed

theorem generated_graph_edges_witness:
  "map fst (gr_edges demo_graph) = map ed_ID (directedEdges (rt_links demo_raw)) \<and>
   mget0 [] (gr_adj demo_graph) ''a'' = [''a:b-b:a'', ''a:c-c:a'']"
proof -
  have "distinct (map ed_ID (directedEdges (rt_links demo_raw)))"
    by code_simp
  note * = generated_graph_edges [OF demo_graph_eq this]
  have "map ed_ID (filter (\<lambda>e. ed_Local e = ''a'') (directedEdges (rt_links demo_raw))) =
    [''a:b-b:a'', ''a:c-c:a'']"
    by code_simp
  then show ?thesis using * by (simp add: comp_def)
qed

text \<open>Writing the End.X identifiers of a node sets, on every edge that leaves the node, the
  identifier reported for its interface (none if the interface is not reported), leaves all
  other edges, the nodes and the adjacency as they are, and reports exactly the edges whose
  identifier changed.\<close>

theorem SetEndXSIDs_effect:
  "(\<forall>k. mget (gr_edges (fst (SetEndXSIDs n sids g))) k =
      map_option (\<lambda>e. if ed_Local e = n then e\<lparr>ed_EndX := mget0 AddrZero sids (ed_LocalIface e)\<rparr> else e)
        (mget (gr_edges g) k)) \<and>
   gr_nodes (fst (SetEndXSIDs n sids g)) = gr_nodes g \<and>
   gr_adj (fst (SetEndXSIDs n sids g)) = gr_adj g \<and>
   snd (SetEndXSIDs n sids g) =
     map ed_ID (filter (\<lambda>e. ed_Local e = n \<and> mget0 AddrZero sids (ed_LocalIface e) \<noteq> ed_EndX e)
       (map snd (gr_edges g)))"
proof -
  have "snd (SetEndXSIDs n sids g) = map (ed_ID \<circ> snd) (filter (endXChanges n sids \<circ> snd) (gr_edges g))"
    by (simp add: SetEndXSIDs_def setEndXLoop_eq)
  also have "\<dots> = map ed_ID (filter (endXChanges n sids) (map snd (gr_edges g)))"
    by (simp add: filter_map)
  finally show ?thesis
    unfolding SetEndXSIDs_edge setEndX_def endXChanges_def [abs_def] by simp
qed

text \<open>C34. In every state the collector reaches, and after the sweep at time \<open>now\<close>, an edge that
  still carries an End.X identifier leaves a node whose report is on record and less than
  30 seconds old.\<close>

theorem clearStale_fresh:
  assumes "reachable collector_start collector_step t"
    and "mget (gr_edges (rc_graph (clearStale now t))) k = Some e" and "ed_EndX e \<noteq> AddrZero"
  shows "\<exists>a. mget (rc_reportedAt t) (ed_Local e) = Some a \<and> time_sub now a < 30 * second \<and>
    mget (rc_reportedAt (clearStale now t)) (ed_Local e) = Some a"
proof -
  have t: "collector_inv t"
    by (rule collector.inv_reachable [OF assms(1)])
  then have "collector_inv (clearStale now t)"
    unfolding clearStale_def by (rule clearStaleLoop_inv)
  then have "mget (rc_reportedAt (clearStale now t)) (ed_Local e) \<noteq> None"
    using assms(2,3) unfolding collector_inv_def by blast
  then obtain a where a: "mget (rc_reportedAt t) (ed_Local e) = Some a"
    "\<not> (\<exists>a. (ed_Local e, a) \<in> set (rc_reportedAt t) \<and> topologyReportStaleAfter \<le> time_sub now a)"
    "mget (rc_reportedAt (clearStale now t)) (ed_Local e) = Some a"
    by (auto simp: clearStale_def clearStaleLoop_reportedAt split: if_splits)
  then have "\<not> topologyReportStaleAfter \<le> time_sub now a"
    using mget_in_set [OF a(1)] by blast
  then show ?thesis using a by (auto simp: topologyReportStaleAfter_def)
qed

text \<open>A collector that has one report of node \<open>a\<close> on record.\<close>

definition demo_collector :: report_collector where
  "demo_collector = collector_apply
     \<lparr>tr_NodeID = ''a'', tr_Adjacencies = [\<lparr>aj_Interface = ''b'', aj_EndX = Addr6 7\<rparr>],
      tr_ReportedAt = 0\<rparr> \<lparr>rc_graph = demo_graph, rc_reportedAt = []\<rparr>"

theorem clearStale_fresh_witness:
  "\<exists>a. mget (rc_reportedAt demo_collector) ''a'' = Some a \<and> time_sub (5 * second) a < 30 * second"
proof -
  let ?t = "\<lparr>rc_graph = demo_graph, rc_reportedAt = []\<rparr>"
  have "\<forall>(k, e) \<in> set (gr_edges demo_graph). ed_EndX e = AddrZero"
    by code_simp
  then have "collector_start ?t"
    unfolding collector_start_def by (auto dest!: mget_in_set)
  then have r: "reachable collector_start collector_step demo_collector"
    unfolding demo_collector_def
    by (meson reachable_start reachable_step collector_report)
  have e: "map_option ed_EndX (mget (gr_edges (rc_graph (clearStale (5 * second) demo_collector))) ''a:b-b:a'')
      = Some (Addr6 7)"
    "map_option ed_Local (mget (gr_edges (rc_graph (clearStale (5 * second) demo_collector))) ''a:b-b:a'')
      = Some ''a''"
    by code_simp+
  then obtain e where "mget (gr_edges (rc_graph (clearStale (5 * second) demo_collector))) ''a:b-b:a'' = Some e"
    "ed_EndX e \<noteq> AddrZero" "ed_Local e = ''a''"
    by auto
  from clearStale_fresh [OF r this(1,2)] this(3) show ?thesis by auto
qed

end
