(* ===== verification/Cost_Graph.thy ===== *)
theory Cost_Graph
  imports Topology
begin

text \<open>
  The costs of the physical links (\<^verbatim>\<open>services/control-plane/cost_graph.go\<close>): one record
  per directed edge with a value for each cost dimension, when an edge was last seen by
  a probe, which edges have converged, and when the whole graph is ready to compute
  paths with. The costs that depend on the reserved bandwidth are those of \<^verbatim>\<open>pce.go\<close>.
\<close>

type_synonym CostDimension = string

definition COSTDIM_LOSS :: CostDimension where "COSTDIM_LOSS = ''LOSS''"
definition COSTDIM_LATENCY :: CostDimension where "COSTDIM_LATENCY = ''LATENCY''"
definition COSTDIM_JITTER :: CostDimension where "COSTDIM_JITTER = ''JITTER''"
definition COSTDIM_STATIC_UTILIZATION :: CostDimension where
  "COSTDIM_STATIC_UTILIZATION = ''STATIC_UTILIZATION''"

type_synonym cost = "(CostDimension, f64) gomap"

record cost_key =
  ck_ID :: EdgeID
  ck_From :: NodeID
  ck_To :: NodeID

definition CostKey :: "edge \<Rightarrow> cost_key" where
  "CostKey e = \<lparr>ck_ID = ed_ID e, ck_From = ed_Local e, ck_To = ed_Remote e\<rparr>"

record cost_graph =
  cg_graph :: "(cost_key, cost) gomap"
  cg_byID :: "(EdgeID, cost_key) gomap"
  cg_lastSeen :: "(EdgeID, time) gomap"
  cg_converged :: "EdgeID list"
  cg_startedAt :: time

section \<open>Utilization\<close>

definition convexUtilization :: "rounding \<Rightarrow> f64 \<Rightarrow> f64" where
  "convexUtilization r f = fdiv r f (fsub r (Fin 1) f)"

definition staticUtilizationRef :: "rounding \<Rightarrow> f64" where
  "staticUtilizationRef r = r (4 / 5)"

definition staticUtilizationCost :: "rounding \<Rightarrow> f64 \<Rightarrow> f64" where
  "staticUtilizationCost r f =
     (if fle (Fin 1) f then PInf
      else fdiv r (convexUtilization r f) (convexUtilization r (staticUtilizationRef r)))"

section \<open>Construction\<close>

text \<open>Go's integer division truncates towards zero.\<close>

definition go_quot :: "int \<Rightarrow> int \<Rightarrow> int" where
  "go_quot a b = (if (a < 0) = (b < 0) then \<bar>a\<bar> div \<bar>b\<bar> else - (\<bar>a\<bar> div \<bar>b\<bar>))"

definition microseconds :: "duration \<Rightarrow> int" where
  "microseconds d = go_quot d 1000"

definition costDelayReferenceMs :: f64 where
  "costDelayReferenceMs = Fin 10"

definition initialCost :: "rounding \<Rightarrow> edge \<Rightarrow> cost" where
  "initialCost r e =
     [(COSTDIM_LOSS, Fin 1),
      (COSTDIM_LATENCY,
       fdiv r (fdiv r (r (of_int (microseconds (ed_Delay e)))) (Fin 1000)) costDelayReferenceMs),
      (COSTDIM_JITTER, Fin 1),
      (COSTDIM_STATIC_UTILIZATION, staticUtilizationCost r (Fin 0))]"

text \<open>The inner loop of \<^verbatim>\<open>NewCostGraph\<close>, over the edges of one node; the error names the
  edge that the graph lacks.\<close>

fun addCosts :: "rounding \<Rightarrow> graph \<Rightarrow> EdgeID list \<Rightarrow> cost_graph \<Rightarrow> (EdgeID, cost_graph) result" where
  "addCosts r g [] cg = Inr cg"
| "addCosts r g (e # es) cg =
     (case mget (gr_edges g) e of
        None \<Rightarrow> Inl e
      | Some edge \<Rightarrow>
          (let key = CostKey edge
           in if mget (cg_graph cg) key \<noteq> None then addCosts r g es cg
              else addCosts r g es
                     (cg\<lparr>cg_byID := mput e key (cg_byID cg),
                         cg_graph := mput key (initialCost r edge) (cg_graph cg)\<rparr>)))"

fun addNodeCosts :: "rounding \<Rightarrow> graph \<Rightarrow> NodeID list \<Rightarrow> cost_graph \<Rightarrow>
    (EdgeID, cost_graph) result" where
  "addNodeCosts r g [] cg = Inr cg"
| "addNodeCosts r g (n # ns) cg =
     bind_result (addCosts r g (mget0 [] (gr_adj g) n) cg) (\<lambda>cg'. addNodeCosts r g ns cg')"

definition NewCostGraph :: "rounding \<Rightarrow> time \<Rightarrow> graph \<Rightarrow> (EdgeID, cost_graph) result" where
  "NewCostGraph r now g =
     addNodeCosts r g (map fst (gr_nodes g))
       \<lparr>cg_graph = [], cg_byID = [], cg_lastSeen = [], cg_converged = [], cg_startedAt = now\<rparr>"

section \<open>Updates\<close>

text \<open>\<^verbatim>\<open>UpdateCost\<close>; an identifier that was never registered changes nothing. A
  registered one always has a cost record (\<open>cost_graph_inv\<close> below), so the inner None does
  not arise.\<close>

definition UpdateCost :: "EdgeID \<Rightarrow> CostDimension \<Rightarrow> f64 \<Rightarrow> cost_graph \<Rightarrow> cost_graph" where
  "UpdateCost i d c cg =
     (case mget (cg_byID cg) i of
        None \<Rightarrow> cg
      | Some key \<Rightarrow>
          (case mget (cg_graph cg) key of
             None \<Rightarrow> cg
           | Some costs \<Rightarrow> cg\<lparr>cg_graph := mput key (mput d c costs) (cg_graph cg)\<rparr>))"

definition MarkSeen :: "EdgeID \<Rightarrow> time \<Rightarrow> cost_graph \<Rightarrow> cost_graph" where
  "MarkSeen i t cg = cg\<lparr>cg_lastSeen := mput i t (cg_lastSeen cg)\<rparr>"

definition MarkEdgeConverged :: "EdgeID \<Rightarrow> cost_graph \<Rightarrow> cost_graph" where
  "MarkEdgeConverged i cg = cg\<lparr>cg_converged := List.insert i (cg_converged cg)\<rparr>"

definition CostsBetween :: "(cost_key, cost) gomap \<Rightarrow> NodeID \<Rightarrow> NodeID \<Rightarrow> (cost_key, cost) gomap" where
  "CostsBetween costs from to = filter (\<lambda>(k, _). ck_From k = from \<and> ck_To k = to) costs"

section \<open>Readiness\<close>

definition MaxCostGraphWaitTillReady :: duration where
  "MaxCostGraphWaitTillReady = 5 * 60 * second"

record readiness =
  rd_Ready :: bool
  rd_TimedOut :: bool
  rd_Converged :: nat
  rd_Edges :: nat
  rd_StartedAt :: time
  rd_Deadline :: time

definition Readiness :: "time \<Rightarrow> cost_graph \<Rightarrow> readiness" where
  "Readiness now cg =
     (let converged = length (filter (\<lambda>(e, _). e \<in> set (cg_converged cg)) (cg_byID cg));
          edges = length (cg_byID cg);
          timedOut = (converged < edges \<and>
            MaxCostGraphWaitTillReady < time_sub now (cg_startedAt cg))
      in \<lparr>rd_Ready = (converged = edges \<or> timedOut), rd_TimedOut = timedOut,
          rd_Converged = converged, rd_Edges = edges, rd_StartedAt = cg_startedAt cg,
          rd_Deadline = cg_startedAt cg + MaxCostGraphWaitTillReady\<rparr>)"

definition cost_graph_IsReady :: "time \<Rightarrow> cost_graph \<Rightarrow> bool" where
  "cost_graph_IsReady now cg = rd_Ready (Readiness now cg)"

section \<open>Invariant\<close>

text \<open>
  The two indexes agree: an identifier maps to a key with that identifier which has a
  cost record, and no two identifiers share a key.
\<close>

definition cost_graph_inv :: "cost_graph \<Rightarrow> bool" where
  "cost_graph_inv cg \<longleftrightarrow> mwf (cg_graph cg) \<and> mwf (cg_byID cg) \<and>
     (\<forall>i key. mget (cg_byID cg) i = Some key \<longrightarrow> ck_ID key = i \<and> mget (cg_graph cg) key \<noteq> None)"

definition graph_ids :: "graph \<Rightarrow> bool" where
  "graph_ids g \<longleftrightarrow> (\<forall>k e. mget (gr_edges g) k = Some e \<longrightarrow> ed_ID e = k)"

lemma addCosts_inv:
  "graph_ids g \<Longrightarrow> cost_graph_inv cg \<Longrightarrow> addCosts r g es cg = Inr cg' \<Longrightarrow> cost_graph_inv cg'"
proof (induction r g es cg rule: addCosts.induct)
  case (2 r g e es cg)
  from "2.prems"(3) obtain edge where edge: "mget (gr_edges g) e = Some edge"
    by (auto split: option.splits)
  then have eid: "ed_ID edge = e"
    using "2.prems"(1) by (simp add: graph_ids_def)
  show ?case
  proof (cases "mget (cg_graph cg) (CostKey edge)")
    case None
    let ?cg = "cg\<lparr>cg_byID := mput e (CostKey edge) (cg_byID cg),
      cg_graph := mput (CostKey edge) (initialCost r edge) (cg_graph cg)\<rparr>"
    have "cost_graph_inv ?cg"
      using "2.prems"(2) eid by (auto simp: cost_graph_inv_def gm.wf_put CostKey_def)
    then show ?thesis
      using "2.IH"(2) [OF edge refl _ "2.prems"(1), of] "2.prems"(3) edge None
      by (simp add: Let_def)
  next
    case (Some c)
    then show ?thesis
      using "2.IH"(1) [OF edge refl _ "2.prems"(1,2)] "2.prems"(3) edge
      by (simp add: Let_def)
  qed
qed simp

lemma addNodeCosts_inv:
  "graph_ids g \<Longrightarrow> cost_graph_inv cg \<Longrightarrow> addNodeCosts r g ns cg = Inr cg' \<Longrightarrow> cost_graph_inv cg'"
  by (induction r g ns cg rule: addNodeCosts.induct)
    (auto simp: bind_result_eq_Inr intro: addCosts_inv)

lemma UpdateCost_inv: "cost_graph_inv cg \<Longrightarrow> cost_graph_inv (UpdateCost i d c cg)"
  by (auto simp: UpdateCost_def cost_graph_inv_def gm.wf_put split: option.splits)

text \<open>An update changes one dimension of the edge it names and nothing else.\<close>

lemma UpdateCost_get:
  assumes "cost_graph_inv cg" and "mget (cg_byID cg) i = Some key"
  shows "mget (cg_graph (UpdateCost i d c cg)) key' =
    (if key' = key then map_option (mput d c) (mget (cg_graph cg) key)
     else mget (cg_graph cg) key')"
  using assms by (auto simp: UpdateCost_def cost_graph_inv_def split: option.splits)

end
