(* ===== verification/Pce_Graph.thy ===== *)
theory Pce_Graph
  imports Cost_Graph
begin

text \<open>
  The graph that paths are computed on (\<^verbatim>\<open>services/control-plane/pce_graph.go\<close>): logical
  edges over the physical ones, their capacity and their cost, and its construction from
  the links of the topology that are up.
\<close>

datatype pce_edge_kind = PCEEdgeBundle | PCEEdgeLink

record pce_edge_id =
  pid_Kind :: pce_edge_kind
  pid_From :: NodeID
  pid_To :: NodeID
  pid_Group :: string
  pid_Link :: EdgeID

definition NewBundleID :: "NodeID \<Rightarrow> NodeID \<Rightarrow> string \<Rightarrow> pce_edge_id" where
  "NewBundleID from to grp =
     \<lparr>pid_Kind = PCEEdgeBundle, pid_From = from, pid_To = to, pid_Group = grp, pid_Link = []\<rparr>"

definition NewLinkID :: "edge \<Rightarrow> pce_edge_id" where
  "NewLinkID e =
     \<lparr>pid_Kind = PCEEdgeLink, pid_From = ed_Local e, pid_To = ed_Remote e, pid_Group = [],
      pid_Link = ed_ID e\<rparr>"

definition pid_String :: "pce_edge_id \<Rightarrow> string" where
  "pid_String i =
     (if pid_Kind i = PCEEdgeLink then ''link:'' @ pid_Link i
      else if pid_Group i = [] then ''bundle:'' @ pid_From i @ ''->'' @ pid_To i
      else ''bundle:'' @ pid_From i @ ''->'' @ pid_To i @ ''#'' @ pid_Group i)"

record pce_edge =
  pe_ID :: pce_edge_id
  pe_NodeFrom :: NodeID
  pe_NodeTo :: NodeID
  pe_RealEdges :: "edge list"

definition IsBundle :: "pce_edge \<Rightarrow> bool" where
  "IsBundle e \<longleftrightarrow> pid_Kind (pe_ID e) = PCEEdgeBundle"

text \<open>The capacity of a bundle is that of its smallest member times their number.\<close>

definition Capacity :: "rounding \<Rightarrow> pce_edge \<Rightarrow> f64" where
  "Capacity r e =
     (if pe_RealEdges e = [] then Fin 0
      else fmul r (r (of_nat (length (pe_RealEdges e))))
             (foldl (\<lambda>smallest edge. fmin smallest (ed_Bandwidth edge)) PInf (pe_RealEdges e)))"

definition Links :: "pce_edge \<Rightarrow> EdgeID list" where
  "Links e = map ed_ID (pe_RealEdges e)"

text \<open>The cost of a logical edge: in every dimension the worst of its members.\<close>

fun mergeWorst :: "cost \<Rightarrow> cost \<Rightarrow> cost" where
  "mergeWorst [] worst = worst"
| "mergeWorst ((d, v) # cs) worst =
     mergeWorst cs
       (case mget worst d of
          None \<Rightarrow> mput d v worst
        | Some current \<Rightarrow> if flt current v then mput d v worst else worst)"

fun worstCost :: "(cost_key, cost) gomap \<Rightarrow> edge list \<Rightarrow> cost option \<Rightarrow> cost option" where
  "worstCost costs [] worst = worst"
| "worstCost costs (e # es) worst =
     (case mget costs (CostKey e) of
        None \<Rightarrow> worstCost costs es worst
      | Some c \<Rightarrow>
          (case worst of
             None \<Rightarrow> worstCost costs es (Some c)
           | Some w \<Rightarrow> worstCost costs es (Some (mergeWorst c w))))"

definition pce_edge_Cost :: "(cost_key, cost) gomap \<Rightarrow> pce_edge \<Rightarrow> cost option" where
  "pce_edge_Cost costs e = worstCost costs (pe_RealEdges e) None"

record pce_graph =
  pg_nodes :: "(NodeID, node) gomap"
  pg_edges :: "(pce_edge_id, pce_edge) gomap"
  pg_adj :: "(NodeID, pce_edge_id list) gomap"

text \<open>The body of the loop of \<^verbatim>\<open>NewPCEGraph\<close>.\<close>

definition addPCEEdge :: "edge \<Rightarrow> pce_graph \<Rightarrow> pce_graph" where
  "addPCEEdge edge pg =
     (if \<not> ed_Up edge then pg
      else
        let i = NewLinkID edge in
        case mget (pg_edges pg) i of
          Some e \<Rightarrow>
            pg\<lparr>pg_edges := mput i (e\<lparr>pe_RealEdges := pe_RealEdges e @ [edge]\<rparr>) (pg_edges pg)\<rparr>
        | None \<Rightarrow>
            pg\<lparr>pg_edges := mput i \<lparr>pe_ID = i, pe_NodeFrom = ed_Local edge,
                                  pe_NodeTo = ed_Remote edge, pe_RealEdges = [edge]\<rparr> (pg_edges pg),
               pg_adj := adj_append (ed_Local edge) i (pg_adj pg)\<rparr>)"

fun addPCEEdges :: "graph \<Rightarrow> EdgeID list \<Rightarrow> pce_graph \<Rightarrow> pce_graph" where
  "addPCEEdges g [] pg = pg"
| "addPCEEdges g (i # is) pg =
     addPCEEdges g is (case mget (gr_edges g) i of None \<Rightarrow> pg | Some e \<Rightarrow> addPCEEdge e pg)"

definition NewPCEGraph :: "graph \<Rightarrow> pce_graph" where
  "NewPCEGraph g =
     addPCEEdges g (sort (map fst (gr_edges g)))
       \<lparr>pg_nodes = gr_nodes g, pg_edges = [], pg_adj = []\<rparr>"

section \<open>Well-formed graphs\<close>

text \<open>
  Every edge is filed under its own identifier, the adjacency list of a node names edges
  that leave it, once each, and every edge is in the list of the node it leaves.
\<close>

definition pce_wf :: "pce_graph \<Rightarrow> bool" where
  "pce_wf pg \<longleftrightarrow> mwf (pg_edges pg) \<and> mwf (pg_adj pg) \<and>
     (\<forall>i e. mget (pg_edges pg) i = Some e \<longrightarrow> pe_ID e = i) \<and>
     (\<forall>n i e. i \<in> set (mget0 [] (pg_adj pg) n) \<longrightarrow> mget (pg_edges pg) i = Some e \<longrightarrow>
        pe_NodeFrom e = n) \<and>
     (\<forall>i e. mget (pg_edges pg) i = Some e \<longrightarrow>
        i \<in> set (mget0 [] (pg_adj pg) (pe_NodeFrom e)))"

lemma pce_wfD:
  assumes "pce_wf pg"
  shows "mwf (pg_edges pg)" and "mwf (pg_adj pg)"
    and "mget (pg_edges pg) i = Some e \<Longrightarrow> pe_ID e = i"
    and "i \<in> set (mget0 [] (pg_adj pg) n) \<Longrightarrow> mget (pg_edges pg) i = Some e \<Longrightarrow> pe_NodeFrom e = n"
    and "mget (pg_edges pg) i = Some e \<Longrightarrow> i \<in> set (mget0 [] (pg_adj pg) (pe_NodeFrom e))"
  using assms unfolding pce_wf_def by blast+

definition link_edge :: "pce_edge_id \<Rightarrow> pce_edge \<Rightarrow> bool" where
  "link_edge i e \<longleftrightarrow> pe_ID e = i \<and> pid_Kind i = PCEEdgeLink \<and> pe_NodeFrom e = pid_From i \<and>
     pe_NodeTo e = pid_To i \<and> pe_RealEdges e \<noteq> [] \<and>
     (\<forall>l \<in> set (pe_RealEdges e). ed_Up l \<and> NewLinkID l = i)"

lemma link_edge_simps [simp]:
  "ed_Up e \<Longrightarrow> link_edge (NewLinkID e) \<lparr>pe_ID = NewLinkID e, pe_NodeFrom = ed_Local e,
     pe_NodeTo = ed_Remote e, pe_RealEdges = [e]\<rparr>"
  "ed_Up e \<Longrightarrow> link_edge (NewLinkID e) p \<Longrightarrow>
     link_edge (NewLinkID e) (p\<lparr>pe_RealEdges := pe_RealEdges p @ [e]\<rparr>)"
  by (auto simp: link_edge_def NewLinkID_def)

text \<open>What \<^verbatim>\<open>NewPCEGraph\<close> keeps while it adds links.\<close>

definition link_graph :: "pce_graph \<Rightarrow> bool" where
  "link_graph pg \<longleftrightarrow> mwf (pg_edges pg) \<and> mwf (pg_adj pg) \<and>
     (\<forall>i e. mget (pg_edges pg) i = Some e \<longrightarrow> link_edge i e) \<and>
     (\<forall>n i. i \<in> set (mget0 [] (pg_adj pg) n) \<longleftrightarrow>
        pid_From i = n \<and> mget (pg_edges pg) i \<noteq> None)"

lemma link_graph_wf:
  assumes "link_graph pg"
  shows "pce_wf pg"
proof -
  have le: "mget (pg_edges pg) i = Some e \<Longrightarrow> pe_ID e = i \<and> pe_NodeFrom e = pid_From i" for i e
    using assms by (auto simp: link_graph_def link_edge_def)
  show ?thesis
    using assms le by (simp add: link_graph_def pce_wf_def)
qed

lemma mwf_adj_append [wf_intros]: "mwf adj \<Longrightarrow> mwf (adj_append n e adj)"
  by (simp add: adj_append_def gm.wf_put)

lemma addPCEEdge_link_graph:
  assumes "link_graph pg"
  shows "link_graph (addPCEEdge e pg)"
proof (cases "ed_Up e")
  case up: True
  have lf: "pid_From (NewLinkID e) = ed_Local e"
    by (simp add: NewLinkID_def)
  show ?thesis
  proof (cases "mget (pg_edges pg) (NewLinkID e)")
    case None
    have adj: "i \<in> set (mget0 [] (pg_adj pg) n) \<longleftrightarrow> pid_From i = n \<and> mget (pg_edges pg) i \<noteq> None"
      for i n using assms by (simp add: link_graph_def)
    show ?thesis
      using assms up None lf adj unfolding link_graph_def addPCEEdge_def Let_def
      by (auto simp: gm.wf_put mwf_adj_append mget0_adj_append split: if_splits)
  next
    case (Some p)
    then show ?thesis
      using assms up by (simp add: link_graph_def addPCEEdge_def gm.wf_put)
  qed
qed (use assms in \<open>simp add: addPCEEdge_def\<close>)

lemma addPCEEdges_link_graph: "link_graph pg \<Longrightarrow> link_graph (addPCEEdges g is pg)"
  by (induction g "is" pg rule: addPCEEdges.induct)
    (simp_all add: addPCEEdge_link_graph split: option.split)

lemma NewPCEGraph_link_graph: "link_graph (NewPCEGraph g)"
  unfolding NewPCEGraph_def
  by (rule addPCEEdges_link_graph) (simp add: link_graph_def gm.wf_empty mget0_def)

lemma addPCEEdge_edge:
  "ed_Up e \<Longrightarrow> mget (pg_edges (addPCEEdge e pg)) (NewLinkID e) \<noteq> None"
  by (simp add: addPCEEdge_def Let_def split: option.split)

lemma addPCEEdge_mono:
  "mget (pg_edges pg) i = Some p \<Longrightarrow>
   \<exists>p'. mget (pg_edges (addPCEEdge e pg)) i = Some p' \<and>
     set (pe_RealEdges p) \<subseteq> set (pe_RealEdges p')"
  by (auto simp: addPCEEdge_def Let_def split: option.split)

lemma addPCEEdge_has:
  "ed_Up e \<Longrightarrow> \<exists>p. mget (pg_edges (addPCEEdge e pg)) (NewLinkID e) = Some p \<and>
     e \<in> set (pe_RealEdges p)"
  by (auto simp: addPCEEdge_def Let_def split: option.split)

lemma addPCEEdges_mono:
  "mget (pg_edges pg) i = Some p \<Longrightarrow>
   \<exists>p'. mget (pg_edges (addPCEEdges g is pg)) i = Some p' \<and>
     set (pe_RealEdges p) \<subseteq> set (pe_RealEdges p')"
proof (induction g "is" pg arbitrary: p rule: addPCEEdges.induct)
  case (2 g k ks pg)
  show ?case
  proof (cases "mget (gr_edges g) k")
    case (Some e)
    obtain q where "mget (pg_edges (addPCEEdge e pg)) i = Some q"
      "set (pe_RealEdges p) \<subseteq> set (pe_RealEdges q)"
      using addPCEEdge_mono [OF "2.prems"] by blast
    then show ?thesis
      using "2.IH" [of q] Some by auto
  qed (use 2 in auto)
qed auto

lemma addPCEEdges_has:
  "k \<in> set ks \<Longrightarrow> mget (gr_edges g) k = Some e \<Longrightarrow> ed_Up e \<Longrightarrow>
   \<exists>p. mget (pg_edges (addPCEEdges g ks pg)) (NewLinkID e) = Some p \<and> e \<in> set (pe_RealEdges p)"
proof (induction g ks pg rule: addPCEEdges.induct)
  case (2 g k' ks pg)
  show ?case
  proof (cases "k = k'")
    case True
    then obtain p where "mget (pg_edges (addPCEEdge e pg)) (NewLinkID e) = Some p"
      "e \<in> set (pe_RealEdges p)"
      using addPCEEdge_has "2.prems"(3) by blast
    then show ?thesis
      using addPCEEdges_mono [of "addPCEEdge e pg" "NewLinkID e" p g ks] True "2.prems"(2)
      by auto
  qed (use 2 in auto)
qed simp

lemma addPCEEdges_real:
  "(\<And>i p l. mget (pg_edges pg) i = Some p \<Longrightarrow> l \<in> set (pe_RealEdges p) \<Longrightarrow>
      \<exists>k. mget (gr_edges g) k = Some l) \<Longrightarrow>
   mget (pg_edges (addPCEEdges g ks pg)) i = Some p \<Longrightarrow> l \<in> set (pe_RealEdges p) \<Longrightarrow>
   \<exists>k. mget (gr_edges g) k = Some l"
proof (induction g ks pg rule: addPCEEdges.induct)
  case (2 g k ks pg)
  show ?case
  proof (cases "mget (gr_edges g) k")
    case (Some e)
    have "\<exists>k. mget (gr_edges g) k = Some l"
      if "mget (pg_edges (addPCEEdge e pg)) i = Some p" "l \<in> set (pe_RealEdges p)" for i p l
    proof (cases "mget (pg_edges pg) (NewLinkID e)")
      case None
      then show ?thesis
        using that "2.prems"(1) Some
        by (auto simp: addPCEEdge_def Let_def split: if_splits)
    next
      case (Some q)
      then show ?thesis
        using that "2.prems"(1) \<open>mget (gr_edges g) k = Some e\<close>
        by (auto simp: addPCEEdge_def Let_def split: if_splits)
    qed
    then show ?thesis
      using "2.IH" "2.prems"(2,3) Some by simp
  qed (use 2 in auto)
qed auto

lemma addPCEEdge_nodes [simp]: "pg_nodes (addPCEEdge e pg) = pg_nodes pg"
  by (auto simp: addPCEEdge_def Let_def split: option.split)

lemma NewPCEGraph_nodes [simp, go_simps]: "pg_nodes (NewPCEGraph g) = gr_nodes g"
proof -
  have "pg_nodes (addPCEEdges g is pg) = pg_nodes pg" for "is" pg
    by (induction g "is" pg rule: addPCEEdges.induct) (auto split: option.split)
  then show ?thesis by (simp add: NewPCEGraph_def)
qed

lemma NewPCEGraph_real:
  "mget (pg_edges (NewPCEGraph g)) i = Some p \<Longrightarrow> l \<in> set (pe_RealEdges p) \<Longrightarrow>
   \<exists>k. mget (gr_edges g) k = Some l"
  unfolding NewPCEGraph_def by (rule addPCEEdges_real [rotated]) auto

lemma NewPCEGraph_has:
  "mget (gr_edges g) k = Some e \<Longrightarrow> ed_Up e \<Longrightarrow>
   \<exists>p. mget (pg_edges (NewPCEGraph g)) (NewLinkID e) = Some p \<and> e \<in> set (pe_RealEdges p)"
  unfolding NewPCEGraph_def by (rule addPCEEdges_has) (auto dest: mget_in_fst)

lemma NewPCEGraph_wf [wf_intros]: "pce_wf (NewPCEGraph g)"
  by (rule link_graph_wf [OF NewPCEGraph_link_graph])

end
