(* ===== verification/Cspf.thy ===== *)
theory Cspf
  imports Pce_Graph
begin

text \<open>
  Constrained shortest paths (\<^verbatim>\<open>services/control-plane/cspf.go\<close>): paths and their keys,
  the objectives, and the search \<^verbatim>\<open>computePath\<close> with its reconstruction of the path.

  The search is Dijkstra's algorithm over \<^verbatim>\<open>float64\<close> labels. Its correctness rests on a
  few laws of adding a weight to a label, which are the locale \<open>route_algebra\<close>; every
  rounding mode provides them for weights that are not negative. The set of visited
  nodes is kept as the list of the nodes in the order of their visit, newest first.
  The search is a total function. The reconstruction follows the predecessors until it
  meets the source, which may not happen in general, so it is a partial function whose
  value None means that the loop does not end.
\<close>

section \<open>Paths\<close>

type_synonym TenantID = int

record path =
  p_Nodes :: "NodeID list"
  p_Edges :: "pce_edge_id list"
  p_Links :: "EdgeID list"
  p_Cost :: f64
  p_Label :: "64 word"

definition path_Equal :: "path \<Rightarrow> path \<Rightarrow> bool" where
  "path_Equal p other \<longleftrightarrow>
     (if p_Label p \<noteq> p_Label other then False
      else if length (p_Edges p) \<noteq> length (p_Edges other) \<or>
              length (p_Nodes p) \<noteq> length (p_Nodes other) then False
      else list_all2 (=) (p_Nodes p) (p_Nodes other) \<and> list_all2 (=) (p_Edges p) (p_Edges other))"

record path_key =
  pk_Tenant :: TenantID
  pk_From :: NodeID
  pk_To :: NodeID
  pk_Label :: "64 word"

type_synonym path_set = "(path_key, path) gomap"

section \<open>Objectives\<close>

type_synonym objective = "pce_edge \<Rightarrow> cost option \<Rightarrow> f64"

definition costEdgeEpsilon :: f64 where
  "costEdgeEpsilon = Fin 1"

definition WeightedCost :: "rounding \<Rightarrow> (CostDimension, f64) gomap \<Rightarrow> objective" where
  "WeightedCost r weights _ c =
     (case c of
        None \<Rightarrow> PInf
      | Some costs \<Rightarrow>
          fadd r costEdgeEpsilon
            (foldl (\<lambda>total d. fadd r total
                (fmul r (mget0 (Fin 0) weights d) (mget0 (Fin 0) costs d)))
              (Fin 0) (sort (map fst weights))))"

definition bookable :: "rounding \<Rightarrow> pce_edge \<Rightarrow> f64" where
  "bookable r e = fmul r (Capacity r e) (r (19 / 20))"

definition StaticBandwidthUtilization :: "rounding \<Rightarrow> (pce_edge_id, f64) gomap \<Rightarrow> objective" where
  "StaticBandwidthUtilization r reserved e _ =
     (let capacity = bookable r e
      in if fle capacity (Fin 0) then PInf
         else let frac = fdiv r (mget0 (Fin 0) reserved (pe_ID e)) capacity
              in if fle (Fin 1) frac then PInf else fdiv r frac (fsub r (Fin 1) frac))"

section \<open>The search\<close>

datatype cspf_error =
    ErrNilGraph
  | ErrNilObjective
  | ErrUnknownNode NodeID
  | ErrNoPath NodeID NodeID
  | ErrBrokenChain NodeID
  | ErrEdgeMissing pce_edge_id

record search =
  sr_dist :: "(NodeID, f64) gomap"
  sr_prev :: "(NodeID, pce_edge_id) gomap"
  sr_visited :: "NodeID list"

abbreviation dist_of :: "search \<Rightarrow> NodeID \<Rightarrow> f64" where
  "dist_of st n \<equiv> mget0 (Fin 0) (sr_dist st) n"

text \<open>The scan for the unvisited node with the smallest label; \<open>best\<close> is that label.\<close>

fun pickNode :: "search \<Rightarrow> NodeID list \<Rightarrow> f64 \<Rightarrow> NodeID option \<Rightarrow> NodeID option" where
  "pickNode st [] best current = current"
| "pickNode st (n # ns) best current =
     (if n \<in> set (sr_visited st) \<or> fle best (dist_of st n) then pickNode st ns best current
      else pickNode st ns (dist_of st n) (Some n))"

text \<open>The loop over the edges that leave the current node.\<close>

fun relaxEdges :: "rounding \<Rightarrow> pce_graph \<Rightarrow> (pce_edge \<Rightarrow> f64) \<Rightarrow> NodeID \<Rightarrow> pce_edge_id list \<Rightarrow>
    search \<Rightarrow> search" where
  "relaxEdges r g w current [] st = st"
| "relaxEdges r g w current (i # is) st =
     (case mget (pg_edges g) i of
        None \<Rightarrow> relaxEdges r g w current is st
      | Some edge \<Rightarrow>
          if pe_NodeTo edge \<in> set (sr_visited st) then relaxEdges r g w current is st
          else
            let candidate = fadd r (dist_of st current) (w edge)
            in if flt candidate (dist_of st (pe_NodeTo edge)) then
                 relaxEdges r g w current is
                   (st\<lparr>sr_dist := mput (pe_NodeTo edge) candidate (sr_dist st),
                       sr_prev := mput (pe_NodeTo edge) i (sr_prev st)\<rparr>)
               else relaxEdges r g w current is st)"

definition visitNode :: "rounding \<Rightarrow> pce_graph \<Rightarrow> (pce_edge \<Rightarrow> f64) \<Rightarrow> NodeID \<Rightarrow> search \<Rightarrow> search" where
  "visitNode r g w current st =
     relaxEdges r g w current (sort_key pid_String (mget0 [] (pg_adj g) current))
       (st\<lparr>sr_visited := current # sr_visited st\<rparr>)"

lemma relaxEdges_visited [simp]:
  "sr_visited (relaxEdges r g w u is st) = sr_visited st"
  by (induction r g w u "is" st rule: relaxEdges.induct) (auto simp: Let_def split: option.split)

lemma pickNode_new:
  "pickNode st ns best current = Some n \<Longrightarrow>
   current = Some n \<or> n \<in> set ns \<and> n \<notin> set (sr_visited st)"
  by (induction st ns best current rule: pickNode.induct) (auto split: if_splits)

lemma filter_shrinks:
  "n \<in> set ns \<Longrightarrow> n \<notin> V \<Longrightarrow>
   length (filter (\<lambda>m. m \<noteq> n \<and> m \<notin> V) ns) < length (filter (\<lambda>m. m \<notin> V) ns)"
proof (induction ns)
  case (Cons a ns)
  have "length (filter (\<lambda>m. m \<noteq> n \<and> m \<notin> V) ns) \<le> length (filter (\<lambda>m. m \<notin> V) ns)"
    by (induction ns) auto
  with Cons show ?case by (cases "a = n") auto
qed simp

function searchLoop :: "rounding \<Rightarrow> pce_graph \<Rightarrow> (pce_edge \<Rightarrow> f64) \<Rightarrow> NodeID list \<Rightarrow> NodeID \<Rightarrow>
    search \<Rightarrow> search" where
  "searchLoop r g w nodes dst st =
     (case pickNode st nodes PInf None of
        None \<Rightarrow> st
      | Some current \<Rightarrow>
          if current = dst then st
          else searchLoop r g w nodes dst (visitNode r g w current st))"
  by pat_completeness auto
termination
  by (relation "measure (\<lambda>(r, g, w, nodes, dst, st).
      length (filter (\<lambda>n. n \<notin> set (sr_visited st)) nodes))")
    (auto simp: visitNode_def dest!: pickNode_new intro: filter_shrinks)

declare searchLoop.simps [simp del]

text \<open>
  The reconstruction. The three lists are those of the code before it reverses them,
  with \<^verbatim>\<open>append\<close> written at the end.
\<close>

partial_function (option) reconstructLoop :: "pce_graph \<Rightarrow> NodeID \<Rightarrow> (NodeID, pce_edge_id) gomap \<Rightarrow>
    NodeID \<Rightarrow> NodeID list \<times> pce_edge_id list \<times> EdgeID list \<Rightarrow>
    (cspf_error, NodeID list \<times> pce_edge_id list \<times> EdgeID list) result option" where
  "reconstructLoop g src prev current acc =
     (if current = src then Some (Inr acc)
      else case mget prev current of
             None \<Rightarrow> Some (Inl (ErrBrokenChain current))
           | Some i \<Rightarrow>
               (case mget (pg_edges g) i of
                  None \<Rightarrow> Some (Inl (ErrEdgeMissing i))
                | Some edge \<Rightarrow>
                    reconstructLoop g src prev (pe_NodeFrom edge)
                      (fst acc @ [pe_NodeFrom edge], fst (snd acc) @ [i],
                       snd (snd acc) @ Links edge)))"

declare reconstructLoop.simps [code]

definition reconstruct :: "pce_graph \<Rightarrow> NodeID \<Rightarrow> NodeID \<Rightarrow> (NodeID, pce_edge_id) gomap \<Rightarrow>
    (cspf_error, path) result option" where
  "reconstruct g src dst prev =
     map_option (\<lambda>res. bind_result res (\<lambda>(nodes, edges, links).
         Inr \<lparr>p_Nodes = rev nodes, p_Edges = rev edges, p_Links = rev links, p_Cost = Fin 0,
              p_Label = 0\<rparr>))
       (reconstructLoop g src prev dst ([dst], [], []))"

definition startSearch :: "NodeID list \<Rightarrow> NodeID \<Rightarrow> search" where
  "startSearch nodes src =
     \<lparr>sr_dist = mput src (Fin 0) (fold (\<lambda>n. mput n PInf) nodes []), sr_prev = [],
      sr_visited = []\<rparr>"

definition computePath :: "rounding \<Rightarrow> pce_graph option \<Rightarrow> (cost_key, cost) gomap \<Rightarrow> NodeID \<Rightarrow> NodeID \<Rightarrow>
    objective option \<Rightarrow> (cspf_error, path) result option" where
  "computePath r graph costs src dst objective =
     (case graph of
        None \<Rightarrow> Some (Inl ErrNilGraph)
      | Some g \<Rightarrow>
     (case objective of
        None \<Rightarrow> Some (Inl ErrNilObjective)
      | Some obj \<Rightarrow>
          if mget (pg_nodes g) src = None then Some (Inl (ErrUnknownNode src))
          else if mget (pg_nodes g) dst = None then Some (Inl (ErrUnknownNode dst))
          else if src = dst then
            Some (Inr \<lparr>p_Nodes = [src], p_Edges = [], p_Links = [], p_Cost = Fin 0, p_Label = 0\<rparr>)
          else
            let nodes = sort (map fst (pg_nodes g));
                st = searchLoop r g (\<lambda>e. obj e (pce_edge_Cost costs e)) nodes dst
                       (startSearch nodes src)
            in if dist_of st dst = PInf then Some (Inl (ErrNoPath src dst))
               else map_option (\<lambda>res. bind_result res (\<lambda>p. Inr (p\<lparr>p_Cost := dist_of st dst\<rparr>)))
                      (reconstruct g src dst (sr_prev st))))"

end
