(* ===== verification/Tenants.thy ===== *)
theory Tenants
  imports Cspf "HOL-Library.Product_Lexorder"
begin

text \<open>
  Tenants, sites and traffic classes (\<^verbatim>\<open>services/control-plane/tenant_repository.go\<close>) and the
  inventory of the nodes (\<^verbatim>\<open>node_inventory.go\<close>): the checks that the decoded configuration
  has to pass before it replaces what the repository holds, and the look-ups. Reading and
  decoding the files and parsing prefixes and addresses are parameters; names are ASCII.
\<close>

section \<open>Data\<close>

definition DefaultClassName :: string where "DefaultClassName = ''default''"
definition DefaultClassLabel :: "64 word" where "DefaultClassLabel = 0"
definition DefaultClassIndex :: int where "DefaultClassIndex = 0"
definition UnrankedTierIndex :: int where "UnrankedTierIndex = 0"
definition DSCPUnmarked :: int where "DSCPUnmarked = 0"
definition DSCPMax :: int where "DSCPMax = 63"

record traffic_class =
  tc_Name :: string
  tc_Label :: "64 word"
  tc_Index :: int
  tc_DSCP :: "int list"
  tc_Objective :: "(CostDimension, f64) gomap"

record site =
  si_TenantID :: TenantID
  si_CPE :: string
  si_PortalID :: string
  si_Node :: string
  si_Prefix :: prefix
  si_Attach :: string
  si_AttachNode :: string
  si_IfID :: "32 word"
  si_Identity :: string
  si_ReservationMbps :: f64
  si_ClassMbps :: "(64 word, f64) gomap"

record tenant =
  tn_ID :: TenantID
  tn_Allocation :: prefix
  tn_Tier :: string
  tn_TierIndex :: int
  tn_VRFTable :: int
  tn_Sites :: "site list"

record raw_class =
  rcl_name :: string
  rcl_label :: "64 word"
  rcl_index :: int
  rcl_dscp :: "int list"
  rcl_objective :: "(string, f64) gomap"

record raw_tier =
  rti_name :: string
  rti_index :: int

record raw_site =
  rsi_cpe :: string
  rsi_portal_id :: string
  rsi_node :: string
  rsi_prefix :: string
  rsi_attach :: string
  rsi_attach_node :: string
  rsi_if_id :: "32 word"
  rsi_identity :: string
  rsi_reservation_mbps :: f64
  rsi_classes :: "(string, f64) gomap"

record raw_tenant =
  rtn_id :: TenantID
  rtn_allocation :: string
  rtn_tier :: string
  rtn_vrf_table :: int
  rtn_sites :: "raw_site list"

record raw_tenant_db =
  rdb_classes :: "raw_class list"
  rdb_tiers :: "raw_tier list"
  rdb_tenants :: "raw_tenant list"

datatype tenant_error =
    ErrReadTenants
  | ErrClassUnnamed "64 word"
  | ErrClassName string
  | ErrClassLabel string "64 word"
  | ErrClassIndexLow string
  | ErrClassIndex string int
  | ErrNoObjective string
  | ErrObjectiveDim string string
  | ErrObjectiveWeight string string
  | ErrNoDSCP string
  | ErrDSCPRange string int
  | ErrDSCPUnmarked string
  | ErrDSCPTaken string int
  | ErrTierUnnamed int
  | ErrTierName string
  | ErrTierIndexLow string
  | ErrTierIndex string int
  | ErrTenantID TenantID
  | ErrAllocation TenantID
  | ErrSitePrefix string
  | ErrSiteOutside string
  | ErrIfID "32 word"
  | ErrIdentity string
  | ErrPortalID string
  | ErrUnknownClass string
  | ErrImplicitClass string
  | ErrClassMbps string
  | ErrClassSum

section \<open>Traffic classes\<close>

definition upper_char :: "char \<Rightarrow> char" where
  "upper_char c =
     (let n = of_char c :: nat in if 97 \<le> n \<and> n \<le> 122 then char_of (n - 32) else c)"

definition parseCostDimension :: "string \<Rightarrow> CostDimension option" where
  "parseCostDimension s =
     (let d = map upper_char s
      in if d \<in> {COSTDIM_LATENCY, COSTDIM_JITTER, COSTDIM_LOSS} then Some d else None)"

fun parseObjective :: "string \<Rightarrow> (string \<times> f64) list \<Rightarrow> (CostDimension, f64) gomap \<Rightarrow>
    (tenant_error, (CostDimension, f64) gomap) result" where
  "parseObjective name [] objective = Inr objective"
| "parseObjective name ((d, weight) # ds) objective =
     (case parseCostDimension d of
        None \<Rightarrow> Inl (ErrObjectiveDim name d)
      | Some costDim \<Rightarrow>
          if fle weight (Fin 0) then Inl (ErrObjectiveWeight name d)
          else parseObjective name ds (mput costDim weight objective))"

text \<open>The loop of \<^verbatim>\<open>parseClassMatch\<close>: the accepted codepoints and the owners map.\<close>

fun matchLoop :: "string \<Rightarrow> int list \<Rightarrow> (int, string) gomap \<Rightarrow> int list \<Rightarrow>
    (tenant_error, int list \<times> (int, string) gomap) result" where
  "matchLoop name [] byDSCP dscp = Inr (dscp, byDSCP)"
| "matchLoop name (v # vs) byDSCP dscp =
     (if v < 0 \<or> DSCPMax < v then Inl (ErrDSCPRange name v)
      else if v = DSCPUnmarked then Inl (ErrDSCPUnmarked name)
      else if mget byDSCP v \<noteq> None then Inl (ErrDSCPTaken name v)
      else matchLoop name vs (mput v name byDSCP) (dscp @ [v]))"

definition parseClassMatch :: "string \<Rightarrow> int list \<Rightarrow> (int, string) gomap \<Rightarrow>
    (tenant_error, int list \<times> (int, string) gomap) result" where
  "parseClassMatch name raw byDSCP =
     (if raw = [] then Inl (ErrNoDSCP name)
      else bind_result (matchLoop name raw byDSCP []) (\<lambda>(dscp, byDSCP').
             Inr (sort dscp, byDSCP')))"

record class_tables =
  ct_byLabel :: "(64 word, traffic_class) gomap"
  ct_byName :: "(string, traffic_class) gomap"
  ct_byIndex :: "(int, string) gomap"
  ct_byDSCP :: "(int, string) gomap"

definition defaultClass :: traffic_class where
  "defaultClass =
     \<lparr>tc_Name = DefaultClassName, tc_Label = DefaultClassLabel, tc_Index = DefaultClassIndex,
      tc_DSCP = [], tc_Objective = []\<rparr>"

definition parseClass :: "raw_class \<Rightarrow> class_tables \<Rightarrow> (tenant_error, class_tables) result" where
  "parseClass rc ct =
     (if rcl_name rc = [] then Inl (ErrClassUnnamed (rcl_label rc))
      else if mget (ct_byName ct) (rcl_name rc) \<noteq> None then Inl (ErrClassName (rcl_name rc))
      else if mget (ct_byLabel ct) (rcl_label rc) \<noteq> None
        then Inl (ErrClassLabel (rcl_name rc) (rcl_label rc))
      else if rcl_index rc < 1 then Inl (ErrClassIndexLow (rcl_name rc))
      else if mget (ct_byIndex ct) (rcl_index rc) \<noteq> None
        then Inl (ErrClassIndex (rcl_name rc) (rcl_index rc))
      else if rcl_objective rc = [] then Inl (ErrNoObjective (rcl_name rc))
      else
        bind_result (parseObjective (rcl_name rc) (rcl_objective rc) []) (\<lambda>objective.
        bind_result (parseClassMatch (rcl_name rc) (rcl_dscp rc) (ct_byDSCP ct)) (\<lambda>(dscp, byDSCP).
          let class = \<lparr>tc_Name = rcl_name rc, tc_Label = rcl_label rc, tc_Index = rcl_index rc,
                       tc_DSCP = dscp, tc_Objective = objective\<rparr>
          in Inr \<lparr>ct_byLabel = mput (rcl_label rc) class (ct_byLabel ct),
                  ct_byName = mput (rcl_name rc) class (ct_byName ct),
                  ct_byIndex = mput (rcl_index rc) (rcl_name rc) (ct_byIndex ct),
                  ct_byDSCP = byDSCP\<rparr>)))"

fun parseClasses :: "raw_class list \<Rightarrow> class_tables \<Rightarrow> (tenant_error, class_tables) result" where
  "parseClasses [] ct = Inr ct"
| "parseClasses (rc # rcs) ct = bind_result (parseClass rc ct) (\<lambda>ct'. parseClasses rcs ct')"

definition parseTrafficClasses :: "raw_class list \<Rightarrow>
    (tenant_error, (64 word, traffic_class) gomap \<times> (string, traffic_class) gomap) result" where
  "parseTrafficClasses raw =
     bind_result (parseClasses raw
         \<lparr>ct_byLabel = [(DefaultClassLabel, defaultClass)],
          ct_byName = [(DefaultClassName, defaultClass)], ct_byIndex = [], ct_byDSCP = []\<rparr>)
       (\<lambda>ct. Inr (ct_byLabel ct, ct_byName ct))"

section \<open>Tiers\<close>

fun parseTiersLoop :: "raw_tier list \<Rightarrow> (string, int) gomap \<Rightarrow> (int, string) gomap \<Rightarrow>
    (tenant_error, (string, int) gomap) result" where
  "parseTiersLoop [] byName byIndex = Inr byName"
| "parseTiersLoop (rt # rts) byName byIndex =
     (if rti_name rt = [] then Inl (ErrTierUnnamed (rti_index rt))
      else if mget byName (rti_name rt) \<noteq> None then Inl (ErrTierName (rti_name rt))
      else if rti_index rt < 1 then Inl (ErrTierIndexLow (rti_name rt))
      else if mget byIndex (rti_index rt) \<noteq> None then Inl (ErrTierIndex (rti_name rt) (rti_index rt))
      else parseTiersLoop rts (mput (rti_name rt) (rti_index rt) byName)
             (mput (rti_index rt) (rti_name rt) byIndex))"

definition parseTiers :: "raw_tier list \<Rightarrow> (tenant_error, (string, int) gomap) result" where
  "parseTiers raw = parseTiersLoop raw [] []"

section \<open>Sites\<close>

definition prefixWithin :: "prefix \<Rightarrow> prefix \<Rightarrow> bool" where
  "prefixWithin outer inner \<longleftrightarrow>
     prefix_bits outer \<le> prefix_bits inner \<and> prefix_contains outer (prefix_addr inner)"

definition classMbpsTolerance :: "rounding \<Rightarrow> f64" where
  "classMbpsTolerance r = r (1 / 1000000)"

fun carveLoop :: "rounding \<Rightarrow> (string \<times> f64) list \<Rightarrow> (string, traffic_class) gomap \<Rightarrow>
    (64 word, f64) gomap \<Rightarrow> f64 \<Rightarrow> (tenant_error, (64 word, f64) gomap \<times> f64) result" where
  "carveLoop r [] classByName out carved = Inr (out, carved)"
| "carveLoop r ((name, mbps) # xs) classByName out carved =
     (case mget classByName name of
        None \<Rightarrow> Inl (ErrUnknownClass name)
      | Some class \<Rightarrow>
          if tc_Label class = DefaultClassLabel then Inl (ErrImplicitClass name)
          else if fle mbps (Fin 0) then Inl (ErrClassMbps name)
          else carveLoop r xs classByName (mput (tc_Label class) mbps out) (fadd r carved mbps))"

definition resolveSiteClasses :: "rounding \<Rightarrow> (string, f64) gomap \<Rightarrow> f64 \<Rightarrow>
    (string, traffic_class) gomap \<Rightarrow> (tenant_error, (64 word, f64) gomap) result" where
  "resolveSiteClasses r raw reservation classByName =
     bind_result (carveLoop r raw classByName [] (Fin 0)) (\<lambda>(out, carved).
       let remainder = fsub r reservation carved
       in if flt remainder (fneg (classMbpsTolerance r)) then Inl ErrClassSum
          else if flt (classMbpsTolerance r) remainder
            then Inr (mput DefaultClassLabel remainder out)
          else Inr out)"

section \<open>Loading\<close>

record load_state =
  ld_byID :: "(TenantID, tenant) gomap"
  ld_byIdentity :: "(string, site) gomap"
  ld_byPortalID :: "(string, site) gomap"
  ld_byPop :: "(string, site list) gomap"
  ld_seenIfID :: "(32 word, string) gomap"

text \<open>One site of a tenant: the sites so far and the tables are extended by it.\<close>

definition loadSite :: "rounding \<Rightarrow> (string \<Rightarrow> prefix option) \<Rightarrow> (string, traffic_class) gomap \<Rightarrow>
    TenantID \<Rightarrow> prefix \<Rightarrow> raw_site \<Rightarrow> site list \<Rightarrow> load_state \<Rightarrow>
    (tenant_error, site list \<times> load_state) result" where
  "loadSite r parsePrefix classByName tid allocation rs sites st =
     (case parsePrefix (rsi_prefix rs) of
        None \<Rightarrow> Inl (ErrSitePrefix (rsi_cpe rs))
      | Some pfx \<Rightarrow>
          if \<not> prefixWithin allocation pfx then Inl (ErrSiteOutside (rsi_cpe rs))
          else if mget (ld_seenIfID st) (rsi_if_id rs) \<noteq> None then Inl (ErrIfID (rsi_if_id rs))
          else if mget (ld_byIdentity st) (rsi_identity rs) \<noteq> None
            then Inl (ErrIdentity (rsi_identity rs))
          else if mget (ld_byPortalID st) (rsi_portal_id rs) \<noteq> None
            then Inl (ErrPortalID (rsi_portal_id rs))
          else
            bind_result (resolveSiteClasses r (rsi_classes rs) (rsi_reservation_mbps rs) classByName)
              (\<lambda>classMbps.
                let site = \<lparr>si_TenantID = tid, si_CPE = rsi_cpe rs, si_PortalID = rsi_portal_id rs,
                      si_Node = rsi_node rs, si_Prefix = pfx, si_Attach = rsi_attach rs,
                      si_AttachNode = rsi_attach_node rs, si_IfID = rsi_if_id rs,
                      si_Identity = rsi_identity rs,
                      si_ReservationMbps = rsi_reservation_mbps rs, si_ClassMbps = classMbps\<rparr>
                in Inr (sites @ [site],
                     st\<lparr>ld_seenIfID := mput (rsi_if_id rs) (rsi_identity rs) (ld_seenIfID st),
                        ld_byIdentity := mput (rsi_identity rs) site (ld_byIdentity st),
                        ld_byPortalID := mput (rsi_portal_id rs) site (ld_byPortalID st),
                        ld_byPop := mput (rsi_attach rs)
                          (mget0 [] (ld_byPop st) (rsi_attach rs) @ [site]) (ld_byPop st)\<rparr>)))"

fun loadSites :: "rounding \<Rightarrow> (string \<Rightarrow> prefix option) \<Rightarrow> (string, traffic_class) gomap \<Rightarrow>
    TenantID \<Rightarrow> prefix \<Rightarrow> raw_site list \<Rightarrow> site list \<Rightarrow> load_state \<Rightarrow>
    (tenant_error, site list \<times> load_state) result" where
  "loadSites r parsePrefix classByName tid allocation [] sites st = Inr (sites, st)"
| "loadSites r parsePrefix classByName tid allocation (rs # rss) sites st =
     bind_result (loadSite r parsePrefix classByName tid allocation rs sites st)
       (\<lambda>(sites', st'). loadSites r parsePrefix classByName tid allocation rss sites' st')"

definition loadTenant :: "rounding \<Rightarrow> (string \<Rightarrow> prefix option) \<Rightarrow> (string, traffic_class) gomap \<Rightarrow>
    (string, int) gomap \<Rightarrow> raw_tenant \<Rightarrow> load_state \<Rightarrow> (tenant_error, load_state) result" where
  "loadTenant r parsePrefix classByName tierIndex rc st =
     (if mget (ld_byID st) (rtn_id rc) \<noteq> None then Inl (ErrTenantID (rtn_id rc))
      else case parsePrefix (rtn_allocation rc) of
        None \<Rightarrow> Inl (ErrAllocation (rtn_id rc))
      | Some allocation \<Rightarrow>
          bind_result (loadSites r parsePrefix classByName (rtn_id rc) allocation (rtn_sites rc) [] st)
            (\<lambda>(sites, st').
              Inr (st'\<lparr>ld_byID := mput (rtn_id rc)
                \<lparr>tn_ID = rtn_id rc, tn_Allocation = allocation, tn_Tier = rtn_tier rc,
                 tn_TierIndex = mget0 UnrankedTierIndex tierIndex (rtn_tier rc),
                 tn_VRFTable = rtn_vrf_table rc, tn_Sites = sites\<rparr> (ld_byID st')\<rparr>)))"

fun loadTenants :: "rounding \<Rightarrow> (string \<Rightarrow> prefix option) \<Rightarrow> (string, traffic_class) gomap \<Rightarrow>
    (string, int) gomap \<Rightarrow> raw_tenant list \<Rightarrow> load_state \<Rightarrow> (tenant_error, load_state) result" where
  "loadTenants r parsePrefix classByName tierIndex [] st = Inr st"
| "loadTenants r parsePrefix classByName tierIndex (rc # rcs) st =
     bind_result (loadTenant r parsePrefix classByName tierIndex rc st)
       (\<lambda>st'. loadTenants r parsePrefix classByName tierIndex rcs st')"

record tenant_repo =
  re_classes :: "(64 word, traffic_class) gomap"
  re_byID :: "(TenantID, tenant) gomap"
  re_byIdentity :: "(string, site) gomap"
  re_byPortalID :: "(string, site) gomap"
  re_byPop :: "(string, site list) gomap"

definition empty_load :: load_state where
  "empty_load =
     \<lparr>ld_byID = [], ld_byIdentity = [], ld_byPortalID = [], ld_byPop = [], ld_seenIfID = []\<rparr>"

definition tenant_Load :: "rounding \<Rightarrow> (string \<Rightarrow> prefix option) \<Rightarrow> raw_tenant_db option \<Rightarrow> tenant_repo \<Rightarrow>
    tenant_error option \<times> tenant_repo" where
  "tenant_Load r parsePrefix readDB repo =
     (case readDB of
        None \<Rightarrow> (Some ErrReadTenants, repo)
      | Some raw \<Rightarrow>
          (case
             bind_result (parseTrafficClasses (rdb_classes raw)) (\<lambda>(classes, classByName).
             bind_result (parseTiers (rdb_tiers raw)) (\<lambda>tierIndex.
             bind_result (loadTenants r parsePrefix classByName tierIndex (rdb_tenants raw) empty_load)
               (\<lambda>st. Inr (classes, st)))) of
             Inl err \<Rightarrow> (Some err, repo)
           | Inr (classes, st) \<Rightarrow>
               (None, \<lparr>re_classes = classes, re_byID = ld_byID st, re_byIdentity = ld_byIdentity st,
                       re_byPortalID = ld_byPortalID st, re_byPop = ld_byPop st\<rparr>)))"

section \<open>Look-ups\<close>

definition repo_Tenants :: "tenant_repo \<Rightarrow> tenant list" where
  "repo_Tenants repo = sort_key tn_ID (map snd (re_byID repo))"

text \<open>Higher tiers first, then by identifier.\<close>

definition repo_TenantsByPriority :: "tenant_repo \<Rightarrow> tenant list" where
  "repo_TenantsByPriority repo = sort_key (\<lambda>t. (- tn_TierIndex t, tn_ID t)) (repo_Tenants repo)"

definition repo_Classes :: "tenant_repo \<Rightarrow> traffic_class list" where
  "repo_Classes repo = sort_key tc_Label (map snd (re_classes repo))"

definition repo_Class :: "tenant_repo \<Rightarrow> 64 word \<Rightarrow> traffic_class option" where
  "repo_Class repo label = mget (re_classes repo) label"

definition repo_SiteByIdentity :: "tenant_repo \<Rightarrow> string \<Rightarrow> site option" where
  "repo_SiteByIdentity repo i = mget (re_byIdentity repo) i"

definition repo_SiteByPortalID :: "tenant_repo \<Rightarrow> string \<Rightarrow> site option" where
  "repo_SiteByPortalID repo i = mget (re_byPortalID repo) i"

definition repo_SitesByPop :: "tenant_repo \<Rightarrow> string \<Rightarrow> site list" where
  "repo_SitesByPop repo pop = mget0 [] (re_byPop repo) pop"

section \<open>The node inventory\<close>

record node_access =
  na_Interface :: string
  na_Address :: prefix
  na_Aggregate :: prefix
  na_Nexthop :: addr

record inventory_node =
  in_ID :: NodeID
  in_Name :: string
  in_Index :: int
  in_ISISNet :: string
  in_Locator :: string
  in_Loopback :: string
  in_Interfaces :: "raw_interface list"
  in_Access :: "node_access option"

definition HasAccessSide :: "inventory_node \<Rightarrow> bool" where
  "HasAccessSide n \<longleftrightarrow> in_Access n \<noteq> None"

record inventory =
  iv_byID :: "(NodeID, inventory_node) gomap"
  iv_byName :: "(string, inventory_node) gomap"

definition loadAccess :: "(string \<Rightarrow> prefix option) \<Rightarrow> (string \<Rightarrow> addr option) \<Rightarrow> string \<Rightarrow> raw_access \<Rightarrow>
    (topo_error, node_access) result" where
  "loadAccess parsePrefix parseAddr nid a =
     (case parsePrefix (ra_address a) of
        None \<Rightarrow> Inl (ErrAccessAddress nid)
      | Some address \<Rightarrow>
     (case parsePrefix (ra_aggregate a) of
        None \<Rightarrow> Inl (ErrAccessAggregate nid)
      | Some aggregate \<Rightarrow>
     (case parseAddr (ra_nexthop a) of
        None \<Rightarrow> Inl (ErrAccessNexthop nid)
      | Some nexthop \<Rightarrow>
          if \<not> prefixWithin aggregate address then Inl (ErrAddressOutside nid)
          else if \<not> prefix_contains aggregate nexthop then Inl (ErrNexthopOutside nid)
          else Inr \<lparr>na_Interface = ra_interface a, na_Address = address,
                    na_Aggregate = aggregate, na_Nexthop = nexthop\<rparr>)))"

definition loadInventoryNode :: "(string \<Rightarrow> prefix option) \<Rightarrow> (string \<Rightarrow> addr option) \<Rightarrow> raw_pop \<Rightarrow>
    inventory \<Rightarrow> (topo_error, inventory) result" where
  "loadInventoryNode parsePrefix parseAddr p iv =
     (if mget (iv_byID iv) (rp_id p) \<noteq> None then Inl (ErrDuplicateNodeID (rp_id p))
      else if mget (iv_byName iv) (rp_name p) \<noteq> None then Inl (ErrDuplicateNodeName (rp_name p))
      else
        bind_result
          (case rp_access p of
             None \<Rightarrow> Inr None
           | Some a \<Rightarrow> bind_result (loadAccess parsePrefix parseAddr (rp_id p) a) (\<lambda>x. Inr (Some x)))
          (\<lambda>access.
            let node = \<lparr>in_ID = rp_id p, in_Name = rp_name p, in_Index = rp_index p,
                  in_ISISNet = rp_isis_net p, in_Locator = rp_locator p,
                  in_Loopback = rp_loopback p, in_Interfaces = rp_interfaces p,
                  in_Access = access\<rparr>
            in Inr \<lparr>iv_byID = mput (rp_id p) node (iv_byID iv),
                    iv_byName = mput (rp_name p) node (iv_byName iv)\<rparr>))"

fun loadInventoryNodes :: "(string \<Rightarrow> prefix option) \<Rightarrow> (string \<Rightarrow> addr option) \<Rightarrow> raw_pop list \<Rightarrow>
    inventory \<Rightarrow> (topo_error, inventory) result" where
  "loadInventoryNodes parsePrefix parseAddr [] iv = Inr iv"
| "loadInventoryNodes parsePrefix parseAddr (p # ps) iv =
     bind_result (loadInventoryNode parsePrefix parseAddr p iv)
       (\<lambda>iv'. loadInventoryNodes parsePrefix parseAddr ps iv')"

definition inventory_Load :: "(string \<Rightarrow> prefix option) \<Rightarrow> (string \<Rightarrow> addr option) \<Rightarrow>
    raw_topology option \<Rightarrow> inventory \<Rightarrow> topo_error option \<times> inventory" where
  "inventory_Load parsePrefix parseAddr readLatest iv =
     (case readLatest of
        None \<Rightarrow> (Some ErrReadTopology, iv)
      | Some raw \<Rightarrow>
          (case loadInventoryNodes parsePrefix parseAddr (rt_pops raw)
                  \<lparr>iv_byID = [], iv_byName = []\<rparr> of
             Inl err \<Rightarrow> (Some err, iv)
           | Inr iv' \<Rightarrow> (None, iv')))"

definition inventory_Nodes :: "inventory \<Rightarrow> inventory_node list" where
  "inventory_Nodes iv = sort_key in_ID (map snd (iv_byID iv))"

section \<open>The traffic classes are unambiguous\<close>

definition objective_ok :: "(CostDimension, f64) gomap \<Rightarrow> bool" where
  "objective_ok obj \<longleftrightarrow> (\<forall>d v. mget obj d = Some v \<longrightarrow>
     d \<in> {COSTDIM_LATENCY, COSTDIM_JITTER, COSTDIM_LOSS} \<and> \<not> fle v (Fin 0))"

definition class_ok :: "class_tables \<Rightarrow> traffic_class \<Rightarrow> bool" where
  "class_ok ct c \<longleftrightarrow> c = defaultClass \<or>
     1 \<le> tc_Index c \<and> mget (ct_byIndex ct) (tc_Index c) = Some (tc_Name c) \<and>
     tc_Objective c \<noteq> [] \<and>
     objective_ok (tc_Objective c) \<and>
     tc_DSCP c \<noteq> [] \<and> sorted (tc_DSCP c) \<and> distinct (tc_DSCP c) \<and>
     (\<forall>d \<in> set (tc_DSCP c). 1 \<le> d \<and> d \<le> 63 \<and> mget (ct_byDSCP ct) d = Some (tc_Name c))"

definition tables_ok :: "class_tables \<Rightarrow> bool" where
  "tables_ok ct \<longleftrightarrow> mwf (ct_byLabel ct) \<and> mwf (ct_byName ct) \<and>
     mget (ct_byLabel ct) DefaultClassLabel = Some defaultClass \<and>
     (\<forall>l c. mget (ct_byLabel ct) l = Some c \<longrightarrow>
        tc_Label c = l \<and> mget (ct_byName ct) (tc_Name c) = Some c \<and> class_ok ct c) \<and>
     (\<forall>n c. mget (ct_byName ct) n = Some c \<longrightarrow>
        tc_Name c = n \<and> mget (ct_byLabel ct) (tc_Label c) = Some c)"

lemma parseObjective_ok:
  "parseObjective name ds obj = Inr obj' \<Longrightarrow> objective_ok obj \<Longrightarrow> objective_ok obj'"
proof (induction name ds obj rule: parseObjective.induct)
  case (2 name d weight ds obj)
  from "2.prems"(1) obtain cd where cd: "parseCostDimension d = Some cd" "\<not> fle weight (Fin 0)"
    "parseObjective name ds (mput cd weight obj) = Inr obj'"
    by (auto split: option.splits if_splits)
  have dim: "cd \<in> {COSTDIM_LATENCY, COSTDIM_JITTER, COSTDIM_LOSS}"
    using cd(1) by (simp add: parseCostDimension_def Let_def split: if_splits)
  have "objective_ok (mput cd weight obj)"
    using "2.prems"(2) dim cd(2) unfolding objective_ok_def by simp
  then show ?case
    using "2.IH" [OF cd(1,2,3)] by simp
qed simp

lemma parseObjective_nonempty:
  "parseObjective name ds obj = Inr obj' \<Longrightarrow> ds \<noteq> [] \<or> obj \<noteq> [] \<Longrightarrow> obj' \<noteq> []"
proof (induction name ds obj rule: parseObjective.induct)
  case (2 name d weight ds obj)
  have "mput cd weight obj \<noteq> []" for cd
    by (cases obj) (simp_all add: mput_def)
  then show ?case
    using 2 by (auto split: option.splits if_splits)
qed simp

lemma matchLoop_ok:
  "matchLoop name vs by dscp = Inr (dscp', by') \<Longrightarrow>
   dscp' = dscp @ vs \<and> distinct vs \<and>
   (\<forall>v \<in> set vs. 1 \<le> v \<and> v \<le> 63 \<and> mget by v = None) \<and>
   (\<forall>v. mget by' v = (if v \<in> set vs then Some name else mget by v))"
proof (induction name vs "by" dscp rule: matchLoop.induct)
  case (2 name v vs "by" dscp)
  then have v: "0 \<le> v" "v \<le> 63" "v \<noteq> 0" "mget by v = None"
    and step: "matchLoop name vs (mput v name by) (dscp @ [v]) = Inr (dscp', by')"
    by (auto simp: DSCPMax_def DSCPUnmarked_def split: if_splits)
  have IH: "dscp' = (dscp @ [v]) @ vs \<and> distinct vs \<and>
     (\<forall>u \<in> set vs. 1 \<le> u \<and> u \<le> 63 \<and> mget (mput v name by) u = None) \<and>
     (\<forall>u. mget by' u = (if u \<in> set vs then Some name else mget (mput v name by) u))"
    using "2.IH" "2.prems" step v by (simp add: DSCPMax_def DSCPUnmarked_def)
  then have "v \<notin> set vs" by auto
  with IH v show ?case by (auto split: if_splits)
qed simp

lemma parseClass_ok:
  assumes "tables_ok ct" and "parseClass rc ct = Inr ct'"
  shows "tables_ok ct'"
proof -
  from assms(2) obtain objective dscp by' where
    new: "rcl_name rc \<noteq> []" "mget (ct_byName ct) (rcl_name rc) = None"
      "mget (ct_byLabel ct) (rcl_label rc) = None" "1 \<le> rcl_index rc"
      "mget (ct_byIndex ct) (rcl_index rc) = None" "rcl_objective rc \<noteq> []" and
    obj: "parseObjective (rcl_name rc) (rcl_objective rc) [] = Inr objective" and
    mat: "matchLoop (rcl_name rc) (rcl_dscp rc) (ct_byDSCP ct) [] = Inr (dscp, by')"
      "rcl_dscp rc \<noteq> []" and
    ct': "ct' = (let class = \<lparr>tc_Name = rcl_name rc, tc_Label = rcl_label rc, tc_Index = rcl_index rc,
                       tc_DSCP = sort dscp, tc_Objective = objective\<rparr>
          in \<lparr>ct_byLabel = mput (rcl_label rc) class (ct_byLabel ct),
              ct_byName = mput (rcl_name rc) class (ct_byName ct),
              ct_byIndex = mput (rcl_index rc) (rcl_name rc) (ct_byIndex ct), ct_byDSCP = by'\<rparr>)"
    by (auto simp: parseClass_def parseClassMatch_def bind_result_eq_Inr Let_def split: if_splits)
  define c where "c = \<lparr>tc_Name = rcl_name rc, tc_Label = rcl_label rc, tc_Index = rcl_index rc,
                       tc_DSCP = sort dscp, tc_Objective = objective\<rparr>"
  have M: "dscp = rcl_dscp rc" "distinct dscp"
    "\<And>v. v \<in> set dscp \<Longrightarrow> 1 \<le> v \<and> v \<le> 63 \<and> mget (ct_byDSCP ct) v = None"
    "\<And>v. mget by' v = (if v \<in> set dscp then Some (rcl_name rc) else mget (ct_byDSCP ct) v)"
    using matchLoop_ok [OF mat(1)] by auto
  have "class_ok ct' c"
    using parseObjective_ok [OF obj] parseObjective_nonempty [OF obj] new(4,6) M mat(2)
    by (simp add: class_ok_def c_def ct' Let_def objective_ok_def [of "[]"]
        set_empty [symmetric] del: set_empty)
  moreover have old: "class_ok ct' d" if "class_ok ct d" for d
  proof (cases "d = defaultClass")
    case False
    then have d: "mget (ct_byIndex ct) (tc_Index d) = Some (tc_Name d)"
      "\<forall>v \<in> set (tc_DSCP d). mget (ct_byDSCP ct) v = Some (tc_Name d)"
      using that by (auto simp: class_ok_def)
    have "tc_Index d \<noteq> rcl_index rc" using d(1) new(5) by auto
    moreover have "v \<notin> set dscp" if "v \<in> set (tc_DSCP d)" for v
      using d(2) M(3) that by fastforce
    ultimately show ?thesis
      using that False by (auto simp: class_ok_def ct' Let_def M(4))
  qed (simp add: class_ok_def)
  moreover have "rcl_label rc \<noteq> DefaultClassLabel"
    using assms(1) new(3) by (auto simp: tables_ok_def)
  moreover have name: "tc_Name d \<noteq> rcl_name rc" if "mget (ct_byLabel ct) l = Some d" for l d
    using assms(1) new(2) that by (fastforce simp: tables_ok_def)
  moreover have label: "tc_Label d \<noteq> rcl_label rc" if "mget (ct_byName ct) n = Some d" for n d
    using assms(1) new(3) that by (fastforce simp: tables_ok_def)
  moreover have maps: "ct_byLabel ct' = mput (rcl_label rc) c (ct_byLabel ct)"
    "ct_byName ct' = mput (rcl_name rc) c (ct_byName ct)"
    by (simp_all add: ct' Let_def c_def)
  ultimately show ?thesis
    using assms(1) unfolding tables_ok_def maps
    by (auto simp: gm.wf_put c_def)
qed

lemma parseClasses_ok: "tables_ok ct \<Longrightarrow> parseClasses rcs ct = Inr ct' \<Longrightarrow> tables_ok ct'"
  by (induction rcs ct rule: parseClasses.induct) (auto simp: bind_result_eq_Inr intro: parseClass_ok)

lemma parseTrafficClasses_ok:
  assumes "parseTrafficClasses raw = Inr (byLabel, byName)"
  shows "\<exists>ct. tables_ok ct \<and> ct_byLabel ct = byLabel \<and> ct_byName ct = byName"
proof -
  let ?ct = "\<lparr>ct_byLabel = [(DefaultClassLabel, defaultClass)],
          ct_byName = [(DefaultClassName, defaultClass)], ct_byIndex = [], ct_byDSCP = []\<rparr>"
  have "tables_ok ?ct"
    by (simp add: tables_ok_def mwf_def mget_def class_ok_def defaultClass_def)
  moreover obtain ct where "parseClasses raw ?ct = Inr ct" "byLabel = ct_byLabel ct" "byName = ct_byName ct"
    using assms by (auto simp: parseTrafficClasses_def bind_result_eq_Inr)
  ultimately show ?thesis using parseClasses_ok by blast
qed

lemma tables_ok_same:
  assumes ct: "tables_ok ct"
    and c: "mget (ct_byLabel ct) l = Some c" "mget (ct_byLabel ct) l' = Some c'"
    and eq: "tc_Index c = tc_Index c' \<or> set (tc_DSCP c) \<inter> set (tc_DSCP c') \<noteq> {}"
  shows "c = c'"
proof -
  have T: "mget (ct_byName ct) (tc_Name c) = Some c \<and> class_ok ct c"
    "mget (ct_byName ct) (tc_Name c') = Some c' \<and> class_ok ct c'"
    using ct c unfolding tables_ok_def by blast+
  have "tc_Name c = tc_Name c'"
  proof (cases "c = defaultClass \<or> c' = defaultClass")
    case True
    then show ?thesis
      using T eq by (auto simp: class_ok_def defaultClass_def DefaultClassIndex_def)
  next
    case False
    then show ?thesis
      using T eq by (auto simp: class_ok_def)
  qed
  then show ?thesis using T by (metis option.inject)
qed

section \<open>What a site reserves\<close>

text \<open>Arithmetic without rounding: the classes of a site add up to its reservation.\<close>

definition fin_val :: "f64 \<Rightarrow> rat" where
  "fin_val a = (case a of Fin x \<Rightarrow> x | _ \<Rightarrow> 0)"

definition mbps_total :: "(64 word, f64) gomap \<Rightarrow> rat" where
  "mbps_total m = sum_list (map (fin_val \<circ> snd) m)"

lemma mbps_total_fresh: "mget m k = None \<Longrightarrow> mbps_total (mput k v m) = mbps_total m + fin_val v"
  by (simp add: mbps_total_def mput_fresh mget_None_fst)

definition mbps_ok :: "(64 word, f64) gomap \<Rightarrow> bool" where
  "mbps_ok m \<longleftrightarrow> mwf m \<and> (\<forall>l v. mget m l = Some v \<longrightarrow> (\<exists>x > 0. v = Fin x))"

lemma carveLoop_ok:
  assumes "\<forall>n c. mget classByName n = Some c \<longrightarrow> tc_Name c = n"
    and "\<forall>n c n' c'. mget classByName n = Some c \<longrightarrow> mget classByName n' = Some c' \<longrightarrow>
      tc_Label c = tc_Label c' \<longrightarrow> n = n'"
  shows "carveLoop Fin xs classByName out (Fin a) = Inr (out', carved) \<Longrightarrow> distinct (map fst xs) \<Longrightarrow>
    \<forall>(n, v) \<in> set xs. v \<noteq> NaN \<and> v \<noteq> PInf \<Longrightarrow>
    mbps_ok out \<Longrightarrow> mget out DefaultClassLabel = None \<Longrightarrow> mbps_total out = a \<Longrightarrow>
    \<forall>n c. n \<in> fst ` set xs \<longrightarrow> mget classByName n = Some c \<longrightarrow> mget out (tc_Label c) = None \<Longrightarrow>
    mbps_ok out' \<and> mget out' DefaultClassLabel = None \<and> carved = Fin (mbps_total out')"
proof (induction xs arbitrary: out a)
  case (Cons x xs)
  obtain n v where x: "x = (n, v)" by fastforce
  from Cons.prems(1) x obtain c where c: "mget classByName n = Some c"
    "tc_Label c \<noteq> DefaultClassLabel" "\<not> fle v (Fin 0)"
    and step: "carveLoop Fin xs classByName (mput (tc_Label c) v out) (fadd Fin (Fin a) v) =
      Inr (out', carved)"
    by (auto split: option.splits if_splits)
  have "v \<noteq> NaN" "v \<noteq> PInf" using Cons.prems(3) x by auto
  then obtain y where y: "v = Fin y" "0 < y"
    using c(3) by (cases v) auto
  have fresh: "mget out (tc_Label c) = None"
    using Cons.prems(7) c(1) x by simp
  have "mbps_ok (mput (tc_Label c) v out)"
    using Cons.prems(4) y by (simp add: mbps_ok_def gm.wf_put)
  moreover have "mget (mput (tc_Label c) v out) DefaultClassLabel = None"
    using Cons.prems(5) c(2) by simp
  moreover have "mbps_total (mput (tc_Label c) v out) = a + y"
    using Cons.prems(6) y by (simp add: mbps_total_fresh [OF fresh] fin_val_def)
  moreover have "\<forall>m d. m \<in> fst ` set xs \<longrightarrow> mget classByName m = Some d \<longrightarrow>
      mget (mput (tc_Label c) v out) (tc_Label d) = None"
  proof (intro allI impI)
    fix m d assume m: "m \<in> fst ` set xs" "mget classByName m = Some d"
    have "m \<noteq> n" using Cons.prems(2) m(1) x by auto
    then have "tc_Label d \<noteq> tc_Label c" using assms(2) c(1) m(2) by metis
    then show "mget (mput (tc_Label c) v out) (tc_Label d) = None"
      using Cons.prems(7) m by simp
  qed
  ultimately show ?case
    using Cons.IH [of "mput (tc_Label c) v out" "a + y"] step Cons.prems(2,3) x y by simp
qed auto

section \<open>What loading establishes\<close>

definition sites_of :: "load_state \<Rightarrow> site list" where
  "sites_of st = concat (map (tn_Sites \<circ> snd) (ld_byID st))"

text \<open>The tables index exactly the given sites, and their identifiers do not repeat.\<close>

definition index_ok :: "site list \<Rightarrow> load_state \<Rightarrow> bool" where
  "index_ok all st \<longleftrightarrow>
     distinct (map si_IfID all) \<and> distinct (map si_Identity all) \<and> distinct (map si_PortalID all) \<and>
     (\<forall>i. mget (ld_seenIfID st) i = None \<longleftrightarrow> i \<notin> si_IfID ` set all) \<and>
     (\<forall>i s. mget (ld_byIdentity st) i = Some s \<longleftrightarrow> s \<in> set all \<and> si_Identity s = i) \<and>
     (\<forall>i s. mget (ld_byPortalID st) i = Some s \<longleftrightarrow> s \<in> set all \<and> si_PortalID s = i) \<and>
     (\<forall>pop. mget0 [] (ld_byPop st) pop = filter (\<lambda>s. si_Attach s = pop) all)"

lemma index_ok_add:
  assumes ok: "index_ok all st"
    and new: "mget (ld_seenIfID st) (si_IfID s) = None" "mget (ld_byIdentity st) (si_Identity s) = None"
      "mget (ld_byPortalID st) (si_PortalID s) = None"
  shows "index_ok (all @ [s]) (st\<lparr>ld_seenIfID := mput (si_IfID s) owner (ld_seenIfID st),
      ld_byIdentity := mput (si_Identity s) s (ld_byIdentity st),
      ld_byPortalID := mput (si_PortalID s) s (ld_byPortalID st),
      ld_byPop := mput (si_Attach s) (mget0 [] (ld_byPop st) (si_Attach s) @ [s]) (ld_byPop st)\<rparr>)"
proof -
  have tables: "\<And>i. mget (ld_seenIfID st) i = None \<longleftrightarrow> i \<notin> si_IfID ` set all"
    "\<And>i x. mget (ld_byIdentity st) i = Some x \<longleftrightarrow> x \<in> set all \<and> si_Identity x = i"
    "\<And>i x. mget (ld_byPortalID st) i = Some x \<longleftrightarrow> x \<in> set all \<and> si_PortalID x = i"
    "\<And>pop. mget0 [] (ld_byPop st) pop = filter (\<lambda>x. si_Attach x = pop) all"
    using ok by (simp_all add: index_ok_def)
  have ifid: "si_IfID s \<notin> si_IfID ` set all"
    using tables(1) new(1) by simp
  have ident: "si_Identity x \<noteq> si_Identity s" if "x \<in> set all" for x
    using tables(2) [of "si_Identity s" x] new(2) that by auto
  have portal: "si_PortalID x \<noteq> si_PortalID s" if "x \<in> set all" for x
    using tables(3) [of "si_PortalID s" x] new(3) that by auto
  have ne: "si_Identity s \<notin> si_Identity ` set all" "si_PortalID s \<notin> si_PortalID ` set all"
    using ident portal by force+
  show ?thesis
    unfolding index_ok_def
  proof (intro conjI allI)
    show "distinct (map si_IfID (all @ [s]))" "distinct (map si_Identity (all @ [s]))"
      "distinct (map si_PortalID (all @ [s]))"
      using ok ifid ne by (simp_all add: index_ok_def)
  qed (use ident portal in \<open>auto simp: tables\<close>)
qed

definition site_ok :: "TenantID \<Rightarrow> prefix \<Rightarrow> site \<Rightarrow> bool" where
  "site_ok tid allocation s \<longleftrightarrow> si_TenantID s = tid \<and> prefixWithin allocation (si_Prefix s)"

lemma loadSite_ok:
  assumes "loadSite r parsePrefix cbn tid allocation rs sites st = Inr (sites', st')"
    and "index_ok (all @ sites) st" and "\<forall>s \<in> set sites. site_ok tid allocation s"
  shows "index_ok (all @ sites') st' \<and> ld_byID st' = ld_byID st \<and>
    (\<forall>s \<in> set sites'. site_ok tid allocation s)"
proof -
  from assms(1) obtain pfx cm where
    p: "prefixWithin allocation pfx" "mget (ld_seenIfID st) (rsi_if_id rs) = None"
      "mget (ld_byIdentity st) (rsi_identity rs) = None"
      "mget (ld_byPortalID st) (rsi_portal_id rs) = None" and
    s: "sites' = sites @ [\<lparr>si_TenantID = tid, si_CPE = rsi_cpe rs, si_PortalID = rsi_portal_id rs,
                      si_Node = rsi_node rs, si_Prefix = pfx, si_Attach = rsi_attach rs,
                      si_AttachNode = rsi_attach_node rs, si_IfID = rsi_if_id rs,
                      si_Identity = rsi_identity rs,
                      si_ReservationMbps = rsi_reservation_mbps rs, si_ClassMbps = cm\<rparr>]" and
    st': "st' = (let site = last sites' in
                     st\<lparr>ld_seenIfID := mput (rsi_if_id rs) (rsi_identity rs) (ld_seenIfID st),
                        ld_byIdentity := mput (rsi_identity rs) site (ld_byIdentity st),
                        ld_byPortalID := mput (rsi_portal_id rs) site (ld_byPortalID st),
                        ld_byPop := mput (rsi_attach rs)
                          (mget0 [] (ld_byPop st) (rsi_attach rs) @ [site]) (ld_byPop st)\<rparr>)"
    by (auto simp: loadSite_def bind_result_eq_Inr Let_def split: option.splits if_splits)
  define x where "x = last sites'"
  have x: "si_IfID x = rsi_if_id rs" "si_Identity x = rsi_identity rs"
    "si_PortalID x = rsi_portal_id rs" "si_Attach x = rsi_attach rs" "site_ok tid allocation x"
    using p(1) by (simp_all add: x_def s site_ok_def)
  have "sites' = sites @ [x]" by (simp add: x_def s)
  moreover have "index_ok ((all @ sites) @ [x]) st'"
    using index_ok_add [OF assms(2), of x "rsi_identity rs"] p(2-4) x
    by (simp add: st' Let_def x_def [symmetric])
  ultimately show ?thesis
    using assms(3) x(5) by (simp add: st' Let_def)
qed

lemma loadSites_ok:
  "loadSites r parsePrefix cbn tid allocation rss sites st = Inr (sites', st') \<Longrightarrow>
   index_ok (all @ sites) st \<Longrightarrow> \<forall>s \<in> set sites. site_ok tid allocation s \<Longrightarrow>
   index_ok (all @ sites') st' \<and> ld_byID st' = ld_byID st \<and>
   (\<forall>s \<in> set sites'. site_ok tid allocation s)"
proof (induction rss arbitrary: sites st)
  case (Cons rs rss)
  then obtain s1 st1 where one: "loadSite r parsePrefix cbn tid allocation rs sites st = Inr (s1, st1)"
    and rest: "loadSites r parsePrefix cbn tid allocation rss s1 st1 = Inr (sites', st')"
    by (auto simp: bind_result_eq_Inr)
  show ?case
    using loadSite_ok [OF one Cons.prems(2,3)] Cons.IH [OF rest] by simp
qed simp

definition load_ok :: "load_state \<Rightarrow> bool" where
  "load_ok st \<longleftrightarrow> mwf (ld_byID st) \<and> index_ok (sites_of st) st \<and>
     (\<forall>i t. mget (ld_byID st) i = Some t \<longrightarrow>
        tn_ID t = i \<and> (\<forall>s \<in> set (tn_Sites t). site_ok i (tn_Allocation t) s))"

lemma loadTenant_ok:
  assumes "loadTenant r parsePrefix cbn ti rc st = Inr st'" and "load_ok st"
  shows "load_ok st'"
proof -
  from assms(1) obtain allocation sites st1 where
    new: "mget (ld_byID st) (rtn_id rc) = None" and
    sites: "loadSites r parsePrefix cbn (rtn_id rc) allocation (rtn_sites rc) [] st = Inr (sites, st1)" and
    st': "st' = st1\<lparr>ld_byID := mput (rtn_id rc)
                \<lparr>tn_ID = rtn_id rc, tn_Allocation = allocation, tn_Tier = rtn_tier rc,
                 tn_TierIndex = mget0 UnrankedTierIndex ti (rtn_tier rc),
                 tn_VRFTable = rtn_vrf_table rc, tn_Sites = sites\<rparr> (ld_byID st1)\<rparr>"
    by (auto simp: loadTenant_def bind_result_eq_Inr split: option.splits if_splits)
  have S: "index_ok (sites_of st @ sites) st1" "ld_byID st1 = ld_byID st"
    "\<forall>s \<in> set sites. site_ok (rtn_id rc) allocation s"
    using loadSites_ok [OF sites, of "sites_of st"] assms(2) by (simp_all add: load_ok_def)
  have "sites_of st' = sites_of st @ sites"
    using new by (simp add: sites_of_def st' S(2) mput_fresh mget_None_fst)
  moreover have "index_ok all st' = index_ok all st1" for all
    by (simp add: index_ok_def st')
  ultimately show ?thesis
    using S assms(2) by (simp add: load_ok_def st' gm.wf_put)
qed

lemma loadTenants_ok:
  "loadTenants r parsePrefix cbn ti rcs st = Inr st' \<Longrightarrow> load_ok st \<Longrightarrow> load_ok st'"
proof (induction rcs arbitrary: st)
  case (Cons rc rcs)
  then obtain st1 where "loadTenant r parsePrefix cbn ti rc st = Inr st1"
    and "loadTenants r parsePrefix cbn ti rcs st1 = Inr st'"
    by (auto simp: bind_result_eq_Inr)
  then show ?case using loadTenant_ok Cons.IH Cons.prems(2) by blast
qed simp

section \<open>The inventory\<close>

definition inventory_ok :: "inventory \<Rightarrow> bool" where
  "inventory_ok iv \<longleftrightarrow> mwf (iv_byID iv) \<and> mwf (iv_byName iv) \<and>
     (\<forall>i n. mget (iv_byID iv) i = Some n \<longrightarrow> in_ID n = i \<and> mget (iv_byName iv) (in_Name n) = Some n \<and>
        (\<forall>a. in_Access n = Some a \<longrightarrow> prefixWithin (na_Aggregate a) (na_Address a) \<and>
           prefix_contains (na_Aggregate a) (na_Nexthop a))) \<and>
     (\<forall>x n. mget (iv_byName iv) x = Some n \<longrightarrow> in_Name n = x \<and> mget (iv_byID iv) (in_ID n) = Some n)"

lemma loadAccess_ok:
  "loadAccess parsePrefix parseAddr nid x = Inr a \<Longrightarrow>
   prefixWithin (na_Aggregate a) (na_Address a) \<and> prefix_contains (na_Aggregate a) (na_Nexthop a)"
  by (auto simp: loadAccess_def split: option.splits if_splits)

lemma loadInventoryNode_ok:
  assumes "loadInventoryNode parsePrefix parseAddr p iv = Inr iv'" and "inventory_ok iv"
  shows "inventory_ok iv'"
proof -
  from assms(1) have new: "mget (iv_byID iv) (rp_id p) = None" "mget (iv_byName iv) (rp_name p) = None"
    by (simp_all add: loadInventoryNode_def split: if_splits)
  from assms(1) obtain access where
    res: "(case rp_access p of
             None \<Rightarrow> Inr None
           | Some a \<Rightarrow> bind_result (loadAccess parsePrefix parseAddr (rp_id p) a) (\<lambda>x. Inr (Some x))) =
           Inr access" and
    iv': "iv' = (let node = \<lparr>in_ID = rp_id p, in_Name = rp_name p, in_Index = rp_index p,
                  in_ISISNet = rp_isis_net p, in_Locator = rp_locator p,
                  in_Loopback = rp_loopback p, in_Interfaces = rp_interfaces p,
                  in_Access = access\<rparr>
            in \<lparr>iv_byID = mput (rp_id p) node (iv_byID iv),
                iv_byName = mput (rp_name p) node (iv_byName iv)\<rparr>)"
    by (simp add: loadInventoryNode_def bind_result_eq_Inr Let_def split: if_splits) blast
  have acc: "prefixWithin (na_Aggregate a) (na_Address a) \<and>
      prefix_contains (na_Aggregate a) (na_Nexthop a)" if "access = Some a" for a
    using res that loadAccess_ok by (auto simp: bind_result_eq_Inr split: option.splits)
  define n where "n = \<lparr>in_ID = rp_id p, in_Name = rp_name p, in_Index = rp_index p,
                  in_ISISNet = rp_isis_net p, in_Locator = rp_locator p,
                  in_Loopback = rp_loopback p, in_Interfaces = rp_interfaces p,
                  in_Access = access\<rparr>"
  have n: "in_ID n = rp_id p" "in_Name n = rp_name p" "in_Access n = access"
    by (simp_all add: n_def)
  have name: "in_Name m \<noteq> rp_name p" if "mget (iv_byID iv) i = Some m" for i m
  proof
    assume "in_Name m = rp_name p"
    then have "mget (iv_byName iv) (rp_name p) = Some m"
      using assms(2) that unfolding inventory_ok_def by metis
    then show False using new(2) by simp
  qed
  have nid: "in_ID m \<noteq> rp_id p" if "mget (iv_byName iv) x = Some m" for x m
  proof
    assume "in_ID m = rp_id p"
    then have "mget (iv_byID iv) (rp_id p) = Some m"
      using assms(2) that unfolding inventory_ok_def by metis
    then show False using new(1) by simp
  qed
  have maps: "iv_byID iv' = mput (rp_id p) n (iv_byID iv)"
    "iv_byName iv' = mput (rp_name p) n (iv_byName iv)"
    by (simp_all add: iv' n_def Let_def)
  show ?thesis
    using assms(2) n name nid acc unfolding inventory_ok_def maps by (simp add: gm.wf_put)
qed

lemma loadInventoryNodes_ok:
  "loadInventoryNodes parsePrefix parseAddr ps iv = Inr iv' \<Longrightarrow> inventory_ok iv \<Longrightarrow> inventory_ok iv'"
proof (induction ps arbitrary: iv)
  case (Cons p ps)
  then obtain iv1 where "loadInventoryNode parsePrefix parseAddr p iv = Inr iv1"
    and "loadInventoryNodes parsePrefix parseAddr ps iv1 = Inr iv'"
    by (auto simp: bind_result_eq_Inr)
  then show ?case using loadInventoryNode_ok Cons.IH Cons.prems(2) by blast
qed simp

section \<open>Properties\<close>

lemma tenant_Load_None:
  assumes "tenant_Load r parsePrefix readDB repo = (None, repo')"
  shows "\<exists>raw classes cbn ti st. readDB = Some raw \<and>
    parseTrafficClasses (rdb_classes raw) = Inr (classes, cbn) \<and>
    parseTiers (rdb_tiers raw) = Inr ti \<and>
    loadTenants r parsePrefix cbn ti (rdb_tenants raw) empty_load = Inr st \<and>
    repo' = \<lparr>re_classes = classes, re_byID = ld_byID st, re_byIdentity = ld_byIdentity st,
             re_byPortalID = ld_byPortalID st, re_byPop = ld_byPop st\<rparr>"
  using assms
  by (auto simp: tenant_Load_def bind_result_eq_Inr split: option.splits sum.splits)

text \<open>The sites of a repository, in the order of its tenants.\<close>

definition repo_sites :: "tenant_repo \<Rightarrow> site list" where
  "repo_sites repo = concat (map (tn_Sites \<circ> snd) (re_byID repo))"

text \<open>C37. A successful load leaves a repository whose tenants are filed under their identifiers,
  whose sites belong to their tenant and lie inside its allocation, in which interface
  identifiers, identities and portal identifiers are unique across all tenants, and whose
  three site indexes hold exactly the sites. A load that fails leaves the repository as it was.\<close>

theorem tenant_Load_valid:
  assumes "tenant_Load r parsePrefix readDB repo = (err, repo')"
  shows "(err \<noteq> None \<longrightarrow> repo' = repo) \<and>
    (err = None \<longrightarrow>
       (\<forall>i t. mget (re_byID repo') i = Some t \<longrightarrow> tn_ID t = i \<and>
          (\<forall>s \<in> set (tn_Sites t). si_TenantID s = i \<and> prefixWithin (tn_Allocation t) (si_Prefix s))) \<and>
       distinct (map si_IfID (repo_sites repo')) \<and>
       (\<forall>i s. repo_SiteByIdentity repo' i = Some s \<longleftrightarrow> s \<in> set (repo_sites repo') \<and> si_Identity s = i) \<and>
       (\<forall>i s. repo_SiteByPortalID repo' i = Some s \<longleftrightarrow> s \<in> set (repo_sites repo') \<and> si_PortalID s = i) \<and>
       (\<forall>pop. repo_SitesByPop repo' pop = filter (\<lambda>s. si_Attach s = pop) (repo_sites repo')))"
proof (cases err)
  case None
  with assms have "tenant_Load r parsePrefix readDB repo = (None, repo')"
    by simp
  from tenant_Load_None [OF this] obtain raw :: raw_tenant_db and classes cbn ti st where
    load: "loadTenants r parsePrefix cbn ti (rdb_tenants raw) empty_load = Inr st" and
    repo: "repo' = \<lparr>re_classes = classes, re_byID = ld_byID st, re_byIdentity = ld_byIdentity st,
                       re_byPortalID = ld_byPortalID st, re_byPop = ld_byPop st\<rparr>"
    by blast
  have "load_ok st"
    by (rule loadTenants_ok [OF load])
      (simp add: empty_load_def load_ok_def index_ok_def sites_of_def gm.wf_empty mget0_def)
  then have L: "index_ok (repo_sites repo') st"
    "\<forall>i t. mget (ld_byID st) i = Some t \<longrightarrow>
        tn_ID t = i \<and> (\<forall>s \<in> set (tn_Sites t). site_ok i (tn_Allocation t) s)"
    by (simp_all add: load_ok_def repo repo_sites_def sites_of_def)
  then show ?thesis
    using None unfolding index_ok_def
    by (simp add: repo site_ok_def repo_SiteByIdentity_def repo_SiteByPortalID_def
        repo_SitesByPop_def)
next
  case (Some e)
  then show ?thesis
    using assms by (auto simp: tenant_Load_def split: option.splits sum.splits)
qed

text \<open>C38. Accepted traffic classes are unambiguous: labels, names and indexes identify a class,
  no two classes share a DSCP codepoint, codepoints lie in 1..63, every objective of a named
  class has only known dimensions with weights that are not zero or negative, and the default
  class has label 0.\<close>

theorem parseTrafficClasses_unambiguous:
  assumes "parseTrafficClasses raw = Inr (byLabel, byName)"
  shows "mget byLabel DefaultClassLabel = Some defaultClass \<and>
    (\<forall>l c. mget byLabel l = Some c \<longrightarrow> tc_Label c = l \<and> mget byName (tc_Name c) = Some c) \<and>
    (\<forall>n c. mget byName n = Some c \<longrightarrow> tc_Name c = n \<and> mget byLabel (tc_Label c) = Some c) \<and>
    (\<forall>l c l' c'. mget byLabel l = Some c \<longrightarrow> mget byLabel l' = Some c' \<longrightarrow>
       tc_Index c = tc_Index c' \<or> set (tc_DSCP c) \<inter> set (tc_DSCP c') \<noteq> {} \<longrightarrow> c = c') \<and>
    (\<forall>l c. mget byLabel l = Some c \<longrightarrow> c \<noteq> defaultClass \<longrightarrow>
       (\<forall>d \<in> set (tc_DSCP c). 1 \<le> d \<and> d \<le> 63) \<and>
       (\<forall>d v. mget (tc_Objective c) d = Some v \<longrightarrow>
          d \<in> {COSTDIM_LATENCY, COSTDIM_JITTER, COSTDIM_LOSS} \<and> \<not> fle v (Fin 0)))"
proof -
  obtain ct where ct: "tables_ok ct" "ct_byLabel ct = byLabel" "ct_byName ct = byName"
    using parseTrafficClasses_ok [OF assms] by blast
  have T: "mget byLabel l = Some c \<Longrightarrow>
      tc_Label c = l \<and> mget byName (tc_Name c) = Some c \<and> class_ok ct c" for l c
    using ct unfolding tables_ok_def by blast
  have same: "c = c'"
    if "mget byLabel l = Some c" "mget byLabel l' = Some c'"
      "tc_Index c = tc_Index c' \<or> set (tc_DSCP c) \<inter> set (tc_DSCP c') \<noteq> {}" for l c l' c'
    using tables_ok_same [OF ct(1)] that ct(2) by blast
  show ?thesis
  proof (intro conjI)
    show "mget byLabel DefaultClassLabel = Some defaultClass"
      using ct unfolding tables_ok_def by blast
    show "\<forall>n c. mget byName n = Some c \<longrightarrow> tc_Name c = n \<and> mget byLabel (tc_Label c) = Some c"
      using ct unfolding tables_ok_def by blast
    show "\<forall>l c. mget byLabel l = Some c \<longrightarrow> c \<noteq> defaultClass \<longrightarrow>
       (\<forall>d \<in> set (tc_DSCP c). 1 \<le> d \<and> d \<le> 63) \<and>
       (\<forall>d v. mget (tc_Objective c) d = Some v \<longrightarrow>
          d \<in> {COSTDIM_LATENCY, COSTDIM_JITTER, COSTDIM_LOSS} \<and> \<not> fle v (Fin 0))"
      using T unfolding class_ok_def objective_ok_def by blast
  qed (use T same in blast)+
qed

text \<open>The classes of an accepted site are reserved a positive amount each, and without
  rounding their sum is the reservation of the site, up to the tolerance of one millionth
  below which no default class is made.\<close>

theorem site_classes_add_up:
  assumes "parseTrafficClasses rawc = Inr (byLabel, byName)"
    and "resolveSiteClasses Fin raw (Fin res) byName = Inr out"
    and "mwf raw" and "\<forall>(n, v) \<in> set raw. v \<noteq> NaN \<and> v \<noteq> PInf"
  shows "(\<forall>l v. mget out l = Some v \<longrightarrow> (\<exists>x > 0. v = Fin x)) \<and>
    \<bar>res - mbps_total out\<bar> \<le> 1 / 1000000"
proof -
  obtain ct where ct: "tables_ok ct" "ct_byName ct = byName"
    using parseTrafficClasses_ok [OF assms(1)] by blast
  have names: "\<forall>n c. mget byName n = Some c \<longrightarrow> tc_Name c = n"
    using ct unfolding tables_ok_def by blast
  have labels: "\<forall>n c n' c'. mget byName n = Some c \<longrightarrow> mget byName n' = Some c' \<longrightarrow>
      tc_Label c = tc_Label c' \<longrightarrow> n = n'"
    using ct unfolding tables_ok_def by (metis option.inject)
  obtain m carved where m: "carveLoop Fin raw byName [] (Fin 0) = Inr (m, carved)"
    and out: "(let remainder = fsub Fin (Fin res) carved
       in if flt remainder (fneg (classMbpsTolerance Fin)) then Inl ErrClassSum
          else if flt (classMbpsTolerance Fin) remainder
            then Inr (mput DefaultClassLabel remainder m)
          else Inr m) = Inr out"
    using assms(2) by (auto simp: resolveSiteClasses_def bind_result_eq_Inr)
  have C: "mbps_ok m" "mget m DefaultClassLabel = None" "carved = Fin (mbps_total m)"
    using carveLoop_ok [OF names labels m] assms(3,4)
    by (auto simp: mwf_def mbps_ok_def gm.wf_empty mbps_total_def)
  have rem: "fsub Fin (Fin res) carved = Fin (res - mbps_total m)"
    by (simp add: C(3) fsub_def)
  show ?thesis
  proof (cases "1 / 1000000 < res - mbps_total m")
    case True
    then have o: "out = mput DefaultClassLabel (Fin (res - mbps_total m)) m"
      using out by (simp add: rem classMbpsTolerance_def Let_def split: if_splits)
    show ?thesis
      using True C(1) mbps_total_fresh [OF C(2)]
      by (auto simp: o mbps_ok_def fin_val_def)
  next
    case False
    then have "out = m" "\<not> res - mbps_total m < - (1 / 1000000)"
      using out by (auto simp: rem classMbpsTolerance_def Let_def split: if_splits)
    moreover from this have "\<bar>res - mbps_total m\<bar> \<le> 1 / 1000000"
      using False by linarith
    ultimately show ?thesis
      using C(1) by (simp add: mbps_ok_def)
  qed
qed

text \<open>One class, two tenants with one site each.\<close>

definition demo_class :: raw_class where
  "demo_class =
     \<lparr>rcl_name = ''voice'', rcl_label = 5, rcl_index = 1, rcl_dscp = [46, 34],
      rcl_objective = [(''latency'', Fin 2), (''jitter'', Fin 1)]\<rparr>"

definition demo_site :: "string \<Rightarrow> string \<Rightarrow> 32 word \<Rightarrow> raw_site" where
  "demo_site n pop i =
     \<lparr>rsi_cpe = n, rsi_portal_id = n, rsi_node = n, rsi_prefix = [], rsi_attach = pop,
      rsi_attach_node = pop, rsi_if_id = i, rsi_identity = n, rsi_reservation_mbps = Fin 20,
      rsi_classes = [(''voice'', Fin 5)]\<rparr>"

definition demo_db :: raw_tenant_db where
  "demo_db =
     \<lparr>rdb_classes = [demo_class], rdb_tiers = [\<lparr>rti_name = ''gold'', rti_index = 2\<rparr>],
      rdb_tenants =
        [\<lparr>rtn_id = 1, rtn_allocation = [], rtn_tier = ''gold'', rtn_vrf_table = 100,
          rtn_sites = [demo_site ''s1'' ''a'' 1, demo_site ''s2'' ''b'' 2]\<rparr>,
         \<lparr>rtn_id = 2, rtn_allocation = [], rtn_tier = ''none'', rtn_vrf_table = 200,
          rtn_sites = [demo_site ''s3'' ''a'' 3, demo_site ''s4'' ''c'' 4]\<rparr>]\<rparr>"

definition empty_repo :: tenant_repo where
  "empty_repo = \<lparr>re_classes = [], re_byID = [], re_byIdentity = [], re_byPortalID = [], re_byPop = []\<rparr>"

definition demo_load :: "tenant_error option \<times> tenant_repo" where
  "demo_load = tenant_Load Fin demo_parse (Some demo_db) empty_repo"

theorem tenant_Load_valid_witness:
  "fst demo_load = None \<and> distinct (map si_IfID (repo_sites (snd demo_load))) \<and>
   length (repo_sites (snd demo_load)) = 4"
proof -
  have *: "fst demo_load = None" "length (repo_sites (snd demo_load)) = 4"
    by code_simp+
  then have "tenant_Load Fin demo_parse (Some demo_db) empty_repo = (None, snd demo_load)"
    unfolding demo_load_def by (metis prod.collapse)
  from tenant_Load_valid [OF this] * show ?thesis by blast
qed

definition demo_classes :: "(64 word, traffic_class) gomap \<times> (string, traffic_class) gomap" where
  "demo_classes = (case parseTrafficClasses [demo_class] of Inl _ \<Rightarrow> ([], []) | Inr p \<Rightarrow> p)"

lemma demo_classes_eq: "parseTrafficClasses [demo_class] = Inr demo_classes"
proof -
  have "\<not> isl (parseTrafficClasses [demo_class])"
    by code_simp
  then show ?thesis
    by (cases "parseTrafficClasses [demo_class]") (simp_all add: demo_classes_def)
qed

theorem parseTrafficClasses_unambiguous_witness:
  "mget (fst demo_classes) DefaultClassLabel = Some defaultClass \<and> length (fst demo_classes) = 2"
proof -
  have "length (fst demo_classes) = 2"
    by code_simp
  then show ?thesis
    using parseTrafficClasses_unambiguous [of "[demo_class]" "fst demo_classes" "snd demo_classes"]
    by (simp add: demo_classes_eq)
qed

theorem site_classes_add_up_witness:
  "\<exists>out. resolveSiteClasses Fin [(''voice'', Fin 5)] (Fin 20) (snd demo_classes) = Inr out \<and>
     \<bar>20 - mbps_total out\<bar> \<le> 1 / 1000000"
proof -
  let ?r = "resolveSiteClasses Fin [(''voice'', Fin 5)] (Fin 20) (snd demo_classes)"
  have "\<not> isl ?r"
    by code_simp
  then obtain out where out: "?r = Inr out"
    by (cases ?r) auto
  have "parseTrafficClasses [demo_class] = Inr (fst demo_classes, snd demo_classes)"
    by (simp add: demo_classes_eq)
  from site_classes_add_up [OF this out] out show ?thesis
    by (simp add: mwf_def)
qed

text \<open>After a successful load of the inventory the indexes by identifier and by name hold the
  same nodes, and on every node with an access side the interface address lies inside the
  aggregate and so does the next hop. A load that fails changes nothing.\<close>

theorem inventory_Load_valid:
  assumes "inventory_Load parsePrefix parseAddr readLatest iv = (err, iv')"
  shows "(err \<noteq> None \<longrightarrow> iv' = iv) \<and>
    (err = None \<longrightarrow>
       (\<forall>i n. mget (iv_byID iv') i = Some n \<longleftrightarrow>
          in_ID n = i \<and> mget (iv_byName iv') (in_Name n) = Some n) \<and>
       (\<forall>i n a. mget (iv_byID iv') i = Some n \<longrightarrow> in_Access n = Some a \<longrightarrow>
          prefixWithin (na_Aggregate a) (na_Address a) \<and>
          prefix_contains (na_Aggregate a) (na_Nexthop a)))"
proof (cases err)
  case None
  then obtain raw :: raw_topology where "loadInventoryNodes parsePrefix parseAddr (rt_pops raw)
      \<lparr>iv_byID = [], iv_byName = []\<rparr> = Inr iv'"
    using assms by (auto simp: inventory_Load_def split: option.splits sum.splits)
  then have "inventory_ok iv'"
    by (rule loadInventoryNodes_ok) (simp add: inventory_ok_def gm.wf_empty)
  then show ?thesis
    using None unfolding inventory_ok_def by blast
next
  case (Some e)
  then show ?thesis
    using assms by (auto simp: inventory_Load_def split: option.splits sum.splits)
qed

theorem inventory_Load_valid_witness:
  "\<exists>iv n. inventory_Load demo_parse (\<lambda>_. None) (Some demo_raw) \<lparr>iv_byID = [], iv_byName = []\<rparr> = (None, iv) \<and>
     mget (iv_byID iv) ''a'' = Some n \<and> in_ID n = ''a'' \<and> mget (iv_byName iv) (in_Name n) = Some n"
proof -
  let ?l = "inventory_Load demo_parse (\<lambda>_. None) (Some demo_raw) \<lparr>iv_byID = [], iv_byName = []\<rparr>"
  have "fst ?l = None" and "mget (iv_byID (snd ?l)) ''a'' \<noteq> None"
    by code_simp+
  then obtain n where l: "?l = (None, snd ?l)" and n: "mget (iv_byID (snd ?l)) ''a'' = Some n"
    by (metis not_None_eq prod.collapse)
  from inventory_Load_valid [OF l] n have "in_ID n = ''a'' \<and> mget (iv_byName (snd ?l)) (in_Name n) = Some n"
    by blast
  with l n show ?thesis by blast
qed

end
