(* ===== verification/Cspf_Correct.thy ===== *)
theory Cspf_Correct
  imports Cspf
begin

text \<open>
  Correctness of the search: the laws of labels and weights it relies on, the invariant
  of its loop, and from it that \<^verbatim>\<open>computePath\<close> returns, that the path it returns is a walk
  of the graph without a repeated node whose cost is the sum of the weights along it, that
  no other walk is cheaper, and that it reports no path exactly when every walk to the
  destination has infinite cost.
\<close>

section \<open>Labels and weights\<close>

text \<open>
  \<open>ok\<close> are the values a label can take and \<open>okw\<close> those of a weight. Adding a weight
  never makes a label smaller and keeps the order of labels.
\<close>

locale route_algebra =
  fixes add :: "'w \<Rightarrow> 'w \<Rightarrow> 'w"
    and le :: "'w \<Rightarrow> 'w \<Rightarrow> bool"
    and zero :: 'w
    and ok :: "'w \<Rightarrow> bool"
    and okw :: "'w \<Rightarrow> bool"
  assumes le_refl: "ok a \<Longrightarrow> le a a"
    and le_trans: "le a b \<Longrightarrow> le b c \<Longrightarrow> le a c"
    and ok_zero: "ok zero"
    and zero_le: "ok a \<Longrightarrow> le zero a"
    and add_ok: "ok a \<Longrightarrow> okw w \<Longrightarrow> ok (add a w)"
    and add_mono: "ok a \<Longrightarrow> ok b \<Longrightarrow> okw w \<Longrightarrow> le a b \<Longrightarrow> le (add a w) (add b w)"
    and add_ext: "ok a \<Longrightarrow> okw w \<Longrightarrow> le a (add a w)"
begin

text \<open>A walk from \<open>s\<close> along the relation \<open>E\<close>, with its cost added from the left.\<close>

inductive walk :: "('n \<Rightarrow> 'w \<Rightarrow> 'n \<Rightarrow> bool) \<Rightarrow> 'n \<Rightarrow> 'n \<Rightarrow> 'w \<Rightarrow> bool" for E s where
  walk_start: "walk E s s zero"
| walk_step: "walk E s u c \<Longrightarrow> E u w v \<Longrightarrow> okw w \<Longrightarrow> walk E s v (add c w)"

lemma walk_ok: "walk E s v c \<Longrightarrow> ok c"
  by (induction rule: walk.induct) (auto intro: ok_zero add_ok)

text \<open>
  If the edges out of the visited nodes are relaxed and no unvisited node has a label
  below \<open>m\<close>, a walk costs at least the label of its end, or at least \<open>m\<close>.
\<close>

lemma label_or_bound:
  assumes "walk E s v c"
    and labels: "\<And>n. ok (d n)"
    and start: "d s = zero" "s \<in> N"
    and nodes: "\<And>u w v. E u w v \<Longrightarrow> v \<in> N"
    and relaxed: "\<And>u w v. u \<in> V \<Longrightarrow> E u w v \<Longrightarrow> okw w \<Longrightarrow> le (d v) (add (d u) w)"
    and bound: "\<And>n. n \<in> N \<Longrightarrow> n \<notin> V \<Longrightarrow> le m (d n)"
  shows "v \<in> N \<and> (le (d v) c \<or> le m c)"
  using assms(1)
proof (induction rule: walk.induct)
  case walk_start
  then show ?case using start by (simp add: le_refl ok_zero)
next
  case (walk_step u c w v)
  have c: "ok c" "le c (add c w)"
    using walk_ok [OF walk_step.hyps(1)] add_ext walk_step.hyps(3) by auto
  have "le (d v) (add c w) \<or> le m (add c w)"
  proof (cases "le m c")
    case True
    then show ?thesis using c le_trans by blast
  next
    case False
    then have du: "le (d u) c" using walk_step.IH by blast
    show ?thesis
    proof (cases "u \<in> V")
      case True
      then show ?thesis
        using relaxed walk_step.hyps(2,3) add_mono [OF labels c(1) walk_step.hyps(3) du] le_trans
        by blast
    next
      case False
      then show ?thesis using bound walk_step.IH du c le_trans by blast
    qed
  qed
  then show ?case using nodes walk_step.hyps(2) by blast
qed

end

text \<open>Every rounding mode gives such labels: representable and not negative.\<close>

sublocale rounding_mode < route: route_algebra "fadd r" fle "Fin 0"
  "\<lambda>a. representable a \<and> fnonneg a" fnonneg
proof unfold_locales
  show "fle a a" if "representable a \<and> fnonneg a" for a
    using that by (auto intro: fle_refl fnonneg_NaN)
  show "fle a c" if "fle a b" "fle b c" for a b c
    using that by (rule fle_trans)
  show "representable (Fin 0) \<and> fnonneg (Fin 0)"
    by (simp add: representable_zero)
  show "fle (Fin 0) a" if "representable a \<and> fnonneg a" for a
    using that by (simp add: fnonneg_def)
  show "representable (fadd r a w) \<and> fnonneg (fadd r a w)"
    if "representable a \<and> fnonneg a" "fnonneg w" for a w
    using that by (simp add: representable_fadd fadd_nonneg)
  show "fle (fadd r a w) (fadd r b w)"
    if "representable a \<and> fnonneg a" "representable b \<and> fnonneg b" "fnonneg w" "fle a b" for a b w
    using that by (intro fadd_mono) (auto intro: fle_refl fnonneg_NaN)
  show "fle a (fadd r a w)" if "representable a \<and> fnonneg a" "fnonneg w" for a w
    using that by (simp add: fadd_extensive)
qed

section \<open>Walks of the graph\<close>

text \<open>A sequence of edges of the graph that leads from one node to another.\<close>

fun edge_walk :: "pce_graph \<Rightarrow> NodeID \<Rightarrow> pce_edge_id list \<Rightarrow> NodeID \<Rightarrow> bool" where
  "edge_walk g u [] v \<longleftrightarrow> u = v"
| "edge_walk g u (i # is) v \<longleftrightarrow>
     (case mget (pg_edges g) i of
        None \<Rightarrow> False
      | Some e \<Rightarrow> i \<in> set (mget0 [] (pg_adj g) u) \<and> mget (pg_nodes g) (pe_NodeTo e) \<noteq> None \<and>
          edge_walk g (pe_NodeTo e) is v)"

definition edge_weight :: "pce_graph \<Rightarrow> (pce_edge \<Rightarrow> f64) \<Rightarrow> pce_edge_id \<Rightarrow> f64" where
  "edge_weight g w i = (case mget (pg_edges g) i of None \<Rightarrow> NaN | Some e \<Rightarrow> w e)"

definition walk_cost :: "rounding \<Rightarrow> pce_graph \<Rightarrow> (pce_edge \<Rightarrow> f64) \<Rightarrow> pce_edge_id list \<Rightarrow> f64" where
  "walk_cost r g w is = foldl (\<lambda>c i. fadd r c (edge_weight g w i)) (Fin 0) is"

lemma edge_walk_snoc:
  "edge_walk g u (is @ [i]) v \<longleftrightarrow>
   (\<exists>e. mget (pg_edges g) i = Some e \<and> pe_NodeTo e = v \<and> mget (pg_nodes g) v \<noteq> None \<and>
     (\<exists>x. edge_walk g u is x \<and> i \<in> set (mget0 [] (pg_adj g) x)))"
  by (induction "is" arbitrary: u) (auto split: option.splits)

lemma walk_cost_snoc: "walk_cost r g w (is @ [i]) = fadd r (walk_cost r g w is) (edge_weight g w i)"
  by (simp add: walk_cost_def)

lemma fadd_NaN_right [simp]: "fadd r a NaN = NaN"
  by (cases a) auto

definition weights_ok :: "pce_graph \<Rightarrow> (pce_edge \<Rightarrow> f64) \<Rightarrow> bool" where
  "weights_ok g w \<longleftrightarrow> (\<forall>i e. mget (pg_edges g) i = Some e \<longrightarrow> w e = NaN \<or> fnonneg (w e))"

text \<open>The edges as a relation between nodes, for the lemma on walks.\<close>

definition edge_rel :: "pce_graph \<Rightarrow> (pce_edge \<Rightarrow> f64) \<Rightarrow> NodeID \<Rightarrow> f64 \<Rightarrow> NodeID \<Rightarrow> bool" where
  "edge_rel g w u x v \<longleftrightarrow>
     (\<exists>i e. i \<in> set (mget0 [] (pg_adj g) u) \<and> mget (pg_edges g) i = Some e \<and> x = w e \<and>
       v = pe_NodeTo e \<and> mget (pg_nodes g) v \<noteq> None)"

section \<open>The scan\<close>

lemma pickNode_spec:
  assumes "best \<noteq> NaN" and "\<And>n. dist_of st n \<noteq> NaN"
  shows "case pickNode st ns best current of
      None \<Rightarrow> current = None \<and> (\<forall>n \<in> set ns - set (sr_visited st). fle best (dist_of st n))
    | Some n \<Rightarrow>
        current = Some n \<and> (\<forall>m \<in> set ns - set (sr_visited st). fle best (dist_of st m)) \<or>
        n \<in> set ns \<and> n \<notin> set (sr_visited st) \<and> flt (dist_of st n) best \<and>
        (\<forall>m \<in> set ns - set (sr_visited st). fle (dist_of st n) (dist_of st m))"
  using assms(1)
proof (induction ns arbitrary: best current)
  case Nil
  then show ?case by (auto split: option.split)
next
  case (Cons n ns)
  let ?d = "dist_of st"
  show ?case
  proof (cases "n \<in> set (sr_visited st) \<or> fle best (?d n)")
    case True
    have step: "flt (?d m) best \<Longrightarrow> fle best (?d n) \<Longrightarrow> fle (?d m) (?d n)" for m
      using flt_imp_fle fle_trans by blast
    show ?thesis
      using Cons.IH [OF Cons.prems, of current] True step by (auto split: option.splits)
  next
    case False
    then have lt: "flt (?d n) best"
      using Cons.prems assms(2) by (simp add: flt_def)
    have upd: "flt (?d m) (?d n) \<Longrightarrow> flt (?d m) best" for m
      using lt flt_fle_trans flt_imp_fle by blast
    have "fle (?d m) (?d n)" if "flt (?d m) (?d n)" for m
      using that flt_imp_fle by blast
    then show ?thesis
      using Cons.IH [OF assms(2) [of n], of "Some n"] False lt upd assms(2)
      by (auto simp: fle_refl split: option.splits)
  qed
qed

text \<open>The scan of the code: from no candidate and an infinite label.\<close>

lemma pickNode_None:
  assumes "\<And>n. dist_of st n \<noteq> NaN" and "pickNode st ns PInf None = None"
    and "n \<in> set ns" and "n \<notin> set (sr_visited st)"
  shows "dist_of st n = PInf"
  using pickNode_spec [of PInf st None ns] assms by (auto simp: PInf_fle)

lemma pickNode_Some:
  assumes "\<And>n. dist_of st n \<noteq> NaN" and "pickNode st ns PInf None = Some n"
  shows "n \<in> set ns" and "n \<notin> set (sr_visited st)" and "dist_of st n \<noteq> PInf"
    and "m \<in> set ns \<Longrightarrow> m \<notin> set (sr_visited st) \<Longrightarrow> fle (dist_of st n) (dist_of st m)"
  using pickNode_spec [of PInf st None ns] assms by auto

section \<open>The invariant\<close>

text \<open>
  A node other than the source that has a finite label got it over its predecessor edge
  from a node visited earlier.
\<close>

definition reached_from :: "rounding \<Rightarrow> pce_graph \<Rightarrow> (pce_edge \<Rightarrow> f64) \<Rightarrow> search \<Rightarrow> NodeID set \<Rightarrow>
    NodeID \<Rightarrow> bool" where
  "reached_from r g w st V n \<longleftrightarrow>
     (\<exists>i e. mget (sr_prev st) n = Some i \<and> mget (pg_edges g) i = Some e \<and>
        i \<in> set (mget0 [] (pg_adj g) (pe_NodeFrom e)) \<and> pe_NodeTo e = n \<and>
        pe_NodeFrom e \<in> V \<and> dist_of st n = fadd r (dist_of st (pe_NodeFrom e)) (w e))"

text \<open>The set of nodes that were visited before a node, all of them if it is unvisited.\<close>

definition earlier :: "search \<Rightarrow> NodeID \<Rightarrow> NodeID set" where
  "earlier st n =
     (if n \<in> set (sr_visited st) then set (tl (dropWhile (\<lambda>m. m \<noteq> n) (sr_visited st)))
      else set (sr_visited st))"

definition labels_ok :: "rounding \<Rightarrow> search \<Rightarrow> bool" where
  "labels_ok r st \<longleftrightarrow>
     (\<forall>n. rounding_mode.representable r (dist_of st n) \<and> fnonneg (dist_of st n))"

definition search_inv :: "rounding \<Rightarrow> pce_graph \<Rightarrow> (pce_edge \<Rightarrow> f64) \<Rightarrow> NodeID \<Rightarrow> search \<Rightarrow> bool" where
  "search_inv r g w src st \<longleftrightarrow>
     labels_ok r st \<and> dist_of st src = Fin 0 \<and> distinct (sr_visited st) \<and>
     (\<forall>n. mget (sr_dist st) n = None \<longleftrightarrow> mget (pg_nodes g) n = None) \<and>
     (\<forall>n \<in> set (sr_visited st). mget (pg_nodes g) n \<noteq> None \<and> dist_of st n \<noteq> PInf) \<and>
     (\<forall>n. mget (pg_nodes g) n \<noteq> None \<longrightarrow> n \<noteq> src \<longrightarrow> dist_of st n \<noteq> PInf \<longrightarrow>
        reached_from r g w st (earlier st n) n) \<and>
     (\<forall>u \<in> set (sr_visited st). \<forall>v. mget (pg_nodes g) v \<noteq> None \<longrightarrow>
        v \<notin> set (sr_visited st) \<longrightarrow> fle (dist_of st u) (dist_of st v))"

lemma search_invD:
  assumes "search_inv r g w src st"
  shows "labels_ok r st" and "dist_of st src = Fin 0" and "distinct (sr_visited st)"
    and "mget (sr_dist st) n = None \<longleftrightarrow> mget (pg_nodes g) n = None"
    and "n \<in> set (sr_visited st) \<Longrightarrow> mget (pg_nodes g) n \<noteq> None"
    and "n \<in> set (sr_visited st) \<Longrightarrow> dist_of st n \<noteq> PInf"
    and "mget (pg_nodes g) n \<noteq> None \<Longrightarrow> n \<noteq> src \<Longrightarrow> dist_of st n \<noteq> PInf \<Longrightarrow>
        reached_from r g w st (earlier st n) n"
    and "n \<in> set (sr_visited st) \<Longrightarrow> mget (pg_nodes g) v \<noteq> None \<Longrightarrow>
        v \<notin> set (sr_visited st) \<Longrightarrow> fle (dist_of st n) (dist_of st v)"
  using assms unfolding search_inv_def by blast+

lemma search_inv_num: "search_inv r g w src st \<Longrightarrow> dist_of st n \<noteq> NaN"
  by (metis search_invD(1) labels_ok_def fnonneg_NaN)

text \<open>The edges that leave the visited nodes are relaxed.\<close>

definition relaxed_out :: "rounding \<Rightarrow> pce_graph \<Rightarrow> (pce_edge \<Rightarrow> f64) \<Rightarrow> search \<Rightarrow> NodeID set \<Rightarrow> bool" where
  "relaxed_out r g w st V \<longleftrightarrow>
     (\<forall>u \<in> V. \<forall>i e. i \<in> set (mget0 [] (pg_adj g) u) \<longrightarrow> mget (pg_edges g) i = Some e \<longrightarrow>
        fnonneg (w e) \<longrightarrow> fle (dist_of st (pe_NodeTo e)) (fadd r (dist_of st u) (w e)))"

section \<open>Relaxing one edge\<close>

text \<open>The state after the label of \<open>v\<close> became \<open>c\<close> over the edge \<open>i\<close>.\<close>

definition set_label :: "NodeID \<Rightarrow> f64 \<Rightarrow> pce_edge_id \<Rightarrow> search \<Rightarrow> search" where
  "set_label v c i st =
     st\<lparr>sr_dist := mput v c (sr_dist st), sr_prev := mput v i (sr_prev st)\<rparr>"

lemma set_label_simps [simp]:
  "dist_of (set_label v c i st) n = (if n = v then c else dist_of st n)"
  "mget (sr_prev (set_label v c i st)) n = (if n = v then Some i else mget (sr_prev st) n)"
  "mget (sr_dist (set_label v c i st)) n = (if n = v then Some c else mget (sr_dist st) n)"
  "sr_visited (set_label v c i st) = sr_visited st"
  "earlier (set_label v c i st) = earlier st"
  by (auto simp: set_label_def mget0_def earlier_def fun_eq_iff)

lemma earlier_visited: "earlier st n \<subseteq> set (sr_visited st)"
proof -
  have "set (tl (dropWhile P xs)) \<subseteq> set xs" for P and xs :: "NodeID list"
    by (metis set_dropWhileD set_mp subsetI list.set_sel(2) tl_Nil)
  then show ?thesis by (auto simp: earlier_def)
qed

lemma set_label_inv:
  assumes r: "rounding_mode r" and inv: "search_inv r g w src st" and wf: "pce_wf g"
    and u: "u \<in> set (sr_visited st)" "\<And>x. x \<in> set (sr_visited st) \<Longrightarrow> fle (dist_of st x) (dist_of st u)"
    and e: "mget (pg_edges g) i = Some e" "i \<in> set (mget0 [] (pg_adj g) u)" "pe_NodeTo e = v"
    and v: "v \<notin> set (sr_visited st)" and we: "fnonneg (w e)"
    and lt: "flt (fadd r (dist_of st u) (w e)) (dist_of st v)"
  shows "search_inv r g w src (set_label v (fadd r (dist_of st u) (w e)) i st)"
proof -
  let ?c = "fadd r (dist_of st u) (w e)"
  let ?st = "set_label v ?c i st"
  note D = search_invD [OF inv]
  have okd: "rounding_mode.representable r (dist_of st n)" "fnonneg (dist_of st n)" for n
    using D(1) by (auto simp: labels_ok_def)
  have c: "rounding_mode.representable r ?c" "fnonneg ?c" "fle (dist_of st u) ?c"
    using rounding_mode.representable_fadd [OF r] rounding_mode.fadd_nonneg [OF r okd(2) we]
      rounding_mode.fadd_extensive [OF r okd(1) okd(2) we] by auto
  have "v \<noteq> src"
  proof
    assume "v = src"
    with lt D(2) have "flt ?c (Fin 0)" by simp
    with c(2) show False by (cases ?c) auto
  qed
  have vn: "mget (pg_nodes g) v \<noteq> None"
  proof
    assume "mget (pg_nodes g) v = None"
    then have "dist_of st v = Fin 0"
      using D(4) [of v] by (simp add: mget0_def)
    with lt c(2) show False by (cases ?c) auto
  qed
  have eu: "pe_NodeFrom e = u"
    using pce_wfD(4) [OF wf e(2,1)] .
  have uv: "u \<noteq> v" using u(1) v by auto
  have reach: "reached_from r g w ?st (earlier st n) n"
    if n: "mget (pg_nodes g) n \<noteq> None" "n \<noteq> src" "dist_of ?st n \<noteq> PInf" for n
  proof (cases "n = v")
    case True
    then show ?thesis
      using e eu u(1) uv v by (auto simp: reached_from_def earlier_def)
  next
    case False
    then obtain j f where f: "mget (sr_prev st) n = Some j" "mget (pg_edges g) j = Some f"
      "j \<in> set (mget0 [] (pg_adj g) (pe_NodeFrom f))" "pe_NodeTo f = n"
      "pe_NodeFrom f \<in> earlier st n"
      "dist_of st n = fadd r (dist_of st (pe_NodeFrom f)) (w f)"
      using D(7) [OF n(1,2)] n(3) by (auto simp: reached_from_def)
    then have "pe_NodeFrom f \<noteq> v"
      using v earlier_visited by blast
    with f False show ?thesis by (auto simp: reached_from_def)
  qed
  have order: "fle (dist_of ?st x) (dist_of ?st y)"
    if "x \<in> set (sr_visited st)" "mget (pg_nodes g) y \<noteq> None" "y \<notin> set (sr_visited st)" for x y
    using that D(8) fle_trans [OF u(2) c(3)] v by auto
  show ?thesis
    unfolding search_inv_def
  proof (intro conjI)
    show "labels_ok r ?st"
      using okd c by (simp add: labels_ok_def)
    show "dist_of ?st src = Fin 0"
      using \<open>v \<noteq> src\<close> D(2) by simp
    show "distinct (sr_visited ?st)"
      using D(3) by simp
    show "\<forall>n. (mget (sr_dist ?st) n = None) = (mget (pg_nodes g) n = None)"
      using D(4) vn by simp
    show "\<forall>n\<in>set (sr_visited ?st). mget (pg_nodes g) n \<noteq> None \<and> dist_of ?st n \<noteq> PInf"
      using D(5,6) v by auto
  qed (use reach order in simp_all)
qed

section \<open>Relaxing the edges of a node\<close>

lemma relax_step:
  "relaxEdges r g w u (i # is) st =
     (case mget (pg_edges g) i of
        None \<Rightarrow> relaxEdges r g w u is st
      | Some e \<Rightarrow>
          if pe_NodeTo e \<in> set (sr_visited st) \<or>
             \<not> flt (fadd r (dist_of st u) (w e)) (dist_of st (pe_NodeTo e))
          then relaxEdges r g w u is st
          else relaxEdges r g w u is
                 (set_label (pe_NodeTo e) (fadd r (dist_of st u) (w e)) i st))"
  by (simp add: set_label_def Let_def split: option.split)

declare relaxEdges.simps(2) [simp del]

lemma relaxEdges_spec:
  assumes r: "rounding_mode r" and wf: "pce_wf g" and w: "weights_ok g w"
  shows "search_inv r g w src st \<Longrightarrow> u \<in> set (sr_visited st) \<Longrightarrow>
    (\<And>x. x \<in> set (sr_visited st) \<Longrightarrow> fle (dist_of st x) (dist_of st u)) \<Longrightarrow>
    set is \<subseteq> set (mget0 [] (pg_adj g) u) \<Longrightarrow>
    search_inv r g w src (relaxEdges r g w u is st) \<and>
    (\<forall>v. fle (dist_of (relaxEdges r g w u is st) v) (dist_of st v)) \<and>
    (\<forall>v \<in> set (sr_visited st). dist_of (relaxEdges r g w u is st) v = dist_of st v) \<and>
    (\<forall>i \<in> set is. \<forall>e. mget (pg_edges g) i = Some e \<longrightarrow> pe_NodeTo e \<notin> set (sr_visited st) \<longrightarrow>
       fnonneg (w e) \<longrightarrow>
       fle (dist_of (relaxEdges r g w u is st) (pe_NodeTo e)) (fadd r (dist_of st u) (w e)))"
proof (induction "is" arbitrary: st)
  case Nil
  then show ?case by (simp add: fle_refl search_inv_num)
next
  case (Cons i "is")
  note inv = Cons.prems(1) and u = Cons.prems(2,3)
  note num = search_inv_num [OF inv]
  have sub: "set is \<subseteq> set (mget0 [] (pg_adj g) u)" and i: "i \<in> set (mget0 [] (pg_adj g) u)"
    using Cons.prems(4) by auto
  show ?case
  proof (cases "mget (pg_edges g) i")
    case None
    then show ?thesis
      using Cons.IH [OF inv u sub] by (simp add: relax_step)
  next
    case (Some e)
    let ?v = "pe_NodeTo e" and ?c = "fadd r (dist_of st u) (w e)"
    show ?thesis
    proof (cases "?v \<in> set (sr_visited st) \<or> \<not> flt ?c (dist_of st ?v)")
      case True
      have IH: "fle (dist_of (relaxEdges r g w u is st) ?v) (dist_of st ?v)"
        using Cons.IH [OF inv u sub] by blast
      have "fle (dist_of (relaxEdges r g w u is st) ?v) ?c"
        if "fnonneg (w e)" "?v \<notin> set (sr_visited st)"
      proof -
        have "fnonneg ?c"
          using that rounding_mode.fadd_nonneg [OF r] search_invD(1) [OF inv]
          by (simp add: labels_ok_def)
        then have "fle (dist_of st ?v) ?c"
          using True that num by (auto simp: not_flt dest: fnonneg_NaN)
        then show ?thesis using IH fle_trans by blast
      qed
      then show ?thesis
        using Cons.IH [OF inv u sub] True Some by (auto simp: relax_step)
    next
      case False
      let ?st = "set_label ?v ?c i st"
      have "w e \<noteq> NaN"
        using False by auto
      then have we: "fnonneg (w e)"
        using w Some by (auto simp: weights_ok_def)
      have inv': "search_inv r g w src ?st"
        using set_label_inv [OF r inv wf u Some i refl _ we] False by blast
      have uv: "u \<noteq> ?v" using u(1) False by auto
      have vis: "fle (dist_of ?st x) (dist_of ?st u)" if "x \<in> set (sr_visited ?st)" for x
        using that u(2) False uv by auto
      have eq: "relaxEdges r g w u (i # is) st = relaxEdges r g w u is ?st"
        using Some False by (simp add: relax_step)
      have u': "u \<in> set (sr_visited ?st)"
        using u(1) by simp
      note IH = Cons.IH [OF inv' u' vis sub]
      have less: "fle (dist_of ?st v) (dist_of st v)" for v
        using False flt_imp_fle num fle_refl by auto
      show ?thesis
        unfolding eq
      proof (intro conjI allI ballI impI)
        show "search_inv r g w src (relaxEdges r g w u is ?st)"
          using IH by blast
        show "fle (dist_of (relaxEdges r g w u is ?st) v) (dist_of st v)" for v
          using IH less fle_trans by blast
        show "dist_of (relaxEdges r g w u is ?st) v = dist_of st v"
          if "v \<in> set (sr_visited st)" for v
          using IH that False by auto
        show "fle (dist_of (relaxEdges r g w u is ?st) (pe_NodeTo f)) (fadd r (dist_of st u) (w f))"
          if "j \<in> set (i # is)" "mget (pg_edges g) j = Some f"
            "pe_NodeTo f \<notin> set (sr_visited st)" "fnonneg (w f)" for j f
        proof (cases "j = i")
          case True
          then have "f = e" using that(2) Some by simp
          moreover have "fle (dist_of (relaxEdges r g w u is ?st) ?v) (dist_of ?st ?v)"
            using IH by blast
          ultimately show ?thesis by simp
        next
          case jn: False
          then show ?thesis using IH that uv by auto
        qed
      qed
    qed
  qed
qed

section \<open>Visiting a node\<close>

definition mark_visited :: "NodeID \<Rightarrow> search \<Rightarrow> search" where
  "mark_visited u st = st\<lparr>sr_visited := u # sr_visited st\<rparr>"

lemma mark_visited_simps [simp]:
  "sr_dist (mark_visited u st) = sr_dist st" "sr_prev (mark_visited u st) = sr_prev st"
  "sr_visited (mark_visited u st) = u # sr_visited st"
  by (simp_all add: mark_visited_def)

lemma earlier_mark_visited:
  "u \<notin> set (sr_visited st) \<Longrightarrow> earlier st n \<subseteq> earlier (mark_visited u st) n"
  by (auto simp: earlier_def)

lemma reached_from_mono:
  "reached_from r g w st V n \<Longrightarrow> V \<subseteq> V' \<Longrightarrow> reached_from r g w (mark_visited u st) V' n"
  unfolding reached_from_def by auto

lemma mark_visited_inv:
  assumes inv: "search_inv r g w src st"
    and u: "mget (pg_nodes g) u \<noteq> None" "u \<notin> set (sr_visited st)" "dist_of st u \<noteq> PInf"
    and min: "\<And>v. mget (pg_nodes g) v \<noteq> None \<Longrightarrow> v \<notin> set (sr_visited st) \<Longrightarrow>
        fle (dist_of st u) (dist_of st v)"
  shows "search_inv r g w src (mark_visited u st)"
proof -
  note D = search_invD [OF inv]
  show ?thesis
    unfolding search_inv_def
  proof (intro conjI)
    show "labels_ok r (mark_visited u st)"
      using D(1) by (simp add: labels_ok_def)
    show "\<forall>n. mget (pg_nodes g) n \<noteq> None \<longrightarrow> n \<noteq> src \<longrightarrow> dist_of (mark_visited u st) n \<noteq> PInf \<longrightarrow>
        reached_from r g w (mark_visited u st) (earlier (mark_visited u st) n) n"
      using reached_from_mono [OF D(7) earlier_mark_visited [OF u(2)]] by simp
    show "\<forall>x \<in> set (sr_visited (mark_visited u st)). \<forall>v. mget (pg_nodes g) v \<noteq> None \<longrightarrow>
        v \<notin> set (sr_visited (mark_visited u st)) \<longrightarrow>
        fle (dist_of (mark_visited u st) x) (dist_of (mark_visited u st) v)"
      using D(8) min by auto
    show "\<forall>n \<in> set (sr_visited (mark_visited u st)). mget (pg_nodes g) n \<noteq> None \<and>
        dist_of (mark_visited u st) n \<noteq> PInf"
      using D(5,6) u by auto
  qed (use D(2-4) u in simp_all)
qed

lemma visitNode_inv:
  assumes r: "rounding_mode r" and wf: "pce_wf g" and w: "weights_ok g w"
    and inv: "search_inv r g w src st" and rel: "relaxed_out r g w st (set (sr_visited st))"
    and u: "mget (pg_nodes g) u \<noteq> None" "u \<notin> set (sr_visited st)" "dist_of st u \<noteq> PInf"
    and min: "\<And>v. mget (pg_nodes g) v \<noteq> None \<Longrightarrow> v \<notin> set (sr_visited st) \<Longrightarrow>
        fle (dist_of st u) (dist_of st v)"
  shows "search_inv r g w src (visitNode r g w u st)"
    and "relaxed_out r g w (visitNode r g w u st) (set (sr_visited (visitNode r g w u st)))"
proof -
  let ?is = "sort_key pid_String (mget0 [] (pg_adj g) u)"
  let ?st = "mark_visited u st" and ?st' = "visitNode r g w u st"
  have eq: "?st' = relaxEdges r g w u ?is ?st"
    by (simp add: visitNode_def mark_visited_def)
  have vis: "fle (dist_of ?st x) (dist_of ?st u)" if "x \<in> set (sr_visited ?st)" for x
    using that search_invD(8) [OF inv _ u(1,2)] search_inv_num [OF inv] fle_refl by auto
  have spec: "search_inv r g w src ?st'" "\<And>v. fle (dist_of ?st' v) (dist_of st v)"
    "\<And>v. v \<in> set (u # sr_visited st) \<Longrightarrow> dist_of ?st' v = dist_of st v"
    "\<And>i e. i \<in> set (mget0 [] (pg_adj g) u) \<Longrightarrow> mget (pg_edges g) i = Some e \<Longrightarrow>
       pe_NodeTo e \<notin> set (u # sr_visited st) \<Longrightarrow> fnonneg (w e) \<Longrightarrow>
       fle (dist_of ?st' (pe_NodeTo e)) (fadd r (dist_of st u) (w e))"
    using relaxEdges_spec [OF r wf w mark_visited_inv [OF inv u min], of u ?is] vis
    unfolding eq by auto
  show "search_inv r g w src ?st'"
    by (rule spec(1))
  have ext: "fle (dist_of st u) (fadd r (dist_of st u) x)" if "fnonneg x" for x
    using rounding_mode.fadd_extensive [OF r _ _ that] search_invD(1) [OF inv]
    by (simp add: labels_ok_def)
  have "fle (dist_of ?st' (pe_NodeTo e)) (fadd r (dist_of ?st' x) (w e))"
    if x: "x \<in> set (u # sr_visited st)" and e: "i \<in> set (mget0 [] (pg_adj g) x)"
      "mget (pg_edges g) i = Some e" "fnonneg (w e)" for x i e
  proof (cases "x = u")
    case False
    then have "fle (dist_of st (pe_NodeTo e)) (fadd r (dist_of st x) (w e))"
      using x e rel unfolding relaxed_out_def by auto
    then show ?thesis
      unfolding spec(3) [OF x] by (rule fle_trans [OF spec(2)])
  next
    case True
    show ?thesis
    proof (cases "pe_NodeTo e \<in> set (u # sr_visited st)")
      case v: True
      then have "fle (dist_of st (pe_NodeTo e)) (dist_of st u)"
        using vis by simp
      then have "fle (dist_of st (pe_NodeTo e)) (fadd r (dist_of st u) (w e))"
        using ext [OF e(3)] by (rule fle_trans)
      then show ?thesis
        using spec(3) [OF v] spec(3) [of u] True by simp
    next
      case False
      then show ?thesis
        using spec(3) [of u] spec(4) True e by simp
    qed
  qed
  moreover have "sr_visited ?st' = u # sr_visited st"
    by (simp add: visitNode_def)
  ultimately show "relaxed_out r g w ?st' (set (sr_visited ?st'))"
    unfolding relaxed_out_def by simp
qed

section \<open>The loop\<close>

definition loop_inv :: "rounding \<Rightarrow> pce_graph \<Rightarrow> (pce_edge \<Rightarrow> f64) \<Rightarrow> NodeID \<Rightarrow> NodeID \<Rightarrow> search \<Rightarrow> bool" where
  "loop_inv r g w src dst st \<longleftrightarrow> search_inv r g w src st \<and>
     relaxed_out r g w st (set (sr_visited st)) \<and> dst \<notin> set (sr_visited st)"

lemma searchLoop_inv:
  assumes r: "rounding_mode r" and wf: "pce_wf g" and w: "weights_ok g w"
    and nodes: "set nodes = fst ` set (pg_nodes g)"
  shows "loop_inv r g w src dst st \<Longrightarrow>
    loop_inv r g w src dst (searchLoop r g w nodes dst st) \<and>
    (pickNode (searchLoop r g w nodes dst st) nodes PInf None = None \<or>
     pickNode (searchLoop r g w nodes dst st) nodes PInf None = Some dst)"
  using assms
proof (induction r g w nodes dst st rule: searchLoop.induct)
  case (1 r g w nodes dst st)
  have inv: "search_inv r g w src st" and rel: "relaxed_out r g w st (set (sr_visited st))"
    and dst: "dst \<notin> set (sr_visited st)"
    using "1.prems"(1) by (auto simp: loop_inv_def)
  have node: "n \<in> set nodes \<longleftrightarrow> mget (pg_nodes g) n \<noteq> None" for n
    using "1.prems"(5) by (simp add: mget_None_fst)
  show ?case
  proof (cases "pickNode st nodes PInf None")
    case None
    then show ?thesis
      using "1.prems"(1) by (simp add: searchLoop.simps [of r g w nodes dst st])
  next
    case (Some u)
    note pick = pickNode_Some [OF search_inv_num [OF inv] Some]
    show ?thesis
    proof (cases "u = dst")
      case True
      then show ?thesis
        using "1.prems"(1) Some by (simp add: searchLoop.simps [of r g w nodes dst st])
    next
      case False
      have u: "mget (pg_nodes g) u \<noteq> None"
        using pick(1) node by blast
      have min: "fle (dist_of st u) (dist_of st v)"
        if "mget (pg_nodes g) v \<noteq> None" "v \<notin> set (sr_visited st)" for v
        using pick(4) that node by blast
      have "sr_visited (visitNode r g w u st) = u # sr_visited st"
        by (simp add: visitNode_def)
      then have "loop_inv r g w src dst (visitNode r g w u st)"
        using visitNode_inv [OF "1.prems"(2-4) inv rel u pick(2,3) min] dst False
        by (simp add: loop_inv_def)
      then show ?thesis
        using "1.IH" [OF Some False _ "1.prems"(2-5)] Some False
        by (simp add: searchLoop.simps [of r g w nodes dst st])
    qed
  qed
qed

lemma startSearch_dist:
  "mget (sr_dist (startSearch nodes src)) n =
     (if n = src then Some (Fin 0) else if n \<in> set nodes then Some PInf else None)"
proof -
  have "mget (fold (\<lambda>n. mput n PInf) ns m) n = (if n \<in> set ns then Some PInf else mget m n)" for ns m
    by (induction ns arbitrary: m) auto
  then show ?thesis by (simp add: startSearch_def)
qed

lemma startSearch_inv:
  assumes r: "rounding_mode r" and src: "mget (pg_nodes g) src \<noteq> None"
    and nodes: "set nodes = fst ` set (pg_nodes g)"
  shows "loop_inv r g w src dst (startSearch nodes src)"
proof -
  let ?st = "startSearch nodes src"
  have node: "n \<in> set nodes \<longleftrightarrow> mget (pg_nodes g) n \<noteq> None" for n
    using nodes by (simp add: mget_None_fst)
  have d: "dist_of ?st n = (if n = src \<or> n \<notin> set nodes then Fin 0 else PInf)" for n
    by (simp add: mget0_def startSearch_dist)
  have "rounding_mode.representable r PInf" "rounding_mode.representable r (Fin 0)"
    using rounding_mode.representable_zero [OF r]
    by (simp_all add: rounding_mode.representable_def [OF r])
  then have "labels_ok r ?st"
    by (simp add: labels_ok_def d)
  then have "search_inv r g w src ?st"
    using src node unfolding search_inv_def
    by (auto simp: d startSearch_dist) (simp_all add: startSearch_def)
  then show ?thesis
    by (simp add: loop_inv_def relaxed_out_def startSearch_def)
qed

section \<open>No walk is cheaper\<close>

context rounding_mode
begin

lemma edge_walk_walk:
  assumes "weights_ok g w"
  shows "edge_walk g src is v \<Longrightarrow> walk_cost r g w is \<noteq> NaN \<Longrightarrow>
    route.walk (edge_rel g w) src v (walk_cost r g w is)"
proof (induction "is" arbitrary: v rule: rev_induct)
  case Nil
  then show ?case by (simp add: walk_cost_def route.walk_start)
next
  case (snoc i "is")
  then obtain e x where e: "mget (pg_edges g) i = Some e" "pe_NodeTo e = v"
      "mget (pg_nodes g) v \<noteq> None" "edge_walk g src is x" "i \<in> set (mget0 [] (pg_adj g) x)"
    by (auto simp: edge_walk_snoc)
  have cost: "walk_cost r g w (is @ [i]) = fadd r (walk_cost r g w is) (w e)"
    using e(1) by (simp add: walk_cost_snoc edge_weight_def)
  then have "walk_cost r g w is \<noteq> NaN" "w e \<noteq> NaN"
    using snoc.prems(2) by auto
  moreover have "fnonneg (w e)"
    using assms e(1) \<open>w e \<noteq> NaN\<close> by (auto simp: weights_ok_def)
  ultimately show ?case
    unfolding cost using snoc.IH e by (intro route.walk_step) (auto simp: edge_rel_def)
qed

lemma walk_cost_nonneg:
  "weights_ok g w \<Longrightarrow> edge_walk g src is v \<Longrightarrow> walk_cost r g w is \<noteq> NaN \<Longrightarrow>
   fnonneg (walk_cost r g w is)"
  using route.walk_ok [OF edge_walk_walk] by blast

lemma label_lower_bound:
  assumes w: "weights_ok g w" and inv: "loop_inv r g w src dst st"
    and src: "mget (pg_nodes g) src \<noteq> None"
    and bound: "\<And>n. mget (pg_nodes g) n \<noteq> None \<Longrightarrow> n \<notin> set (sr_visited st) \<Longrightarrow>
        fle (dist_of st dst) (dist_of st n)"
    and walk: "edge_walk g src is dst" and cost: "walk_cost r g w is \<noteq> NaN"
  shows "fle (dist_of st dst) (walk_cost r g w is)"
proof -
  have D: "search_inv r g w src st" "relaxed_out r g w st (set (sr_visited st))"
    using inv by (auto simp: loop_inv_def)
  have "fle (dist_of st dst) (walk_cost r g w is) \<or> fle (dist_of st dst) (walk_cost r g w is)"
    using route.label_or_bound [OF edge_walk_walk [OF w walk cost], of "dist_of st"
        "{n. mget (pg_nodes g) n \<noteq> None}" "set (sr_visited st)" "dist_of st dst"]
      D search_invD(1,2) [OF D(1)] src bound
    by (auto simp: edge_rel_def relaxed_out_def labels_ok_def)
  then show ?thesis by blast
qed

end

section \<open>The reconstruction\<close>

definition edge_to :: "pce_graph \<Rightarrow> pce_edge_id \<Rightarrow> NodeID" where
  "edge_to g i = (case mget (pg_edges g) i of None \<Rightarrow> [] | Some e \<Rightarrow> pe_NodeTo e)"

definition edge_links :: "pce_graph \<Rightarrow> pce_edge_id \<Rightarrow> EdgeID list" where
  "edge_links g i = (case mget (pg_edges g) i of None \<Rightarrow> [] | Some e \<Rightarrow> Links e)"

lemma tl_dropWhile_props:
  assumes "distinct xs" and "n \<in> set xs"
  shows "n \<notin> set (tl (dropWhile (\<lambda>m. m \<noteq> n) xs))"
    and "m \<in> set (tl (dropWhile (\<lambda>m. m \<noteq> n) xs)) \<Longrightarrow>
      set (tl (dropWhile (\<lambda>k. k \<noteq> m) xs)) \<subset> set (tl (dropWhile (\<lambda>m. m \<noteq> n) xs))"
proof -
  obtain ys zs where xs: "xs = ys @ n # zs" "n \<notin> set ys"
    using assms(2) by (metis split_list_first)
  have tl: "tl (dropWhile (\<lambda>m. m \<noteq> n) xs) = zs"
    using xs by (simp add: dropWhile_append)
  show "n \<notin> set (tl (dropWhile (\<lambda>m. m \<noteq> n) xs))"
    using xs assms(1) tl by simp
  assume "m \<in> set (tl (dropWhile (\<lambda>m. m \<noteq> n) xs))"
  then obtain as bs where zs: "zs = as @ m # bs" "m \<notin> set as"
    using tl by (metis split_list_first)
  have "xs = (ys @ n # as) @ m # bs" "m \<notin> set (ys @ n # as)"
    using xs zs assms(1) by auto
  then have "tl (dropWhile (\<lambda>k. k \<noteq> m) xs) = bs"
    by (auto simp: dropWhile_append)
  moreover have "m \<notin> set bs"
    using zs xs assms(1) by auto
  ultimately show "set (tl (dropWhile (\<lambda>k. k \<noteq> m) xs)) \<subset> set (tl (dropWhile (\<lambda>m. m \<noteq> n) xs))"
    using tl zs by auto
qed

lemma earlier_props:
  assumes "distinct (sr_visited st)"
  shows "n \<notin> earlier st n" and "m \<in> earlier st n \<Longrightarrow> earlier st m \<subset> earlier st n"
proof -
  show nn: "n \<notin> earlier st n" for n
    using tl_dropWhile_props(1) [OF assms] by (simp add: earlier_def)
  assume m: "m \<in> earlier st n"
  then have mv: "m \<in> set (sr_visited st)"
    using earlier_visited by blast
  show "earlier st m \<subset> earlier st n"
  proof (cases "n \<in> set (sr_visited st)")
    case True
    then show ?thesis
      using tl_dropWhile_props(2) [OF assms True] m mv by (simp add: earlier_def)
  next
    case False
    then show ?thesis
      using earlier_visited [of st m] nn [of m] mv by (auto simp: earlier_def)
  qed
qed

lemma reconstructLoop_spec:
  assumes inv: "search_inv r g w src st"
  shows "mget (pg_nodes g) n \<noteq> None \<Longrightarrow> dist_of st n \<noteq> PInf \<Longrightarrow>
    \<exists>ns es. reconstructLoop g src (sr_prev st) n acc =
        Some (Inr (fst acc @ ns, fst (snd acc) @ es, snd (snd acc) @ concat (map (edge_links g) es))) \<and>
      edge_walk g src (rev es) n \<and> walk_cost r g w (rev es) = dist_of st n \<and>
      distinct ns \<and> set ns \<subseteq> earlier st n \<and> rev ns @ [n] = src # map (edge_to g) (rev es)"
proof (induction "card (earlier st n)" arbitrary: n acc rule: less_induct)
  case less
  note D = search_invD [OF inv]
  show ?case
  proof (cases "n = src")
    case True
    then show ?thesis
      using D(2)
      by (subst reconstructLoop.simps, intro exI [of _ "[]"]) (simp add: walk_cost_def)
  next
    case False
    then obtain i e where e: "mget (sr_prev st) n = Some i" "mget (pg_edges g) i = Some e"
      "i \<in> set (mget0 [] (pg_adj g) (pe_NodeFrom e))" "pe_NodeTo e = n"
      "pe_NodeFrom e \<in> earlier st n"
      "dist_of st n = fadd r (dist_of st (pe_NodeFrom e)) (w e)"
      using D(7) [OF less.prems(1) False less.prems(2)] by (auto simp: reached_from_def)
    let ?m = "pe_NodeFrom e"
    have mv: "?m \<in> set (sr_visited st)"
      using e(5) earlier_visited by blast
    have sub: "earlier st ?m \<subset> earlier st n"
      using earlier_props(2) [OF D(3) e(5)] .
    then have "card (earlier st ?m) < card (earlier st n)"
      by (intro psubset_card_mono) (simp add: earlier_def)
    then obtain ns es where IH: "reconstructLoop g src (sr_prev st) ?m
        (fst acc @ [?m], fst (snd acc) @ [i], snd (snd acc) @ Links e) =
        Some (Inr ((fst acc @ [?m]) @ ns, (fst (snd acc) @ [i]) @ es,
          (snd (snd acc) @ Links e) @ concat (map (edge_links g) es)))"
      "edge_walk g src (rev es) ?m" "walk_cost r g w (rev es) = dist_of st ?m"
      "distinct ns" "set ns \<subseteq> earlier st ?m" "rev ns @ [?m] = src # map (edge_to g) (rev es)"
      using less.hyps [OF _ D(5) [OF mv] D(6) [OF mv],
          of "(fst acc @ [?m], fst (snd acc) @ [i], snd (snd acc) @ Links e)"] by auto
    have step: "reconstructLoop g src (sr_prev st) n acc =
        reconstructLoop g src (sr_prev st) ?m
          (fst acc @ [?m], fst (snd acc) @ [i], snd (snd acc) @ Links e)"
      using False e by (subst reconstructLoop.simps) simp
    show ?thesis
    proof (intro exI conjI)
      show "reconstructLoop g src (sr_prev st) n acc =
          Some (Inr (fst acc @ ?m # ns, fst (snd acc) @ i # es,
            snd (snd acc) @ concat (map (edge_links g) (i # es))))"
        using step IH(1) e(2) by (simp add: edge_links_def)
      show "edge_walk g src (rev (i # es)) n"
        using IH(2) e less.prems(1) by (auto simp: edge_walk_snoc)
      show "walk_cost r g w (rev (i # es)) = dist_of st n"
        using IH(3) e by (simp add: walk_cost_snoc edge_weight_def)
      show "distinct (?m # ns)"
        using IH(4,5) earlier_props(1) [OF D(3)] by auto
      show "set (?m # ns) \<subseteq> earlier st n"
        using IH(5) sub e(5) by auto
      show "rev (?m # ns) @ [n] = src # map (edge_to g) (rev (i # es))"
        using IH(6) e by (simp add: edge_to_def)
    qed
  qed
qed

section \<open>The whole computation\<close>

definition weight_of :: "objective \<Rightarrow> (cost_key, cost) gomap \<Rightarrow> pce_edge \<Rightarrow> f64" where
  "weight_of obj costs e = obj e (pce_edge_Cost costs e)"

definition valid_path :: "rounding \<Rightarrow> pce_graph \<Rightarrow> (pce_edge \<Rightarrow> f64) \<Rightarrow> NodeID \<Rightarrow> NodeID \<Rightarrow> path \<Rightarrow> bool" where
  "valid_path r g w src dst p \<longleftrightarrow>
     edge_walk g src (p_Edges p) dst \<and> p_Nodes p = src # map (edge_to g) (p_Edges p) \<and>
     distinct (p_Nodes p) \<and>
     p_Links p = rev (concat (map (edge_links g) (rev (p_Edges p)))) \<and>
     p_Cost p = walk_cost r g w (p_Edges p) \<and> fnonneg (p_Cost p) \<and> p_Cost p \<noteq> PInf \<and>
     p_Label p = 0"

lemma search_result:
  assumes r: "rounding_mode r" and wf: "pce_wf g" and w: "weights_ok g w"
    and src: "mget (pg_nodes g) src \<noteq> None" and dst: "mget (pg_nodes g) dst \<noteq> None"
    and nodes: "set nodes = fst ` set (pg_nodes g)"
    and st: "st = searchLoop r g w nodes dst (startSearch nodes src)"
  shows "search_inv r g w src st"
    and "edge_walk g src is dst \<Longrightarrow> walk_cost r g w is \<noteq> NaN \<Longrightarrow>
      fle (dist_of st dst) (walk_cost r g w is)"
proof -
  have inv: "loop_inv r g w src dst st"
    and pick: "pickNode st nodes PInf None = None \<or> pickNode st nodes PInf None = Some dst"
    using searchLoop_inv [OF r wf w nodes startSearch_inv [OF r src nodes]] st by auto
  then show s: "search_inv r g w src st"
    by (simp add: loop_inv_def)
  have node: "n \<in> set nodes \<longleftrightarrow> mget (pg_nodes g) n \<noteq> None" for n
    using nodes by (simp add: mget_None_fst)
  note num = search_inv_num [OF s]
  have bound: "fle (dist_of st dst) (dist_of st n)"
    if n: "mget (pg_nodes g) n \<noteq> None" "n \<notin> set (sr_visited st)" for n
  proof (cases "pickNode st nodes PInf None")
    case None
    then have "dist_of st n = PInf"
      using pickNode_None [OF num None] n node by blast
    then show ?thesis using num by simp
  next
    case (Some u)
    then have "pickNode st nodes PInf None = Some dst" using pick by simp
    from pickNode_Some(4) [OF num this] show ?thesis using n node by blast
  qed
  assume "edge_walk g src is dst" "walk_cost r g w is \<noteq> NaN"
  then show "fle (dist_of st dst) (walk_cost r g w is)"
    using rounding_mode.label_lower_bound [OF r w inv src bound] by blast
qed

lemma reconstruct_spec:
  assumes inv: "search_inv r g w src st" and dst: "mget (pg_nodes g) dst \<noteq> None"
    and fin: "dist_of st dst \<noteq> PInf"
  shows "\<exists>p. reconstruct g src dst (sr_prev st) = Some (Inr p) \<and>
    valid_path r g w src dst (p\<lparr>p_Cost := dist_of st dst\<rparr>)"
proof -
  obtain ns es where *: "reconstructLoop g src (sr_prev st) dst ([dst], [], []) =
        Some (Inr ([dst] @ ns, es, concat (map (edge_links g) es)))"
      "edge_walk g src (rev es) dst" "walk_cost r g w (rev es) = dist_of st dst"
      "distinct ns" "set ns \<subseteq> earlier st dst" "rev ns @ [dst] = src # map (edge_to g) (rev es)"
    using reconstructLoop_spec [OF inv dst fin, of "([dst], [], [])"] by auto
  have "dst \<notin> set ns"
    using *(5) earlier_props(1) [OF search_invD(3) [OF inv]] by blast
  then have "distinct (src # map (edge_to g) (rev es))"
    using *(4) unfolding *(6) [symmetric] by simp
  then show ?thesis
    using * fin search_invD(1) [OF inv] by (auto simp: reconstruct_def valid_path_def labels_ok_def)
qed

lemma computePath_cases:
  assumes r: "rounding_mode r" and wf: "pce_wf g" and w: "weights_ok g (weight_of obj costs)"
    and src: "mget (pg_nodes g) src \<noteq> None" and dst: "mget (pg_nodes g) dst \<noteq> None"
  shows "(\<exists>p. computePath r (Some g) costs src dst (Some obj) = Some (Inr p) \<and>
      valid_path r g (weight_of obj costs) src dst p \<and>
      (\<forall>is. edge_walk g src is dst \<longrightarrow> walk_cost r g (weight_of obj costs) is \<noteq> NaN \<longrightarrow>
         fle (p_Cost p) (walk_cost r g (weight_of obj costs) is))) \<or>
    computePath r (Some g) costs src dst (Some obj) = Some (Inl (ErrNoPath src dst)) \<and>
      (\<forall>is. edge_walk g src is dst \<longrightarrow> walk_cost r g (weight_of obj costs) is \<in> {NaN, PInf})"
proof (cases "src = dst")
  case True
  let ?w = "weight_of obj costs"
  have "fle (Fin 0) (walk_cost r g ?w is)" if "edge_walk g src is dst" "walk_cost r g ?w is \<noteq> NaN" for "is"
    using rounding_mode.walk_cost_nonneg [OF r w that] by (simp add: fnonneg_def)
  then show ?thesis
    using True src by (simp add: computePath_def valid_path_def walk_cost_def)
next
  case False
  let ?w = "weight_of obj costs" and ?nodes = "sort (map fst (pg_nodes g))"
  define st where "st = searchLoop r g ?w ?nodes dst (startSearch ?nodes src)"
  have nodes: "set ?nodes = fst ` set (pg_nodes g)" by simp
  note R = search_result [OF r wf w src dst nodes st_def]
  have wf': "(\<lambda>e. obj e (pce_edge_Cost costs e)) = ?w"
    by (simp add: fun_eq_iff weight_of_def)
  have eq: "computePath r (Some g) costs src dst (Some obj) =
     (if dist_of st dst = PInf then Some (Inl (ErrNoPath src dst))
      else map_option (\<lambda>res. bind_result res (\<lambda>p. Inr (p\<lparr>p_Cost := dist_of st dst\<rparr>)))
             (reconstruct g src dst (sr_prev st)))"
    using src dst False unfolding computePath_def st_def Let_def
    by (simp only: option.case if_False simp_thms wf')
  show ?thesis
  proof (cases "dist_of st dst = PInf")
    case True
    then show ?thesis using eq R(2) by (auto simp: PInf_fle)
  next
    case fin: False
    then show ?thesis
      using reconstruct_spec [OF R(1) dst fin] eq R(2) by auto
  qed
qed

section \<open>The objectives\<close>

definition cost_safe :: "cost \<Rightarrow> bool" where
  "cost_safe cs \<longleftrightarrow> (\<forall>(d, v) \<in> set cs. fsafe v)"

definition costs_safe :: "(cost_key, cost) gomap \<Rightarrow> bool" where
  "costs_safe costs \<longleftrightarrow> (\<forall>(k, cs) \<in> set costs. cost_safe cs)"

lemma set_mput: "set (mput k v m) \<subseteq> insert (k, v) (set m)"
  by (simp add: mput_def) (induction m; auto)

lemma cost_safe_mput: "cost_safe cs \<Longrightarrow> fsafe v \<Longrightarrow> cost_safe (mput d v cs)"
  using set_mput [of d v cs] by (fastforce simp: cost_safe_def)

lemma cost_safe_get: "cost_safe cs \<Longrightarrow> fsafe (mget0 (Fin 0) cs d)"
  by (auto simp: cost_safe_def mget0_def split: option.split dest!: mget_in_set)

lemma costs_safe_mput: "costs_safe costs \<Longrightarrow> cost_safe cs \<Longrightarrow> costs_safe (mput k cs costs)"
  using set_mput [of k cs costs] by (fastforce simp: costs_safe_def)

lemma costs_safe_get: "costs_safe costs \<Longrightarrow> mget costs k = Some cs \<Longrightarrow> cost_safe cs"
  by (auto simp: costs_safe_def dest!: mget_in_set)

lemma mergeWorst_safe: "cost_safe cs \<Longrightarrow> cost_safe worst \<Longrightarrow> cost_safe (mergeWorst cs worst)"
  by (induction cs worst rule: mergeWorst.induct)
    (auto simp: cost_safe_mput cost_safe_def [of "_ # _"] cost_safe_def [symmetric] split: option.splits)

lemma pce_edge_Cost_safe:
  assumes "costs_safe costs" and "pce_edge_Cost costs e = Some cs"
  shows "cost_safe cs"
proof -
  have "pred_option cost_safe worst \<Longrightarrow> pred_option cost_safe (worstCost costs es worst)" for es worst
    using assms(1)
    by (induction costs es worst rule: worstCost.induct)
      (auto simp: mergeWorst_safe costs_safe_get split: option.splits)
  from this [of None "pe_RealEdges e"] assms(2) show ?thesis by (simp add: pce_edge_Cost_def)
qed

text \<open>A weighted sum of costs that are not negative is an admissible weight.\<close>

lemma WeightedCost_ok:
  assumes r: "rounding_mode r" and w: "\<And>d. fsafe (mget0 (Fin 0) weights d)"
    and c: "costs_safe costs"
  shows "weights_ok g (weight_of (WeightedCost r weights) costs)"
proof -
  have "fsafe (weight_of (WeightedCost r weights) costs e)" for e
  proof (cases "pce_edge_Cost costs e")
    case None
    then show ?thesis by (simp add: weight_of_def WeightedCost_def)
  next
    case (Some cs)
    have "fsafe (fmul r (mget0 (Fin 0) weights d) (mget0 (Fin 0) cs d))" for d
      by (intro rounding_mode.fsafe_fmul [OF r] w cost_safe_get pce_edge_Cost_safe [OF c Some])
    then show ?thesis
      unfolding weight_of_def WeightedCost_def Some option.case costEdgeEpsilon_def
      by (intro rounding_mode.fsafe_fadd [OF r] rounding_mode.fsafe_foldl [OF r]) simp_all
  qed
  then show ?thesis by (simp add: weights_ok_def fsafe_def)
qed

section \<open>Properties\<close>

text \<open>The three-node topology, every link with latency cost 1.\<close>

definition demo_pce :: pce_graph where
  "demo_pce = NewPCEGraph demo_graph"

definition demo_costs :: "(cost_key, cost) gomap" where
  "demo_costs = map (\<lambda>(_, e). (CostKey e, [(COSTDIM_LATENCY, Fin 1)])) (gr_edges demo_graph)"

definition demo_weights :: "(CostDimension, f64) gomap" where
  "demo_weights = [(COSTDIM_LATENCY, Fin 2)]"

lemma demo_pce_wf: "pce_wf demo_pce"
  by (simp add: demo_pce_def NewPCEGraph_wf)

lemma demo_weights_ok: "weights_ok demo_pce (weight_of (WeightedCost Fin demo_weights) demo_costs)"
  by (rule WeightedCost_ok [OF exact.rounding_mode_axioms])
    (simp_all add: demo_weights_def demo_costs_def costs_safe_def cost_safe_def split_beta
      mget0_def mget_Cons mget_def)

text \<open>C1. A path that \<^verbatim>\<open>computePath\<close> returns leads from the source to the destination over
  edges of the graph without visiting a node twice, lists the nodes and links of these edges,
  has as its cost the sum of their weights, and no walk to the destination whose cost is a
  number is cheaper; under any rounding of the additions.\<close>

theorem computePath_optimal:
  assumes "rounding_mode r" and "pce_wf g" and "weights_ok g (weight_of obj costs)"
    and "computePath r (Some g) costs src dst (Some obj) = Some (Inr p)"
  shows "valid_path r g (weight_of obj costs) src dst p \<and>
    (\<forall>is. edge_walk g src is dst \<longrightarrow> walk_cost r g (weight_of obj costs) is \<noteq> NaN \<longrightarrow>
       fle (p_Cost p) (walk_cost r g (weight_of obj costs) is))"
proof -
  have "mget (pg_nodes g) src \<noteq> None" "mget (pg_nodes g) dst \<noteq> None"
    using assms(4) by (auto simp: computePath_def split: if_splits)
  from computePath_cases [OF assms(1-3) this] assms(4) show ?thesis by auto
qed

theorem computePath_optimal_witness:
  "\<exists>p. computePath Fin (Some demo_pce) demo_costs ''a'' ''c'' (Some (WeightedCost Fin demo_weights)) =
      Some (Inr p) \<and> p_Nodes p = [''a'', ''c''] \<and> p_Cost p = Fin 3 \<and>
    valid_path Fin demo_pce (weight_of (WeightedCost Fin demo_weights) demo_costs) ''a'' ''c'' p"
proof -
  let ?c = "computePath Fin (Some demo_pce) demo_costs ''a'' ''c'' (Some (WeightedCost Fin demo_weights))"
  have "map_option (map_sum id (\<lambda>p. (p_Nodes p, p_Cost p))) ?c = Some (Inr ([''a'', ''c''], Fin 3))"
    by code_simp
  then obtain p where p: "?c = Some (Inr p)" "p_Nodes p = [''a'', ''c'']" "p_Cost p = Fin 3"
    by (cases ?c; cases "the ?c") auto
  then show ?thesis
    using computePath_optimal [OF exact.rounding_mode_axioms demo_pce_wf demo_weights_ok p(1)]
    by blast
qed

text \<open>C2. Between two nodes of the graph \<^verbatim>\<open>computePath\<close> always returns, and it reports that
  there is no path exactly when the cost of every walk to the destination is infinite or not
  a number; no other error occurs.\<close>

theorem computePath_complete:
  assumes "rounding_mode r" and "pce_wf g" and "weights_ok g (weight_of obj costs)"
    and "mget (pg_nodes g) src \<noteq> None" and "mget (pg_nodes g) dst \<noteq> None"
  shows "\<exists>res. computePath r (Some g) costs src dst (Some obj) = Some res \<and>
    (res = Inl (ErrNoPath src dst) \<longleftrightarrow>
       (\<forall>is. edge_walk g src is dst \<longrightarrow> walk_cost r g (weight_of obj costs) is \<in> {NaN, PInf})) \<and>
    (\<forall>err. res = Inl err \<longrightarrow> err = ErrNoPath src dst)"
proof -
  consider (path) p where "computePath r (Some g) costs src dst (Some obj) = Some (Inr p)"
      "valid_path r g (weight_of obj costs) src dst p"
      "\<forall>is. edge_walk g src is dst \<longrightarrow> walk_cost r g (weight_of obj costs) is \<noteq> NaN \<longrightarrow>
         fle (p_Cost p) (walk_cost r g (weight_of obj costs) is)"
    | (none) "computePath r (Some g) costs src dst (Some obj) = Some (Inl (ErrNoPath src dst))"
      "\<forall>is. edge_walk g src is dst \<longrightarrow> walk_cost r g (weight_of obj costs) is \<in> {NaN, PInf}"
    using computePath_cases [OF assms] by blast
  then show ?thesis
  proof cases
    case path
    then have "walk_cost r g (weight_of obj costs) (p_Edges p) \<notin> {NaN, PInf}"
      "edge_walk g src (p_Edges p) dst"
      by (auto simp: valid_path_def)
    then show ?thesis
      using path(1) by auto
  qed auto
qed

theorem computePath_complete_witness:
  "\<exists>res. computePath Fin (Some demo_pce) demo_costs ''b'' ''a'' (Some (WeightedCost Fin demo_weights)) =
      Some res \<and> (\<forall>err. res = Inl err \<longrightarrow> err = ErrNoPath ''b'' ''a'')"
proof -
  have "mget (pg_nodes demo_pce) ''b'' \<noteq> None" "mget (pg_nodes demo_pce) ''a'' \<noteq> None"
    by code_simp+
  from computePath_complete [OF exact.rounding_mode_axioms demo_pce_wf demo_weights_ok this]
  show ?thesis by blast
qed

end
