(* ===== verification/Reservation.thy ===== *)
theory Reservation
  imports Cspf_Correct
begin

text \<open>
  Bandwidth reservations (\<^verbatim>\<open>services/control-plane/bandwidth_reservation.go\<close>): per logical
  edge the bookings of the tenants, the load they amount to in the hose model (per traffic
  label the smaller of what the sources may send and what the sinks may take), the admission
  check against 95 percent of the capacity, the move of a reservation from one path to
  another, and the graph that is left after removing the edges that cannot carry a candidate.
\<close>

section \<open>Data\<close>

record res_key =
  rk_SourcePop :: NodeID
  rk_SinkPop :: NodeID
  rk_Label :: "64 word"

record reservation =
  rv_Key :: res_key
  rv_SourceBandwidth :: f64
  rv_SinkBandwidth :: f64

record tenant_entry =
  te_Tenant :: TenantID
  te_Reservations :: "(res_key, reservation) gomap"

record res_edge =
  rg_ForEdge :: pce_edge
  rg_Bookings :: "(TenantID, tenant_entry) gomap"

type_synonym registry = "(pce_edge_id, res_edge) gomap"

section \<open>Load\<close>

record hose_sums =
  sm_sources :: "(64 word, f64) gomap"
  sm_sinks :: "(64 word, f64) gomap"
  sm_seenSources :: "(NodeID \<times> 64 word) list"
  sm_seenSinks :: "(NodeID \<times> 64 word) list"

definition addSource :: "rounding \<Rightarrow> reservation \<Rightarrow> hose_sums \<Rightarrow> hose_sums" where
  "addSource r v s =
     (let k = rv_Key v; src = (rk_SourcePop k, rk_Label k)
      in if src \<in> set (sm_seenSources s) then s
         else s\<lparr>sm_seenSources := src # sm_seenSources s,
                sm_sources := mput (rk_Label k)
                  (fadd r (mget0 (Fin 0) (sm_sources s) (rk_Label k)) (rv_SourceBandwidth v))
                  (sm_sources s)\<rparr>)"

definition addSink :: "rounding \<Rightarrow> reservation \<Rightarrow> hose_sums \<Rightarrow> hose_sums" where
  "addSink r v s =
     (let k = rv_Key v; snk = (rk_SinkPop k, rk_Label k)
      in if snk \<in> set (sm_seenSinks s) then s
         else s\<lparr>sm_seenSinks := snk # sm_seenSinks s,
                sm_sinks := mput (rk_Label k)
                  (fadd r (mget0 (Fin 0) (sm_sinks s) (rk_Label k)) (rv_SinkBandwidth v))
                  (sm_sinks s)\<rparr>)"

definition getBandwidthSums :: "rounding \<Rightarrow> tenant_entry \<Rightarrow> hose_sums" where
  "getBandwidthSums r e =
     fold (\<lambda>(_, v) s. addSink r v (addSource r v s)) (te_Reservations e)
       \<lparr>sm_sources = [], sm_sinks = [], sm_seenSources = [], sm_seenSinks = []\<rparr>"

definition CalculateReservedBandwidth :: "rounding \<Rightarrow> tenant_entry \<Rightarrow> f64" where
  "CalculateReservedBandwidth r e =
     (let s = getBandwidthSums r e
      in foldl (\<lambda>total l. fadd r total
             (fmin (mget0 (Fin 0) (sm_sources s) l) (mget0 (Fin 0) (sm_sinks s) l)))
           (Fin 0) (map fst (sm_sources s)))"

definition loadAndCapacity :: "rounding \<Rightarrow> res_edge \<Rightarrow> f64" where
  "loadAndCapacity r b =
     foldl (\<lambda>load (_, booking). fadd r load (CalculateReservedBandwidth r booking)) (Fin 0)
       (rg_Bookings b)"

text \<open>
  The body of the loop of \<^verbatim>\<open>loadExcluding\<close>: the load of the other tenants and the
  reservations of this tenant under other keys.
\<close>

fun excludeLoop :: "rounding \<Rightarrow> TenantID \<Rightarrow> res_key \<Rightarrow> (TenantID \<times> tenant_entry) list \<Rightarrow> f64 \<Rightarrow>
    (res_key, reservation) gomap \<Rightarrow> f64 \<times> (res_key, reservation) gomap" where
  "excludeLoop r t key [] load rest = (load, rest)"
| "excludeLoop r t key ((tid, entry) # bs) load rest =
     (if tid \<noteq> t then
        excludeLoop r t key bs (fadd r load (CalculateReservedBandwidth r entry)) rest
      else
        excludeLoop r t key bs load
          (fold (\<lambda>(k, v) m. if k \<noteq> key then mput k v m else m) (te_Reservations entry) rest))"

definition loadExcluding :: "rounding \<Rightarrow> res_edge option \<Rightarrow> TenantID \<Rightarrow> res_key \<Rightarrow> reservation option \<Rightarrow>
    f64" where
  "loadExcluding r b t key cand =
     (let rest0 = (case cand of None \<Rightarrow> [] | Some v \<Rightarrow> mput key v [])
      in case b of
           None \<Rightarrow> CalculateReservedBandwidth r \<lparr>te_Tenant = t, te_Reservations = rest0\<rparr>
         | Some e \<Rightarrow>
             (let (load, rest) = excludeLoop r t key (rg_Bookings e) (Fin 0) rest0
              in fadd r load
                   (CalculateReservedBandwidth r \<lparr>te_Tenant = t, te_Reservations = rest\<rparr>)))"

definition ReservedMap :: "rounding \<Rightarrow> registry \<Rightarrow> (pce_edge_id, f64) gomap" where
  "ReservedMap r reg = map (\<lambda>(i, e). (i, loadAndCapacity r e)) reg"

definition ReservedMapExcluding :: "rounding \<Rightarrow> TenantID \<Rightarrow> res_key \<Rightarrow> registry \<Rightarrow>
    (pce_edge_id, f64) gomap" where
  "ReservedMapExcluding r t key reg = map (\<lambda>(i, e). (i, loadExcluding r (Some e) t key None)) reg"

section \<open>Admission\<close>

definition checkCapacity :: "rounding \<Rightarrow> registry \<Rightarrow> pce_edge \<Rightarrow> TenantID \<Rightarrow> reservation \<Rightarrow> bool" where
  "checkCapacity r reg edge t candidate =
     fle (loadExcluding r (mget reg (pe_ID edge)) t (rv_Key candidate) (Some candidate))
       (fmul r (Capacity r edge) (r (19 / 20)))"

text \<open>Releasing the reservation of a key on one edge, and booking it on one edge.\<close>

definition releaseOn :: "TenantID \<Rightarrow> res_key \<Rightarrow> pce_edge_id \<Rightarrow> registry \<Rightarrow> registry" where
  "releaseOn t key i reg =
     (case mget reg i of
        None \<Rightarrow> reg
      | Some e \<Rightarrow>
          (let bookings =
             (case mget (rg_Bookings e) t of
                None \<Rightarrow> rg_Bookings e
              | Some entry \<Rightarrow>
                  (let rest = mdel key (te_Reservations entry)
                   in if rest = [] then mdel t (rg_Bookings e)
                      else mput t (entry\<lparr>te_Reservations := rest\<rparr>) (rg_Bookings e)))
           in if bookings = [] then mdel i reg
              else mput i (e\<lparr>rg_Bookings := bookings\<rparr>) reg))"

definition bookOn :: "TenantID \<Rightarrow> reservation \<Rightarrow> pce_edge \<Rightarrow> registry \<Rightarrow> registry" where
  "bookOn t candidate edge reg =
     (let e = (case mget reg (pe_ID edge) of
                 None \<Rightarrow> \<lparr>rg_ForEdge = edge, rg_Bookings = []\<rparr> | Some e \<Rightarrow> e);
          entry = (case mget (rg_Bookings e) t of
                 None \<Rightarrow> \<lparr>te_Tenant = t, te_Reservations = []\<rparr> | Some entry \<Rightarrow> entry);
          entry' = entry\<lparr>te_Reservations := mput (rv_Key candidate) candidate (te_Reservations entry)\<rparr>
      in mput (pe_ID edge) (e\<lparr>rg_Bookings := mput t entry' (rg_Bookings e)\<rparr>) reg)"

text \<open>\<^verbatim>\<open>Move\<close>: the edge that lacks capacity, if any, and the registry afterwards.\<close>

definition Move :: "rounding \<Rightarrow> pce_edge_id list \<Rightarrow> pce_edge list \<Rightarrow> TenantID \<Rightarrow> reservation \<Rightarrow>
    registry \<Rightarrow> pce_edge_id option \<times> registry" where
  "Move r from to t candidate reg =
     (case find (\<lambda>edge. \<not> checkCapacity r reg edge t candidate) to of
        Some edge \<Rightarrow> (Some (pe_ID edge), reg)
      | None \<Rightarrow>
          (None, fold (bookOn t candidate) to
                   (fold (releaseOn t (rv_Key candidate)) from reg)))"

definition PruneGraph :: "rounding \<Rightarrow> registry \<Rightarrow> pce_graph \<Rightarrow> TenantID \<Rightarrow> reservation \<Rightarrow> pce_graph" where
  "PruneGraph r reg g t candidate =
     (let edges = filter (\<lambda>(_, e). checkCapacity r reg e t candidate) (pg_edges g)
      in \<lparr>pg_nodes = pg_nodes g, pg_edges = edges,
          pg_adj = filter (\<lambda>(_, kept). kept \<noteq> [])
            (map (\<lambda>(n, ids). (n, filter (\<lambda>i. mget edges i \<noteq> None) ids)) (pg_adj g))\<rparr>)"

record res_state =
  rs_Edge :: pce_edge_id
  rs_Bookable :: f64
  rs_Booked :: f64
  rs_Free :: f64
  rs_Bookings :: int

definition reservation_Snapshot :: "rounding \<Rightarrow> registry \<Rightarrow> pce_graph \<Rightarrow> (pce_edge_id, res_state) gomap" where
  "reservation_Snapshot r reg g =
     map (\<lambda>(i, edge).
        let cap = fmul r (Capacity r edge) (r (19 / 20));
            (booked, n) =
              (case mget reg i of
                 None \<Rightarrow> (Fin 0, 0)
               | Some e \<Rightarrow>
                   foldl (\<lambda>(b, n) (_, entry).
                       (fadd r b (CalculateReservedBandwidth r entry),
                        n + int (length (te_Reservations entry))))
                     (Fin 0, 0) (rg_Bookings e))
        in (i, \<lparr>rs_Edge = i, rs_Bookable = cap, rs_Booked = booked, rs_Free = fsub r cap booked,
                rs_Bookings = n\<rparr>))
       (pg_edges g)"

end
