(* ===== verification/Reservation_Correct.thy ===== *)
theory Reservation_Correct
  imports Reservation
begin

text \<open>
  Correctness of the reservations. The registry is abstracted to a map from edge, tenant
  and key to a reservation, and \<^verbatim>\<open>Move\<close> refines the move of one key on that map. In
  arithmetic without rounding, for amounts that are a function of tenant, location and
  label, the load of an edge is the hose-model bound of the keys booked on it, whatever
  the order in which the maps are visited; no sequence of moves books more than 95
  percent of an edge.
\<close>

section \<open>The hose-model bound\<close>

type_synonym amounts = "NodeID \<Rightarrow> 64 word \<Rightarrow> rat"

definition sources_of :: "res_key set \<Rightarrow> 64 word \<Rightarrow> NodeID set" where
  "sources_of K l = rk_SourcePop ` {k \<in> K. rk_Label k = l}"

definition sinks_of :: "res_key set \<Rightarrow> 64 word \<Rightarrow> NodeID set" where
  "sinks_of K l = rk_SinkPop ` {k \<in> K. rk_Label k = l}"

definition hose :: "amounts \<Rightarrow> amounts \<Rightarrow> res_key set \<Rightarrow> rat" where
  "hose S T K = (\<Sum>l \<in> rk_Label ` K.
     min (\<Sum>p \<in> sources_of K l. S p l) (\<Sum>p \<in> sinks_of K l. T p l))"

definition nonneg_amounts :: "amounts \<Rightarrow> bool" where
  "nonneg_amounts S \<longleftrightarrow> (\<forall>p l. 0 \<le> S p l)"

lemma hose_empty [simp]: "hose S T {} = 0"
  by (simp add: hose_def)

lemma hose_mono:
  assumes "nonneg_amounts S" and "nonneg_amounts T" and "finite K'" and "K \<subseteq> K'"
  shows "hose S T K \<le> hose S T K'"
proof -
  let ?m = "\<lambda>K l. min (\<Sum>p \<in> sources_of K l. S p l) (\<Sum>p \<in> sinks_of K l. T p l)"
  have le: "?m K l \<le> ?m K' l" for l
  proof -
    have "(\<Sum>p \<in> sources_of K l. S p l) \<le> (\<Sum>p \<in> sources_of K' l. S p l)"
      using assms by (intro sum_mono2) (auto simp: sources_of_def nonneg_amounts_def)
    moreover have "(\<Sum>p \<in> sinks_of K l. T p l) \<le> (\<Sum>p \<in> sinks_of K' l. T p l)"
      using assms by (intro sum_mono2) (auto simp: sinks_of_def nonneg_amounts_def)
    ultimately show ?thesis by linarith
  qed
  have nonneg: "0 \<le> ?m K' l" for l
    using assms by (simp add: nonneg_amounts_def sum_nonneg)
  have "hose S T K \<le> (\<Sum>l \<in> rk_Label ` K. ?m K' l)"
    unfolding hose_def by (intro sum_mono le)
  also have "\<dots> \<le> hose S T K'"
    unfolding hose_def using assms(3,4) nonneg by (intro sum_mono2) auto
  finally show ?thesis .
qed

lemma hose_nonneg: "nonneg_amounts S \<Longrightarrow> nonneg_amounts T \<Longrightarrow> finite K \<Longrightarrow> 0 \<le> hose S T K"
  using hose_mono [of S T K "{}"] by simp

section \<open>The loops compute the bound\<close>

text \<open>Reservations whose amounts are those of \<open>S\<close> and \<open>T\<close>.\<close>

definition res_of :: "amounts \<Rightarrow> amounts \<Rightarrow> res_key \<Rightarrow> reservation" where
  "res_of S T k =
     \<lparr>rv_Key = k, rv_SourceBandwidth = Fin (S (rk_SourcePop k) (rk_Label k)),
      rv_SinkBandwidth = Fin (T (rk_SinkPop k) (rk_Label k))\<rparr>"

text \<open>One side of the sums: the seen pairs and, per label, the sum over them.\<close>

definition side_ok :: "amounts \<Rightarrow> (NodeID \<times> 64 word) list \<Rightarrow> (64 word, f64) gomap \<Rightarrow> bool" where
  "side_ok S seen m \<longleftrightarrow> mwf m \<and> fst ` set m = snd ` set seen \<and>
     (\<forall>l. mget0 (Fin 0) m l = Fin (\<Sum>p \<in> {p. (p, l) \<in> set seen}. S p l))"

lemma side_ok_empty: "side_ok S [] []"
  by (simp add: side_ok_def gm.wf_empty mget0_def)

lemma side_ok_add:
  assumes "side_ok S seen m" and "(p, l) \<notin> set seen"
  shows "side_ok S ((p, l) # seen)
    (mput l (fadd Fin (mget0 (Fin 0) m l) (Fin (S p l))) m)"
proof -
  have fin: "finite {q. (q, l) \<in> set seen}"
    by (rule finite_subset [of _ "fst ` set seen"]) (auto simp: image_iff, force)
  have set: "{q. (q, l) \<in> set ((p, l) # seen)} = insert p {q. (q, l) \<in> set seen}"
    by auto
  have "(\<Sum>q \<in> {q. (q, l) \<in> set ((p, l) # seen)}. S q l) =
      S p l + (\<Sum>q \<in> {q. (q, l) \<in> set seen}. S q l)"
    unfolding set using assms(2) fin by simp
  moreover have "{q. (q, l') \<in> set ((p, l) # seen)} = {q. (q, l') \<in> set seen}" if "l' \<noteq> l" for l'
    using that by auto
  ultimately show ?thesis
    using assms(1) unfolding side_ok_def
    by (auto simp: gm.wf_put keys_mput add.commute)
qed

definition sums_ok :: "amounts \<Rightarrow> amounts \<Rightarrow> res_key set \<Rightarrow> hose_sums \<Rightarrow> bool" where
  "sums_ok S T K s \<longleftrightarrow>
     side_ok S (sm_seenSources s) (sm_sources s) \<and> side_ok T (sm_seenSinks s) (sm_sinks s) \<and>
     set (sm_seenSources s) = (\<lambda>k. (rk_SourcePop k, rk_Label k)) ` K \<and>
     set (sm_seenSinks s) = (\<lambda>k. (rk_SinkPop k, rk_Label k)) ` K"

lemma sums_ok_add:
  assumes "sums_ok S T K s"
  shows "sums_ok S T (insert k K) (addSink Fin (res_of S T k) (addSource Fin (res_of S T k) s))"
proof -
  let ?s = "addSource Fin (res_of S T k) s"
  have src: "side_ok S (sm_seenSources ?s) (sm_sources ?s) \<and>
      set (sm_seenSources ?s) = (\<lambda>k. (rk_SourcePop k, rk_Label k)) ` insert k K \<and>
      sm_seenSinks ?s = sm_seenSinks s \<and> sm_sinks ?s = sm_sinks s"
    using assms side_ok_add [of S "sm_seenSources s" "sm_sources s" "rk_SourcePop k" "rk_Label k"]
    by (auto simp: sums_ok_def addSource_def res_of_def Let_def)
  have "side_ok T (sm_seenSinks (addSink Fin (res_of S T k) ?s))
        (sm_sinks (addSink Fin (res_of S T k) ?s)) \<and>
      set (sm_seenSinks (addSink Fin (res_of S T k) ?s)) =
        (\<lambda>k. (rk_SinkPop k, rk_Label k)) ` insert k K \<and>
      sm_seenSources (addSink Fin (res_of S T k) ?s) = sm_seenSources ?s \<and>
      sm_sources (addSink Fin (res_of S T k) ?s) = sm_sources ?s"
    using assms src side_ok_add [of T "sm_seenSinks s" "sm_sinks s" "rk_SinkPop k" "rk_Label k"]
    by (auto simp: sums_ok_def addSink_def res_of_def Let_def)
  with src show ?thesis by (simp add: sums_ok_def)
qed

definition entry_ok :: "amounts \<Rightarrow> amounts \<Rightarrow> (res_key, reservation) gomap \<Rightarrow> bool" where
  "entry_ok S T m \<longleftrightarrow> mwf m \<and> (\<forall>k v. mget m k = Some v \<longrightarrow> v = res_of S T k)"

abbreviation keys :: "('k, 'v) gomap \<Rightarrow> 'k set" where
  "keys m \<equiv> fst ` set m"

lemma fold_sums_ok:
  "\<forall>(k, v) \<in> set xs. v = res_of S T k \<Longrightarrow> sums_ok S T K s \<Longrightarrow>
   sums_ok S T (K \<union> keys xs) (fold (\<lambda>(_, v) s. addSink Fin v (addSource Fin v s)) xs s)"
proof (induction xs arbitrary: K s)
  case (Cons x xs)
  obtain k v where x: "x = (k, v)" by fastforce
  then have "v = res_of S T k" using Cons.prems(1) by auto
  then have "sums_ok S T (insert k K) (addSink Fin v (addSource Fin v s))"
    using sums_ok_add [OF Cons.prems(2)] by simp
  then show ?case
    using Cons.IH [of "insert k K"] Cons.prems(1) by (simp add: x)
qed simp

lemma foldl_fadd_Fin:
  "(\<And>x. x \<in> set xs \<Longrightarrow> f x = Fin (g x)) \<Longrightarrow>
   foldl (\<lambda>t x. fadd Fin t (f x)) (Fin a) xs = Fin (a + sum_list (map g xs))"
  by (induction xs arbitrary: a) (auto simp: add.assoc)

lemma fmin_Fin [simp]: "fmin (Fin x) (Fin y) = Fin (min x y)"
  by simp

lemma CalculateReservedBandwidth_hose:
  assumes "entry_ok S T m"
  shows "CalculateReservedBandwidth Fin \<lparr>te_Tenant = t, te_Reservations = m\<rparr> = Fin (hose S T (keys m))"
proof -
  define s where "s = getBandwidthSums Fin \<lparr>te_Tenant = t, te_Reservations = m\<rparr>"
  have all: "\<forall>(k, v) \<in> set m. v = res_of S T k"
    using assms in_set_mget unfolding entry_ok_def by fastforce
  have "sums_ok S T ({} \<union> keys m) s"
    unfolding s_def getBandwidthSums_def
    using fold_sums_ok [OF all, of "{}"] side_ok_empty by (simp add: sums_ok_def)
  then have src: "side_ok S (sm_seenSources s) (sm_sources s)"
    and snk: "side_ok T (sm_seenSinks s) (sm_sinks s)"
    and seen: "set (sm_seenSources s) = (\<lambda>k. (rk_SourcePop k, rk_Label k)) ` keys m"
      "set (sm_seenSinks s) = (\<lambda>k. (rk_SinkPop k, rk_Label k)) ` keys m"
    by (simp_all add: sums_ok_def)
  have sets: "{p. (p, l) \<in> set (sm_seenSources s)} = sources_of (keys m) l"
    "{p. (p, l) \<in> set (sm_seenSinks s)} = sinks_of (keys m) l" for l
    unfolding seen sources_of_def sinks_of_def by auto
  let ?g = "\<lambda>l. min (\<Sum>p \<in> sources_of (keys m) l. S p l) (\<Sum>p \<in> sinks_of (keys m) l. T p l)"
  have terms: "fmin (mget0 (Fin 0) (sm_sources s) l) (mget0 (Fin 0) (sm_sinks s) l) = Fin (?g l)" for l
    using src snk by (simp add: side_ok_def sets)
  have labels: "set (map fst (sm_sources s)) = rk_Label ` keys m"
    using src unfolding side_ok_def seen by (auto simp: image_image)
  have "distinct (map fst (sm_sources s))"
    using src by (simp add: side_ok_def mwf_def)
  then have "sum_list (map ?g (map fst (sm_sources s))) = hose S T (keys m)"
    unfolding hose_def by (simp only: sum_list_distinct_conv_sum_set labels)
  moreover have "CalculateReservedBandwidth Fin \<lparr>te_Tenant = t, te_Reservations = m\<rparr> =
      Fin (0 + sum_list (map ?g (map fst (sm_sources s))))"
    unfolding CalculateReservedBandwidth_def Let_def s_def [symmetric]
    by (rule foldl_fadd_Fin) (rule terms)
  ultimately show ?thesis by simp
qed

section \<open>The registry as a map of bookings\<close>

type_synonym bookings = "pce_edge_id \<Rightarrow> TenantID \<Rightarrow> res_key \<Rightarrow> reservation option"

definition booking :: "registry \<Rightarrow> bookings" where
  "booking reg i t k =
     (case mget reg i of
        None \<Rightarrow> None
      | Some e \<Rightarrow>
          (case mget (rg_Bookings e) t of
             None \<Rightarrow> None
           | Some entry \<Rightarrow> mget (te_Reservations entry) k))"

text \<open>Every record is filed under its own name and none is empty.\<close>

definition entry_wf :: "TenantID \<Rightarrow> tenant_entry \<Rightarrow> bool" where
  "entry_wf t entry \<longleftrightarrow> te_Tenant entry = t \<and> mwf (te_Reservations entry) \<and> te_Reservations entry \<noteq> []"

definition redge_wf :: "res_edge \<Rightarrow> bool" where
  "redge_wf e \<longleftrightarrow> mwf (rg_Bookings e) \<and> rg_Bookings e \<noteq> [] \<and>
     (\<forall>t entry. mget (rg_Bookings e) t = Some entry \<longrightarrow> entry_wf t entry)"

definition reg_wf :: "registry \<Rightarrow> bool" where
  "reg_wf reg \<longleftrightarrow> mwf reg \<and> (\<forall>i e. mget reg i = Some e \<longrightarrow> redge_wf e)"

lemma mput_not_Nil [simp]: "mput k v m \<noteq> []"
  by (cases m) (auto simp: mput_def)

lemma releaseOn_wf [wf_intros]: "reg_wf reg \<Longrightarrow> reg_wf (releaseOn t k i reg)"
proof -
  assume wf: "reg_wf reg"
  show ?thesis
  proof (cases "mget reg i")
    case (Some e)
    then have e: "redge_wf e" using wf by (simp add: reg_wf_def)
    have *: "reg_wf (if bs = [] then mdel i reg else mput i (e\<lparr>rg_Bookings := bs\<rparr>) reg)"
      if "mwf bs" "\<forall>t entry. mget bs t = Some entry \<longrightarrow> entry_wf t entry" for bs
      using wf that by (auto simp: reg_wf_def redge_wf_def gm.wf_put gm.wf_del)
    show ?thesis
    proof (cases "mget (rg_Bookings e) t")
      case None
      then show ?thesis using * [of "rg_Bookings e"] Some e
        by (simp add: releaseOn_def redge_wf_def Let_def)
    next
      case entry: (Some entry)
      let ?rest = "mdel k (te_Reservations entry)"
      let ?bs = "if ?rest = [] then mdel t (rg_Bookings e)
        else mput t (entry\<lparr>te_Reservations := ?rest\<rparr>) (rg_Bookings e)"
      have "entry_wf t entry"
        using e entry by (simp add: redge_wf_def)
      then have "mwf ?bs \<and> (\<forall>t entry. mget ?bs t = Some entry \<longrightarrow> entry_wf t entry)"
        using e by (simp add: redge_wf_def entry_wf_def gm.wf_put gm.wf_del)
      then show ?thesis using * [of ?bs] Some entry
        by (simp add: releaseOn_def Let_def)
    qed
  qed (use wf in \<open>simp add: releaseOn_def\<close>)
qed

lemma bookOn_wf [wf_intros]: "reg_wf reg \<Longrightarrow> reg_wf (bookOn t c edge reg)"
proof -
  assume wf: "reg_wf reg"
  define e where "e = (case mget reg (pe_ID edge) of
                 None \<Rightarrow> \<lparr>rg_ForEdge = edge, rg_Bookings = []\<rparr> | Some e \<Rightarrow> e)"
  define entry where "entry = (case mget (rg_Bookings e) t of
                 None \<Rightarrow> \<lparr>te_Tenant = t, te_Reservations = []\<rparr> | Some entry \<Rightarrow> entry)"
  have e: "mwf (rg_Bookings e)" "\<forall>t entry. mget (rg_Bookings e) t = Some entry \<longrightarrow> entry_wf t entry"
    using wf by (auto simp: e_def reg_wf_def redge_wf_def gm.wf_empty split: option.splits)
  have entry: "te_Tenant entry = t" "mwf (te_Reservations entry)"
    using e by (auto simp: entry_def entry_wf_def gm.wf_empty split: option.splits)
  have "redge_wf (e\<lparr>rg_Bookings := mput t (entry\<lparr>te_Reservations :=
      mput (rv_Key c) c (te_Reservations entry)\<rparr>) (rg_Bookings e)\<rparr>)"
    using e entry by (simp add: redge_wf_def entry_wf_def gm.wf_put)
  then show ?thesis
    using wf by (simp add: bookOn_def Let_def reg_wf_def gm.wf_put
        flip: e_def entry_def)
qed

lemma booking_releaseOn:
  "booking (releaseOn t k i reg) i' t' k' =
     (if i' = i \<and> t' = t \<and> k' = k then None else booking reg i' t' k')"
proof (cases "mget reg i")
  case (Some e)
  have nil: "mget m x = None" if "m = []" for m :: "('x, 'y) gomap" and x
    using that by simp
  show ?thesis
  proof (cases "mget (rg_Bookings e) t")
    case None
    then show ?thesis using Some
      by (auto simp: releaseOn_def booking_def Let_def dest: nil split: option.split)
  next
    case entry: (Some entry)
    let ?rest = "mdel k (te_Reservations entry)"
    let ?bs = "if ?rest = [] then mdel t (rg_Bookings e)
        else mput t (entry\<lparr>te_Reservations := ?rest\<rparr>) (rg_Bookings e)"
    have rest: "mget ?rest k' = (if k' = k then None else mget (te_Reservations entry) k')"
      by simp
    have bs: "(case mget ?bs t' of None \<Rightarrow> None | Some entry \<Rightarrow> mget (te_Reservations entry) k') =
      (if t' = t then mget ?rest k'
       else case mget (rg_Bookings e) t' of None \<Rightarrow> None | Some entry \<Rightarrow> mget (te_Reservations entry) k')"
      by (cases "?rest = []") (simp_all add: nil)
    have "booking (releaseOn t k i reg) i' t' k' =
      (if i' = i then case mget ?bs t' of None \<Rightarrow> None | Some entry \<Rightarrow> mget (te_Reservations entry) k'
       else booking reg i' t' k')"
      using Some entry nil [of ?bs] by (simp add: releaseOn_def booking_def Let_def)
    then show ?thesis
      unfolding bs rest using Some entry by (simp add: booking_def)
  qed
qed (simp add: releaseOn_def booking_def)

lemma booking_bookOn:
  "booking (bookOn t c edge reg) i' t' k' =
     (if i' = pe_ID edge \<and> t' = t \<and> k' = rv_Key c then Some c else booking reg i' t' k')"
  by (simp add: bookOn_def booking_def Let_def split: option.split)

lemma booking_fold_release:
  "booking (fold (releaseOn t k) from reg) i' t' k' =
     (if i' \<in> set from \<and> t' = t \<and> k' = k then None else booking reg i' t' k')"
  by (induction "from" arbitrary: reg) (auto simp: booking_releaseOn)

lemma booking_fold_book:
  "booking (fold (bookOn t c) to reg) i' t' k' =
     (if i' \<in> pe_ID ` set to \<and> t' = t \<and> k' = rv_Key c then Some c else booking reg i' t' k')"
  by (induction to arbitrary: reg) (auto simp: booking_bookOn)

lemma Move_None:
  "Move r from to t c reg = (None, reg') \<longleftrightarrow>
     (\<forall>edge \<in> set to. checkCapacity r reg edge t c) \<and>
     reg' = fold (bookOn t c) to (fold (releaseOn t (rv_Key c)) from reg)"
  by (auto simp: Move_def find_None_iff find_Some_iff split: option.splits)

lemma Move_wf [wf_intros]: "reg_wf reg \<Longrightarrow> reg_wf (snd (Move r from to t c reg))"
proof -
  assume wf: "reg_wf reg"
  have rel: "reg_wf m \<Longrightarrow> reg_wf (fold (releaseOn t (rv_Key c)) from m)" for m
    by (induction "from" arbitrary: m) (auto intro: releaseOn_wf)
  have book: "reg_wf m \<Longrightarrow> reg_wf (fold (bookOn t c) to m)" for m
    by (induction to arbitrary: m) (auto intro: bookOn_wf)
  show ?thesis
    using wf rel book by (auto simp: Move_def split: option.split)
qed

section \<open>Loads\<close>

definition tenants_on :: "bookings \<Rightarrow> pce_edge_id \<Rightarrow> TenantID set" where
  "tenants_on B i = {t. \<exists>k. B i t k \<noteq> None}"

definition keys_on :: "bookings \<Rightarrow> pce_edge_id \<Rightarrow> TenantID \<Rightarrow> res_key set" where
  "keys_on B i t = {k. B i t k \<noteq> None}"

type_synonym tenant_amounts = "TenantID \<Rightarrow> amounts"

definition load_on :: "tenant_amounts \<Rightarrow> tenant_amounts \<Rightarrow> bookings \<Rightarrow> pce_edge_id \<Rightarrow> rat" where
  "load_on S T B i = (\<Sum>t \<in> tenants_on B i. hose (S t) (T t) (keys_on B i t))"

definition reg_amounts :: "tenant_amounts \<Rightarrow> tenant_amounts \<Rightarrow> registry \<Rightarrow> bool" where
  "reg_amounts S T reg \<longleftrightarrow> (\<forall>i t k v. booking reg i t k = Some v \<longrightarrow> v = res_of (S t) (T t) k)"

text \<open>The facts about one edge record that the load lemmas use.\<close>

lemma keys_of_mget: "keys m = {k. mget m k \<noteq> None}"
  by (auto simp: mget_None_fst)

lemma edge_facts:
  assumes wf: "reg_wf reg" and am: "reg_amounts S T reg" and e: "mget reg i = Some e"
  shows "mwf (rg_Bookings e)" and "keys (rg_Bookings e) = tenants_on (booking reg) i"
    and "mget (rg_Bookings e) t = Some entry \<Longrightarrow> entry_ok (S t) (T t) (te_Reservations entry)"
    and "mget (rg_Bookings e) t = Some entry \<Longrightarrow> keys (te_Reservations entry) = keys_on (booking reg) i t"
proof -
  have ewf: "redge_wf e" using wf e by (simp add: reg_wf_def)
  then show "mwf (rg_Bookings e)" by (simp add: redge_wf_def)
  have entry: "entry_wf t entry" if "mget (rg_Bookings e) t = Some entry" for t entry
    using ewf that by (simp add: redge_wf_def)
  have "(\<exists>k. booking reg i t k \<noteq> None) \<longleftrightarrow> mget (rg_Bookings e) t \<noteq> None" for t
  proof (cases "mget (rg_Bookings e) t")
    case (Some x)
    then obtain k v ys where "te_Reservations x = (k, v) # ys"
      using entry [OF Some] by (cases "te_Reservations x") (auto simp: entry_wf_def)
    then have "booking reg i t k \<noteq> None"
      using e Some by (simp add: booking_def mget_Cons)
    then show ?thesis using Some by auto
  qed (use e in \<open>simp add: booking_def\<close>)
  then show "keys (rg_Bookings e) = tenants_on (booking reg) i"
    unfolding keys_of_mget tenants_on_def by simp
  assume t: "mget (rg_Bookings e) t = Some entry"
  have b: "booking reg i t k = mget (te_Reservations entry) k" for k
    using e t by (simp add: booking_def)
  show "entry_ok (S t) (T t) (te_Reservations entry)"
    using am entry [OF t] unfolding entry_ok_def reg_amounts_def entry_wf_def
    by (metis b)
  show "keys (te_Reservations entry) = keys_on (booking reg) i t"
    unfolding keys_of_mget keys_on_def b ..
qed

lemma Calculate_any:
  "entry_ok S T (te_Reservations entry) \<Longrightarrow>
   CalculateReservedBandwidth Fin entry = Fin (hose S T (keys (te_Reservations entry)))"
  by (cases entry) (simp add: CalculateReservedBandwidth_hose)

lemma loadAndCapacity_load:
  assumes "reg_wf reg" and "reg_amounts S T reg" and "mget reg i = Some e"
  shows "loadAndCapacity Fin e = Fin (load_on S T (booking reg) i)"
proof -
  note F = edge_facts [OF assms]
  let ?g = "\<lambda>x :: TenantID \<times> tenant_entry.
      hose (S (fst x)) (T (fst x)) (keys_on (booking reg) i (fst x))"
  have eq: "(\<lambda>load (_, booking). fadd Fin load (CalculateReservedBandwidth Fin booking)) =
      (\<lambda>load x. fadd Fin load (CalculateReservedBandwidth Fin (snd x)))"
    by (auto simp: fun_eq_iff)
  have "CalculateReservedBandwidth Fin (snd x) = Fin (?g x)" if "x \<in> set (rg_Bookings e)" for x
  proof -
    have "mget (rg_Bookings e) (fst x) = Some (snd x)"
      using that in_set_mget [OF F(1)] by (cases x) auto
    from Calculate_any [OF F(3) [OF this]] F(4) [OF this] show ?thesis
      by simp
  qed
  then have "loadAndCapacity Fin e = Fin (0 + sum_list (map ?g (rg_Bookings e)))"
    unfolding loadAndCapacity_def eq by (rule foldl_fadd_Fin)
  also have "sum_list (map ?g (rg_Bookings e)) =
      sum_list (map (\<lambda>t. hose (S t) (T t) (keys_on (booking reg) i t)) (map fst (rg_Bookings e)))"
    by (simp add: comp_def)
  also have "\<dots> = load_on S T (booking reg) i"
    using F(1,2) unfolding load_on_def mwf_def
    by (subst sum_list_distinct_conv_sum_set) simp_all
  finally show ?thesis by simp
qed

text \<open>The bookings after a reservation is written on one edge.\<close>

definition with_booking :: "bookings \<Rightarrow> pce_edge_id \<Rightarrow> TenantID \<Rightarrow> reservation \<Rightarrow> bookings" where
  "with_booking B i t c = (\<lambda>i' t' k'. if i' = i \<and> t' = t \<and> k' = rv_Key c then Some c else B i' t' k')"

lemma with_booking_sets:
  "tenants_on (with_booking B i t c) i = insert t (tenants_on B i)"
  "keys_on (with_booking B i t c) i t' =
     (if t' = t then insert (rv_Key c) (keys_on B i t) else keys_on B i t')"
  by (auto simp: tenants_on_def keys_on_def with_booking_def)

lemma fold_exclude:
  "mget (fold (\<lambda>(k, v) m. if k \<noteq> key then mput k v m else m) xs rest) k =
     (if k = key then mget rest k
      else case map_of (rev xs) k of None \<Rightarrow> mget rest k | Some v \<Rightarrow> Some v)"
  by (induction xs rule: rev_induct) (auto split: option.split)

lemma fold_exclude_wf:
  "mwf rest \<Longrightarrow> mwf (fold (\<lambda>(k, v) m. if k \<noteq> key then mput k v m else m) xs rest)"
  by (induction xs arbitrary: rest) (simp_all add: gm.wf_put case_prod_beta)

lemma excludeLoop_eq:
  assumes "\<And>tid entry. (tid, entry) \<in> set bs \<Longrightarrow>
      CalculateReservedBandwidth Fin entry = Fin (h tid)"
    and "distinct (map fst bs)"
  shows "excludeLoop Fin t key bs (Fin a) rest =
    (Fin (a + (\<Sum>tid \<in> keys bs - {t}. h tid)),
     case map_of bs t of
       None \<Rightarrow> rest
     | Some entry \<Rightarrow>
         fold (\<lambda>(k, v) m. if k \<noteq> key then mput k v m else m) (te_Reservations entry) rest)"
  using assms
proof (induction bs arbitrary: a rest)
  case (Cons b bs)
  obtain tid entry where b: "b = (tid, entry)" by fastforce
  have tid: "tid \<notin> keys bs" using Cons.prems(2) b by auto
  show ?case
  proof (cases "tid = t")
    case True
    then have "keys (b # bs) - {t} = keys bs - {t}" "map_of bs t = None"
      using b tid by (auto simp: map_of_eq_None_iff)
    then show ?thesis
      using Cons.IH [of a] Cons.prems b True by simp
  next
    case False
    then have "keys (b # bs) - {t} = insert tid (keys bs - {t})"
      using b by auto
    moreover have "CalculateReservedBandwidth Fin entry = Fin (h tid)"
      using Cons.prems(1) b by simp
    moreover have "excludeLoop Fin t key bs (Fin (a + h tid)) rest =
      (Fin (a + h tid + (\<Sum>tid \<in> keys bs - {t}. h tid)),
       case map_of bs t of
         None \<Rightarrow> rest
       | Some entry \<Rightarrow>
           fold (\<lambda>(k, v) m. if k \<noteq> key then mput k v m else m) (te_Reservations entry) rest)"
      using Cons.IH [of "a + h tid" rest] Cons.prems by simp
    ultimately show ?thesis
      using b False tid by (simp add: add.assoc)
  qed
qed simp

lemma entry_ok_single: "entry_ok S T (mput k (res_of S T k) [])"
  by (simp add: entry_ok_def gm.wf_put gm.wf_empty)

lemma entry_ok_exclude:
  assumes ok: "entry_ok S T m"
    and rest: "rest = fold (\<lambda>(k, v) m. if k \<noteq> key then mput k v m else m) m
      (mput key (res_of S T key) [])"
  shows "entry_ok S T rest" and "keys rest = insert key (keys m)"
proof -
  have wf: "mwf m" and m: "\<And>k v. mget m k = Some v \<Longrightarrow> v = res_of S T k"
    using ok by (auto simp: entry_ok_def)
  have rev: "map_of (rev m) k = mget m k" for k
    using wf map_of_inject_set [of "rev m" m] by (simp add: mwf_def mget_def flip: rev_map)
  have get: "mget rest k = (if k = key then Some (res_of S T key) else mget m k)" for k
    by (simp add: rest fold_exclude rev split: option.split)
  have "mwf rest"
    unfolding rest by (intro fold_exclude_wf gm.wf_put gm.wf_empty)
  then show "entry_ok S T rest"
    using m by (simp add: entry_ok_def get)
  show "keys rest = insert key (keys m)"
    unfolding keys_of_mget get by auto
qed

lemma finite_tenants_on: "reg_wf reg \<Longrightarrow> reg_amounts S T reg \<Longrightarrow> finite (tenants_on (booking reg) i)"
proof (cases "mget reg i")
  case None
  then show ?thesis by (simp add: tenants_on_def booking_def)
next
  case (Some e)
  assume "reg_wf reg" "reg_amounts S T reg"
  from edge_facts(2) [OF this Some] show ?thesis
    by (metis finite_imageI List.finite_set)
qed

lemma finite_keys_on: "finite (keys_on (booking reg) i t)"
proof (cases "mget reg i")
  case (Some e)
  show ?thesis
  proof (cases "mget (rg_Bookings e) t")
    case entry: (Some entry)
    have "keys_on (booking reg) i t = keys (te_Reservations entry)"
      using Some entry by (simp add: keys_on_def booking_def keys_of_mget)
    then show ?thesis by simp
  qed (use Some in \<open>simp add: keys_on_def booking_def\<close>)
qed (simp add: keys_on_def booking_def)

lemma loadExcluding_load:
  assumes "reg_wf reg" and "reg_amounts S T reg" and c: "c = res_of (S t) (T t) key"
  shows "loadExcluding Fin (mget reg i) t key (Some c) =
    Fin (load_on S T (with_booking (booking reg) i t c) i)"
proof -
  have key: "rv_Key c = key" by (simp add: c res_of_def)
  let ?h = "\<lambda>t'. hose (S t') (T t') (keys_on (booking reg) i t')"
  have load: "load_on S T (with_booking (booking reg) i t c) i =
      (\<Sum>t' \<in> tenants_on (booking reg) i - {t}. ?h t') +
      hose (S t) (T t) (insert key (keys_on (booking reg) i t))"
  proof -
    let ?f = "\<lambda>t'. hose (S t') (T t') (keys_on (with_booking (booking reg) i t c) i t')"
    have "load_on S T (with_booking (booking reg) i t c) i =
        ?f t + (\<Sum>t' \<in> tenants_on (booking reg) i - {t}. ?f t')"
      unfolding load_on_def with_booking_sets(1)
      by (rule sum.insert_remove [OF finite_tenants_on [OF assms(1,2)]])
    moreover have "(\<Sum>t' \<in> tenants_on (booking reg) i - {t}. ?f t') =
        (\<Sum>t' \<in> tenants_on (booking reg) i - {t}. ?h t')"
      by (rule sum.cong) (auto simp: with_booking_sets)
    ultimately show ?thesis
      by (simp add: with_booking_sets key)
  qed
  show ?thesis
  proof (cases "mget reg i")
    case None
    then have "tenants_on (booking reg) i = {}" "keys_on (booking reg) i t = {}"
      by (auto simp: tenants_on_def keys_on_def booking_def)
    then show ?thesis
      using CalculateReservedBandwidth_hose [OF entry_ok_single [of "S t" "T t" key], of t] None
      unfolding load by (simp add: loadExcluding_def c keys_mput)
  next
    case (Some e)
    note F = edge_facts [OF assms(1,2) Some]
    have calc: "CalculateReservedBandwidth Fin entry = Fin (?h tid)"
      if "(tid, entry) \<in> set (rg_Bookings e)" for tid entry
      using Calculate_any F(3,4) in_set_mget [OF F(1) that] by metis
    let ?rest = "case mget (rg_Bookings e) t of
        None \<Rightarrow> mput key c []
      | Some entry \<Rightarrow> fold (\<lambda>(k, v) m. if k \<noteq> key then mput k v m else m)
          (te_Reservations entry) (mput key c [])"
    have rest: "entry_ok (S t) (T t) ?rest \<and>
        keys ?rest = insert key (keys_on (booking reg) i t)"
    proof (cases "mget (rg_Bookings e) t")
      case None
      then have "keys_on (booking reg) i t = {}"
        using Some by (simp add: keys_on_def booking_def)
      then show ?thesis using None by (simp add: c entry_ok_single keys_mput)
    next
      case entry: (Some entry)
      show ?thesis
        using entry_ok_exclude [OF F(3) [OF entry] refl, of key] F(4) [OF entry] entry
        by (simp add: c)
    qed
    have "excludeLoop Fin t key (rg_Bookings e) (Fin 0) (mput key c []) =
        (Fin (0 + (\<Sum>t' \<in> keys (rg_Bookings e) - {t}. ?h t')), ?rest)"
      using excludeLoop_eq [of "rg_Bookings e" ?h t key 0 "mput key c []"] calc F(1)
      by (simp add: mwf_def mget_def)
    then show ?thesis
      using Some CalculateReservedBandwidth_hose [OF conjunct1 [OF rest], of t] rest F(2)
      unfolding load by (simp add: loadExcluding_def Let_def)
  qed
qed

section \<open>No overbooking\<close>

text \<open>On every edge on record at most 95 percent of the capacity is booked.\<close>

definition reg_within :: "(pce_edge_id \<Rightarrow> rat) \<Rightarrow> tenant_amounts \<Rightarrow> tenant_amounts \<Rightarrow> registry \<Rightarrow> bool" where
  "reg_within cap S T reg \<longleftrightarrow>
     (\<forall>i. mget reg i \<noteq> None \<longrightarrow> load_on S T (booking reg) i \<le> 19 / 20 * cap i)"

definition registry_inv :: "(pce_edge_id \<Rightarrow> rat) \<Rightarrow> tenant_amounts \<Rightarrow> tenant_amounts \<Rightarrow> registry \<Rightarrow> bool" where
  "registry_inv cap S T reg \<longleftrightarrow> reg_wf reg \<and> reg_amounts S T reg \<and> reg_within cap S T reg"

lemma load_on_cong: "B i = B' i \<Longrightarrow> load_on S T B i = load_on S T B' i"
  by (simp add: load_on_def tenants_on_def keys_on_def)

lemma load_on_mono:
  assumes am: "\<And>t. nonneg_amounts (S t)" "\<And>t. nonneg_amounts (T t)"
    and fin: "finite (tenants_on B' i)" "\<And>t. finite (keys_on B' i t)"
    and sub: "\<And>t. keys_on B i t \<subseteq> keys_on B' i t"
  shows "load_on S T B i \<le> load_on S T B' i"
proof -
  have ten: "tenants_on B i \<subseteq> tenants_on B' i"
    using sub by (fastforce simp: tenants_on_def keys_on_def)
  have "load_on S T B i \<le> (\<Sum>t \<in> tenants_on B i. hose (S t) (T t) (keys_on B' i t))"
    unfolding load_on_def using am fin(2) sub by (intro sum_mono hose_mono)
  also have "\<dots> \<le> load_on S T B' i"
    unfolding load_on_def using ten fin am by (intro sum_mono2 hose_nonneg) auto
  finally show ?thesis .
qed

lemma Move_amounts:
  assumes am: "reg_amounts S T reg" and c: "c = res_of (S t) (T t) key"
  shows "reg_amounts S T (snd (Move r from to t c reg))"
proof -
  have "rv_Key c = key" by (simp add: c res_of_def)
  then have "reg_amounts S T (fold (bookOn t c) to (fold (releaseOn t (rv_Key c)) from reg))"
    using am c by (auto simp: reg_amounts_def booking_fold_book booking_fold_release)
  then show ?thesis using am by (auto simp: Move_def split: option.split)
qed

lemma mget_fold_release:
  "mget (fold (releaseOn t k) from reg) i \<noteq> None \<Longrightarrow> mget reg i \<noteq> None"
proof (induction "from" arbitrary: reg)
  case (Cons j js)
  have "mget (releaseOn t k j reg) i \<noteq> None \<Longrightarrow> mget reg i \<noteq> None"
    by (auto simp: releaseOn_def Let_def split: option.splits if_splits)
  then show ?case using Cons by simp
qed simp

lemma mget_fold_book:
  "mget (fold (bookOn t c) to reg) i \<noteq> None \<longleftrightarrow> i \<in> pe_ID ` set to \<or> mget reg i \<noteq> None"
  by (induction to arbitrary: reg) (auto simp: bookOn_def Let_def)

lemma checkCapacity_load:
  assumes "reg_wf reg" and "reg_amounts S T reg" and c: "c = res_of (S t) (T t) key"
    and cap: "Capacity Fin e = Fin (cap (pe_ID e))"
  shows "checkCapacity Fin reg e t c \<longleftrightarrow>
    load_on S T (with_booking (booking reg) (pe_ID e) t c) (pe_ID e) \<le> 19 / 20 * cap (pe_ID e)"
proof -
  have "rv_Key c = key" by (simp add: c res_of_def)
  then show ?thesis
    using loadExcluding_load [OF assms(1-3), of "pe_ID e"] cap
    by (simp add: checkCapacity_def mult.commute)
qed

lemma Move_within:
  assumes inv: "registry_inv cap S T reg"
    and am: "\<And>t. nonneg_amounts (S t)" "\<And>t. nonneg_amounts (T t)"
    and c: "c = res_of (S t) (T t) key"
    and cap: "\<And>e. e \<in> set to \<Longrightarrow> Capacity Fin e = Fin (cap (pe_ID e))"
  shows "reg_within cap S T (snd (Move Fin from to t c reg))"
proof (cases "fst (Move Fin from to t c reg)")
  case (Some i)
  then have "snd (Move Fin from to t c reg) = reg"
    by (auto simp: Move_def split: option.splits)
  then show ?thesis using inv by (simp add: registry_inv_def)
next
  case None
  have wf: "reg_wf reg" and ra: "reg_amounts S T reg" and within: "reg_within cap S T reg"
    using inv by (auto simp: registry_inv_def)
  let ?reg = "snd (Move Fin from to t c reg)"
  have mv: "Move Fin from to t c reg = (None, ?reg)"
    using None by (metis prod.collapse)
  then have check: "\<forall>e \<in> set to. checkCapacity Fin reg e t c"
    and reg: "?reg = fold (bookOn t c) to (fold (releaseOn t (rv_Key c)) from reg)"
    by (auto simp: Move_None)
  have b: "booking ?reg i t' k = (if t' = t \<and> k = rv_Key c then
      if i \<in> pe_ID ` set to then Some c else if i \<in> set from then None else booking reg i t' k
      else booking reg i t' k)" for i t' k
    unfolding reg booking_fold_book booking_fold_release by auto
  have "load_on S T (booking ?reg) i \<le> 19 / 20 * cap i" if i: "mget ?reg i \<noteq> None" for i
  proof (cases "i \<in> pe_ID ` set to")
    case True
    then obtain e where e: "e \<in> set to" "i = pe_ID e" by blast
    have "booking ?reg i = with_booking (booking reg) i t c i"
      using True by (auto simp: b with_booking_def fun_eq_iff)
    then show ?thesis
      using check e checkCapacity_load [where cap = cap, OF wf ra c cap [OF e(1)]] load_on_cong by metis
  next
    case False
    then have "mget reg i \<noteq> None"
      using i mget_fold_release unfolding reg mget_fold_book by blast
    moreover have "load_on S T (booking ?reg) i \<le> load_on S T (booking reg) i"
      by (rule load_on_mono [OF am finite_tenants_on [OF wf ra] finite_keys_on])
        (use False in \<open>auto simp: keys_on_def b split: if_splits\<close>)
    ultimately show ?thesis
      using within by (fastforce simp: reg_within_def)
  qed
  then show ?thesis by (simp add: reg_within_def)
qed

text \<open>The registry as a transition system: any moves of reservations with the given amounts.\<close>

inductive registry_step :: "(pce_edge_id \<Rightarrow> rat) \<Rightarrow> tenant_amounts \<Rightarrow> tenant_amounts \<Rightarrow> registry \<Rightarrow>
    registry \<Rightarrow> bool" for cap S T where
  registry_move: "(\<And>t. nonneg_amounts (S t)) \<Longrightarrow> (\<And>t. nonneg_amounts (T t)) \<Longrightarrow>
     (\<And>e. e \<in> set to \<Longrightarrow> Capacity Fin e = Fin (cap (pe_ID e))) \<Longrightarrow>
     registry_step cap S T reg (snd (Move Fin from to t (res_of (S t) (T t) key) reg))"

inductive_cases registry_stepE: "registry_step cap S T reg reg'"

interpretation booked: invariant_of "\<lambda>reg. reg = []" "registry_step cap S T" "registry_inv cap S T"
  for cap S T
proof
  show "registry_inv cap S T reg" if "reg = []" for reg
    using that by (auto simp: registry_inv_def reg_wf_def reg_amounts_def reg_within_def booking_def
        gm.wf_empty)
  show "registry_inv cap S T reg'" if inv: "registry_inv cap S T reg" and st: "registry_step cap S T reg reg'"
    for reg reg'
  proof -
    obtain to "from" t key where step: "reg' = snd (Move Fin from to t (res_of (S t) (T t) key) reg)"
      "\<And>t. nonneg_amounts (S t)" "\<And>t. nonneg_amounts (T t)"
      "\<And>e. e \<in> set to \<Longrightarrow> Capacity Fin e = Fin (cap (pe_ID e))"
      using st by (elim registry_stepE) blast
    show ?thesis
      using inv Move_within [where cap = cap, OF inv step(2,3) refl step(4)] Move_wf Move_amounts
      by (simp add: registry_inv_def step(1))
  qed
qed

section \<open>The pruned graph\<close>

lemma mget_filter_val:
  assumes "mwf m"
  shows "mget (filter (\<lambda>(_, v). P v) m) k =
    (case mget m k of None \<Rightarrow> None | Some v \<Rightarrow> if P v then Some v else None)"
proof -
  have wf: "mwf (filter (\<lambda>(_, v). P v) m)"
    using assms by (rule mwf_filter)
  show ?thesis
  proof (cases "mget m k")
    case None
    then have "mget (filter (\<lambda>(_, v). P v) m) k = None"
      by (auto simp: mget_None_fst)
    then show ?thesis using None by simp
  next
    case (Some v)
    have "mget (filter (\<lambda>(_, v). P v) m) k = None" if "\<not> P v"
    proof (rule ccontr)
      assume "mget (filter (\<lambda>(_, v). P v) m) k \<noteq> None"
      then obtain v' where "(k, v') \<in> set m" "P v'"
        by (auto dest!: mget_in_set)
      then show False using in_set_mget [OF assms] Some that by fastforce
    qed
    moreover have "mget (filter (\<lambda>(_, v). P v) m) k = Some v" if "P v"
      using that mget_in_set [OF Some] by (intro in_set_mget [OF wf]) simp
    ultimately show ?thesis using Some by simp
  qed
qed

lemma PruneGraph_edge:
  assumes "mwf (pg_edges g)"
  shows "mget (pg_edges (PruneGraph r reg g t c)) i =
    (case mget (pg_edges g) i of
       None \<Rightarrow> None | Some e \<Rightarrow> if checkCapacity r reg e t c then Some e else None)"
  using mget_filter_val [OF assms] by (simp add: PruneGraph_def Let_def)

lemma PruneGraph_adj:
  assumes "mwf (pg_adj g)"
  shows "mget0 [] (pg_adj (PruneGraph r reg g t c)) n =
    filter (\<lambda>i. mget (pg_edges (PruneGraph r reg g t c)) i \<noteq> None) (mget0 [] (pg_adj g) n)"
proof -
  let ?f = "\<lambda>ids. filter (\<lambda>i. mget (pg_edges (PruneGraph r reg g t c)) i \<noteq> None) ids"
  let ?m = "map (\<lambda>(n, ids). (n, ?f ids)) (pg_adj g)"
  have adj: "pg_adj (PruneGraph r reg g t c) = filter (\<lambda>(_, kept). kept \<noteq> []) ?m"
    by (simp add: PruneGraph_def Let_def)
  have "mwf ?m" using assms by (rule mwf_map_val)
  from mget_filter_val [OF this, of "\<lambda>kept. kept \<noteq> []" n]
  show ?thesis
    unfolding adj by (simp add: mget0_def mget_map_val split: option.split)
qed

lemma PruneGraph_nodes [simp, go_simps]: "pg_nodes (PruneGraph r reg g t c) = pg_nodes g"
  by (simp add: PruneGraph_def Let_def)

lemma PruneGraph_wf [wf_intros]:
  assumes "pce_wf g"
  shows "pce_wf (PruneGraph r reg g t c)"
proof -
  let ?p = "PruneGraph r reg g t c"
  note D = pce_wfD [OF assms]
  have sub: "mget (pg_edges ?p) i = Some e \<Longrightarrow> mget (pg_edges g) i = Some e" for i e
    by (simp add: PruneGraph_edge [OF D(1)] split: option.splits if_splits)
  have "mwf (pg_edges ?p)" "mwf (pg_adj ?p)"
    using D(1,2) by (auto simp: PruneGraph_def Let_def intro: mwf_filter mwf_map_val)
  then show ?thesis
    unfolding pce_wf_def PruneGraph_adj [OF D(2)]
  proof (intro conjI allI impI)
    show "pe_ID e = i" if "mget (pg_edges ?p) i = Some e" for i e
      using D(3) sub that by blast
    show "pe_NodeFrom e = n"
      if "i \<in> set (filter (\<lambda>i. mget (pg_edges ?p) i \<noteq> None) (mget0 [] (pg_adj g) n))"
        "mget (pg_edges ?p) i = Some e" for n i e
      using that sub D(4) by simp
    show "i \<in> set (filter (\<lambda>i. mget (pg_edges ?p) i \<noteq> None) (mget0 [] (pg_adj g) (pe_NodeFrom e)))"
      if "mget (pg_edges ?p) i = Some e" for i e
      using that sub D(5) by simp
  qed
qed

section \<open>Properties\<close>

text \<open>However reservations are moved, if the amount of each is given by its tenant, location
  and label and every edge keeps its capacity, the load that the code computes for an edge
  (without rounding) never exceeds 95 percent of its capacity.\<close>

theorem no_overbooking:
  assumes "reachable (\<lambda>reg. reg = []) (registry_step cap S T) reg" and "mget reg i = Some e"
  shows "\<exists>x. loadAndCapacity Fin e = Fin x \<and> x \<le> 19 / 20 * cap i"
proof -
  have "registry_inv cap S T reg"
    by (rule booked.inv_reachable [OF assms(1)])
  then have "reg_wf reg" "reg_amounts S T reg" "load_on S T (booking reg) i \<le> 19 / 20 * cap i"
    using assms(2) by (auto simp: registry_inv_def reg_within_def)
  then show ?thesis
    using loadAndCapacity_load [OF _ _ assms(2)] by blast
qed

text \<open>A registry with one reservation of 10 Mbps on the link from \<open>a\<close> to \<open>b\<close>.\<close>

definition demo_key :: res_key where
  "demo_key = \<lparr>rk_SourcePop = ''a'', rk_SinkPop = ''b'', rk_Label = 5\<rparr>"

definition demo_amounts :: tenant_amounts where
  "demo_amounts t p l = 10"

definition demo_edges :: "pce_edge list" where
  "demo_edges = filter (\<lambda>e. pe_NodeFrom e = ''a'' \<and> pe_NodeTo e = ''b'') (map snd (pg_edges demo_pce))"

definition demo_move :: "pce_edge_id option \<times> registry" where
  "demo_move = Move Fin [] demo_edges 1 (res_of (demo_amounts 1) (demo_amounts 1) demo_key) []"

theorem no_overbooking_witness:
  "\<exists>i e x. mget (snd demo_move) i = Some e \<and> loadAndCapacity Fin e = Fin x \<and> x \<le> 19 / 20 * 100"
proof -
  have "\<forall>e \<in> set demo_edges. Capacity Fin e = Fin 100"
    by code_simp
  then have "registry_step (\<lambda>_. 100) demo_amounts demo_amounts [] (snd demo_move)"
    unfolding demo_move_def
    by (intro registry_move) (auto simp: nonneg_amounts_def demo_amounts_def)
  then have reach: "reachable (\<lambda>reg. reg = []) (registry_step (\<lambda>_. 100) demo_amounts demo_amounts)
      (snd demo_move)"
    using reachable_step [OF reachable_start [of "\<lambda>reg. reg = []" "[]"]] by blast
  have "snd demo_move \<noteq> []"
    by code_simp
  then obtain i e m where "snd demo_move = (i, e) # m"
    by (cases "snd demo_move") auto
  then have "mget (snd demo_move) i = Some e"
    by (simp add: mget_Cons)
  then show ?thesis
    using no_overbooking [OF reach] by blast
qed

text \<open>C9. A move either books the reservation, under its key, on every edge of the new path and
  nowhere else of the old path, leaving every other booking of every tenant as it was, or it
  names an edge that fails the admission check and changes nothing; it succeeds exactly when
  every edge of the new path passes the check. The registry never keeps an empty record.\<close>

theorem Move_refines:
  "(fst (Move r from to t c reg) = None \<longleftrightarrow> (\<forall>e \<in> set to. checkCapacity r reg e t c)) \<and>
   (fst (Move r from to t c reg) = None \<longrightarrow>
      (\<forall>i t' k. booking (snd (Move r from to t c reg)) i t' k =
         (if t' = t \<and> k = rv_Key c \<and> i \<in> pe_ID ` set to then Some c
          else if t' = t \<and> k = rv_Key c \<and> i \<in> set from then None
          else booking reg i t' k))) \<and>
   (\<forall>i. fst (Move r from to t c reg) = Some i \<longrightarrow>
      snd (Move r from to t c reg) = reg \<and>
      (\<exists>e \<in> set to. pe_ID e = i \<and> \<not> checkCapacity r reg e t c)) \<and>
   (reg_wf reg \<longrightarrow> reg_wf (snd (Move r from to t c reg)))"
proof (cases "find (\<lambda>edge. \<not> checkCapacity r reg edge t c) to")
  case None
  then have mv: "Move r from to t c reg =
      (None, fold (bookOn t c) to (fold (releaseOn t (rv_Key c)) from reg))"
    by (simp add: Move_def)
  have "\<forall>e \<in> set to. checkCapacity r reg e t c"
    using None by (simp add: find_None_iff)
  then show ?thesis
    using Move_wf [of reg r "from" to t c]
    by (simp add: mv booking_fold_book booking_fold_release)
next
  case (Some e)
  then have mv: "Move r from to t c reg = (Some (pe_ID e), reg)"
    by (simp add: Move_def)
  have "e \<in> set to" "\<not> checkCapacity r reg e t c"
    using Some by (auto simp: find_Some_iff)
  then show ?thesis by (auto simp: mv)
qed

theorem Move_refines_witness:
  "fst demo_move = None \<and>
   map (\<lambda>e. booking (snd demo_move) (pe_ID e) 1 demo_key) demo_edges =
     map (\<lambda>e. Some (res_of (demo_amounts 1) (demo_amounts 1) demo_key)) demo_edges"
proof -
  have none: "fst demo_move = None"
    by code_simp
  have "rv_Key (res_of (demo_amounts 1) (demo_amounts 1) demo_key) = demo_key"
    by (simp add: res_of_def)
  with none Move_refines [of Fin "[]" demo_edges 1 "res_of (demo_amounts 1) (demo_amounts 1) demo_key" "[]"]
  show ?thesis unfolding demo_move_def [symmetric] by simp
qed




end
