(* ===== verification/Demands.thy ===== *)
theory Demands
  imports Tenants Reservation_Correct
begin

text \<open>
  The demands of the tenants (\<^verbatim>\<open>services/control-plane/pce_demand.go\<close>): per tenant the
  reservations of its sites are summed per point of presence and traffic label, and every
  ordered pair of points with a common label is a demand. Demands are placed in the order
  of their priority.
\<close>

record demand =
  dd_Tenant :: tenant
  dd_Class :: traffic_class
  dd_From :: NodeID
  dd_To :: NodeID
  dd_FromMbps :: f64
  dd_ToMbps :: f64

definition demand_PathKey :: "demand \<Rightarrow> path_key" where
  "demand_PathKey d =
     \<lparr>pk_Tenant = tn_ID (dd_Tenant d), pk_From = dd_From d, pk_To = dd_To d,
      pk_Label = tc_Label (dd_Class d)\<rparr>"

definition demand_BandwidthReservation :: "demand \<Rightarrow> reservation" where
  "demand_BandwidthReservation d =
     \<lparr>rv_Key = \<lparr>rk_SourcePop = dd_From d, rk_SinkPop = dd_To d, rk_Label = tc_Label (dd_Class d)\<rparr>,
      rv_SourceBandwidth = dd_FromMbps d, rv_SinkBandwidth = dd_ToMbps d\<rparr>"

definition isLabelDefault :: "64 word \<Rightarrow> int" where
  "isLabelDefault l = (if l = DefaultClassLabel then 1 else 0)"

section \<open>Aggregation\<close>

type_synonym pop_labels = "(NodeID, (64 word, f64) gomap) gomap"

text \<open>The sum of a site's classes into the labels of its point of presence.\<close>

definition addSiteLabels :: "rounding \<Rightarrow> site \<Rightarrow> pop_labels \<Rightarrow> pop_labels" where
  "addSiteLabels r s pops =
     mput (si_Attach s)
       (fold (\<lambda>(l, mbps) m. mput l (fadd r (mget0 (Fin 0) m l) mbps) m) (si_ClassMbps s)
         (mget0 [] pops (si_Attach s))) pops"

definition popsWithLabels :: "rounding \<Rightarrow> tenant \<Rightarrow> pop_labels" where
  "popsWithLabels r t = fold (addSiteLabels r) (tn_Sites t) []"

section \<open>Demands\<close>

definition labelDemand :: "tenant_repo \<Rightarrow> tenant \<Rightarrow> NodeID \<Rightarrow> NodeID \<Rightarrow> (64 word, f64) gomap \<Rightarrow>
    64 word \<times> f64 \<Rightarrow> demand list" where
  "labelDemand repo t from to toClasses x =
     (case x of (label, fromMbps) \<Rightarrow>
        let toMbps = mget0 (Fin 0) toClasses label
        in if fle fromMbps (Fin 0) \<or> fle toMbps (Fin 0) then []
           else case repo_Class repo label of
                  None \<Rightarrow> []
                | Some class \<Rightarrow>
                    [\<lparr>dd_Tenant = t, dd_Class = class, dd_From = from, dd_To = to,
                      dd_FromMbps = fromMbps, dd_ToMbps = toMbps\<rparr>])"

definition tenantDemands :: "rounding \<Rightarrow> tenant_repo \<Rightarrow> tenant \<Rightarrow> demand list" where
  "tenantDemands r repo t =
     (let pops = popsWithLabels r t
      in concat (map (\<lambda>(from, fromClasses).
           concat (map (\<lambda>(to, toClasses).
             if from = to then []
             else concat (map (labelDemand repo t from to toClasses) fromClasses)) pops)) pops))"

text \<open>The order of placement; the name of the class does not occur in it.\<close>

definition demandOrder :: "demand \<Rightarrow> int \<times> int \<times> int \<times> int \<times> string \<times> string" where
  "demandOrder d =
     (isLabelDefault (tc_Label (dd_Class d)), - tn_TierIndex (dd_Tenant d), - tc_Index (dd_Class d),
      tn_ID (dd_Tenant d), dd_From d, dd_To d)"

definition BuildDemands :: "rounding \<Rightarrow> tenant_repo \<Rightarrow> demand list" where
  "BuildDemands r repo =
     sort_key demandOrder (concat (map (tenantDemands r repo) (repo_TenantsByPriority repo)))"

section \<open>Amounts\<close>

text \<open>What a tenant reserves at a point of presence under a label.\<close>

definition pop_mbps :: "rounding \<Rightarrow> tenant_repo \<Rightarrow> TenantID \<Rightarrow> NodeID \<Rightarrow> 64 word \<Rightarrow> f64" where
  "pop_mbps r repo tid pop label =
     (case mget (re_byID repo) tid of
        None \<Rightarrow> Fin 0
      | Some t \<Rightarrow> mget0 (Fin 0) (mget0 [] (popsWithLabels r t) pop) label)"

text \<open>The repository as a load leaves it: tenants and classes filed under their keys.\<close>

definition repo_ok :: "tenant_repo \<Rightarrow> bool" where
  "repo_ok repo \<longleftrightarrow> mwf (re_byID repo) \<and> (\<forall>i t. mget (re_byID repo) i = Some t \<longrightarrow> tn_ID t = i) \<and>
     (\<forall>l c. mget (re_classes repo) l = Some c \<longrightarrow>
        tc_Label c = l \<and> (c \<noteq> defaultClass \<longrightarrow> objective_ok (tc_Objective c))) \<and>
     (\<forall>l c l' c'. mget (re_classes repo) l = Some c \<longrightarrow> mget (re_classes repo) l' = Some c' \<longrightarrow>
        tc_Index c = tc_Index c' \<longrightarrow> c = c')"

lemma tenant_Load_repo_ok:
  assumes "tenant_Load r parsePrefix readDB repo = (None, repo')"
  shows "repo_ok repo'"
proof -
  obtain raw :: raw_tenant_db and classes cbn ti st where
    cls: "parseTrafficClasses (rdb_classes raw) = Inr (classes, cbn)" and
    load: "loadTenants r parsePrefix cbn ti (rdb_tenants raw) empty_load = Inr st" and
    repo: "repo' = \<lparr>re_classes = classes, re_byID = ld_byID st, re_byIdentity = ld_byIdentity st,
                       re_byPortalID = ld_byPortalID st, re_byPop = ld_byPop st\<rparr>"
    using tenant_Load_None [OF assms] by blast
  have st: "load_ok st"
    by (rule loadTenants_ok [OF load])
      (simp add: empty_load_def load_ok_def index_ok_def sites_of_def gm.wf_empty mget0_def)
  obtain ct where ct: "tables_ok ct" "ct_byLabel ct = classes"
    using parseTrafficClasses_ok [OF cls] by blast
  have "tc_Label c = l \<and> (c \<noteq> defaultClass \<longrightarrow> objective_ok (tc_Objective c))"
    if "mget classes l = Some c" for l c
    using ct that unfolding tables_ok_def class_ok_def by blast
  moreover have "c = c'" if "mget classes l = Some c" "mget classes l' = Some c'"
    "tc_Index c = tc_Index c'" for l c l' c'
    using tables_ok_same [OF ct(1)] that ct(2) by blast
  moreover have "mwf (ld_byID st) \<and> (\<forall>i t. mget (ld_byID st) i = Some t \<longrightarrow> tn_ID t = i)"
    using st unfolding load_ok_def by blast
  ultimately show ?thesis
    unfolding repo_ok_def repo tenant_repo.simps by blast
qed

lemma fold_label_wf:
  "mwf m \<Longrightarrow> mwf (fold (\<lambda>(l, mbps) m. mput l (fadd r (mget0 (Fin 0) m l) mbps) m) xs m)"
  by (induction xs arbitrary: m) (simp_all add: gm.wf_put case_prod_beta)

lemma mget0_in_range: "mget0 z m k = z \<or> (\<exists>v. mget m k = Some v \<and> mget0 z m k = v)"
  by (cases "mget m k") (auto simp: mget0_def)

lemma popsWithLabels_wf:
  "mwf (popsWithLabels r t) \<and> (\<forall>p m. mget (popsWithLabels r t) p = Some m \<longrightarrow> mwf m)"
proof -
  have "mwf m \<and> (\<forall>p x. mget m p = Some x \<longrightarrow> mwf x) \<Longrightarrow>
    mwf (fold (addSiteLabels r) ss m) \<and>
    (\<forall>p x. mget (fold (addSiteLabels r) ss m) p = Some x \<longrightarrow> mwf x)" for ss m
  proof (induction ss arbitrary: m)
    case (Cons s ss)
    have "mwf (mget0 [] m (si_Attach s))"
      using Cons.prems by (cases "mget m (si_Attach s)") (auto simp: mget0_def gm.wf_empty)
    then have "mwf (addSiteLabels r s m) \<and> (\<forall>p x. mget (addSiteLabels r s m) p = Some x \<longrightarrow> mwf x)"
      using Cons.prems by (simp add: addSiteLabels_def gm.wf_put fold_label_wf)
    then show ?case using Cons.IH by simp
  qed simp
  from this [of "[]" "tn_Sites t"] show ?thesis
    by (simp add: popsWithLabels_def gm.wf_empty)
qed

lemma in_tenantDemands:
  "d \<in> set (tenantDemands r repo t) \<longleftrightarrow>
   (\<exists>fc tc. (dd_From d, fc) \<in> set (popsWithLabels r t) \<and> (dd_To d, tc) \<in> set (popsWithLabels r t) \<and>
      dd_From d \<noteq> dd_To d \<and> dd_Tenant d = t \<and>
      (\<exists>label. (label, dd_FromMbps d) \<in> set fc \<and> dd_ToMbps d = mget0 (Fin 0) tc label \<and>
         \<not> fle (dd_FromMbps d) (Fin 0) \<and> \<not> fle (dd_ToMbps d) (Fin 0) \<and>
         repo_Class repo label = Some (dd_Class d)))"
proof -
  have lab: "d \<in> set (labelDemand repo t from to tc (label, fm)) \<longleftrightarrow>
     dd_Tenant d = t \<and> dd_From d = from \<and> dd_To d = to \<and> dd_FromMbps d = fm \<and>
     dd_ToMbps d = mget0 (Fin 0) tc label \<and> \<not> fle fm (Fin 0) \<and>
     \<not> fle (mget0 (Fin 0) tc label) (Fin 0) \<and> repo_Class repo label = Some (dd_Class d)"
    for "from" to tc label fm
    by (cases d) (auto simp: labelDemand_def Let_def split: option.splits)
  have ten: "d \<in> set (tenantDemands r repo t) \<longleftrightarrow>
     (\<exists>from fc to tc label fm. (from, fc) \<in> set (popsWithLabels r t) \<and>
        (to, tc) \<in> set (popsWithLabels r t) \<and> from \<noteq> to \<and> (label, fm) \<in> set fc \<and>
        d \<in> set (labelDemand repo t from to tc (label, fm)))"
    unfolding tenantDemands_def Let_def by (simp add: case_prod_beta' Bex_def split: if_splits)
  show ?thesis unfolding ten lab by (simp cong: conj_cong) blast
qed

lemma in_set_map_get: "mwf m \<Longrightarrow> (k, v) \<in> set m \<longleftrightarrow> mget m k = Some v"
  by (rule gm.entries_get)

lemma set_repo_TenantsByPriority:
  assumes "repo_ok repo"
  shows "t \<in> set (repo_TenantsByPriority repo) \<longleftrightarrow> mget (re_byID repo) (tn_ID t) = Some t"
proof -
  have "t \<in> set (repo_TenantsByPriority repo) \<longleftrightarrow> (\<exists>i. (i, t) \<in> set (re_byID repo))"
    by (simp add: repo_TenantsByPriority_def repo_Tenants_def image_iff Bex_def)
  also have "\<dots> \<longleftrightarrow> (\<exists>i. mget (re_byID repo) i = Some t)"
    using assms by (simp add: repo_ok_def in_set_map_get)
  also have "\<dots> \<longleftrightarrow> mget (re_byID repo) (tn_ID t) = Some t"
    using assms by (auto simp: repo_ok_def)
  finally show ?thesis .
qed

text \<open>Exactly the pairs of distinct points with amounts above zero under a known label.\<close>

lemma in_BuildDemands:
  assumes ok: "repo_ok repo"
  shows "d \<in> set (BuildDemands r repo) \<longleftrightarrow>
    mget (re_byID repo) (tn_ID (dd_Tenant d)) = Some (dd_Tenant d) \<and> dd_From d \<noteq> dd_To d \<and>
    repo_Class repo (tc_Label (dd_Class d)) = Some (dd_Class d) \<and>
    dd_FromMbps d = pop_mbps r repo (tn_ID (dd_Tenant d)) (dd_From d) (tc_Label (dd_Class d)) \<and>
    dd_ToMbps d = pop_mbps r repo (tn_ID (dd_Tenant d)) (dd_To d) (tc_Label (dd_Class d)) \<and>
    \<not> fle (dd_FromMbps d) (Fin 0) \<and> \<not> fle (dd_ToMbps d) (Fin 0)"
    (is "?l \<longleftrightarrow> ?r")
proof -
  let ?t = "dd_Tenant d"
  let ?w = "popsWithLabels r ?t"
  have l: "?l \<longleftrightarrow> mget (re_byID repo) (tn_ID ?t) = Some ?t \<and> d \<in> set (tenantDemands r repo ?t)"
    using set_repo_TenantsByPriority [OF ok]
    by (auto simp: BuildDemands_def in_tenantDemands)
  have wf: "mwf ?w" "\<And>p m. mget ?w p = Some m \<Longrightarrow> mwf m"
    using popsWithLabels_wf by blast+
  have lab: "repo_Class repo label = Some c \<Longrightarrow> tc_Label c = label" for label c
    using ok by (simp add: repo_ok_def repo_Class_def)
  have pop: "pop_mbps r repo (tn_ID ?t) p label = mget0 (Fin 0) (mget0 [] ?w p) label"
    if "mget (re_byID repo) (tn_ID ?t) = Some ?t" for p label
    using that by (simp add: pop_mbps_def)
  have get: "mget0 (Fin 0) (mget0 [] ?w p) label = x \<longleftrightarrow>
      (\<exists>m. (p, m) \<in> set ?w \<and> mget0 (Fin 0) m label = x)" if "\<not> fle x (Fin 0)" for p label x
    using that by (auto simp: in_set_map_get [OF wf(1)] mget0_def split: option.splits)
  have get': "(\<exists>m. (p, m) \<in> set ?w \<and> mget0 (Fin 0) m label = x) \<longleftrightarrow>
      (\<exists>m. (p, m) \<in> set ?w \<and> (label, x) \<in> set m)" if "\<not> fle x (Fin 0)" for p label x
    using that wf(2) by (auto simp: in_set_map_get [OF wf(1)] in_set_map_get mget0_def split: option.splits)
  show ?thesis
    unfolding l in_tenantDemands using pop get get' lab by (smt (verit))
qed

section \<open>Demands are distinct\<close>

lemma in_concat_mapD: "y \<in> set (concat (map f xs)) \<Longrightarrow> \<exists>x. y \<in> set (f x)"
  by auto

lemma distinct_concat_tag:
  assumes "distinct (map tag xs)"
    and "\<And>x. x \<in> set xs \<Longrightarrow> distinct (f x)" and "\<And>x y. x \<in> set xs \<Longrightarrow> y \<in> set (f x) \<Longrightarrow> g y = tag x"
  shows "distinct (concat (map f xs))"
  using assms
proof (induction xs)
  case (Cons x xs)
  have "set (f x) \<inter> set (concat (map f xs)) = {}"
  proof (rule ccontr)
    assume "set (f x) \<inter> set (concat (map f xs)) \<noteq> {}"
    then obtain y z where "y \<in> set (f x)" "z \<in> set xs" "y \<in> set (f z)" by auto
    then have "tag x = tag z" using Cons.prems(3) [of x y] Cons.prems(3) [of z y] by simp
    with \<open>z \<in> set xs\<close> Cons.prems(1) show False by auto
  qed
  then show ?case using Cons by simp
qed simp

lemma labelDemand_key:
  "repo_ok repo \<Longrightarrow> y \<in> set (map demand_PathKey (labelDemand repo t from to tc x)) \<Longrightarrow>
   pk_Label y = fst x \<and> pk_To y = to \<and> pk_From y = from \<and> pk_Tenant y = tn_ID t"
  by (auto simp: labelDemand_def demand_PathKey_def repo_ok_def repo_Class_def Let_def
      split: prod.splits if_splits option.splits)

lemma tenantDemands_distinct:
  assumes ok: "repo_ok repo"
  shows "distinct (map demand_PathKey (tenantDemands r repo t))"
    and "y \<in> set (map demand_PathKey (tenantDemands r repo t)) \<Longrightarrow> pk_Tenant y = tn_ID t"
proof -
  let ?w = "popsWithLabels r t"
  have wf: "distinct (map fst ?w)" "\<And>p m. (p, m) \<in> set ?w \<Longrightarrow> distinct (map fst m)"
    using popsWithLabels_wf [of r t] by (auto simp: mwf_def [symmetric] dest: in_set_mget)
  let ?f = "\<lambda>from fc to tc. if from = to then []
      else concat (map (map demand_PathKey \<circ> labelDemand repo t from to tc) fc)"
  have eq: "map demand_PathKey (tenantDemands r repo t) =
      concat (map (\<lambda>x. concat (map (\<lambda>y. ?f (fst x) (snd x) (fst y) (snd y)) ?w)) ?w)"
    by (simp add: tenantDemands_def Let_def map_concat comp_def case_prod_beta'
        if_distrib [of "map demand_PathKey"] cong: map_cong if_cong)
  have key: "pk_Label y = fst x \<and> pk_To y = to \<and> pk_From y = from \<and> pk_Tenant y = tn_ID t"
    if "y \<in> set ((map demand_PathKey \<circ> labelDemand repo t from to tc) x)" for y x "from" to tc
    using labelDemand_key [OF ok, of y t "from" to tc x] that by simp
  have f: "distinct (?f from fc to tc)" if "(from, fc) \<in> set ?w" for "from" fc to tc
  proof -
    have "distinct ((map demand_PathKey \<circ> labelDemand repo t from to tc) x)" for x
      by (auto simp: labelDemand_def Let_def split: prod.splits option.splits)
    then have "distinct (concat (map (map demand_PathKey \<circ> labelDemand repo t from to tc) fc))"
      by (intro distinct_concat_tag [OF wf(2) [OF that], where g = pk_Label]) (use key in blast)+
    then show ?thesis by simp
  qed
  have fk: "pk_To y = to \<and> pk_From y = from \<and> pk_Tenant y = tn_ID t"
    if y: "y \<in> set (?f from fc to tc)" for y "from" fc to tc
  proof (cases "from = to")
    case False
    then obtain x where "y \<in> set ((map demand_PathKey \<circ> labelDemand repo t from to tc) x)"
      using y by (auto simp del: comp_apply)
    from key [OF this] show ?thesis by simp
  qed (use y in simp)
  let ?g = "\<lambda>x. concat (map (\<lambda>y. ?f (fst x) (snd x) (fst y) (snd y)) ?w)"
  have g: "pk_From y = fst x \<and> pk_Tenant y = tn_ID t" if "y \<in> set (?g x)" for x y
  proof -
    obtain z where "y \<in> set (?f (fst x) (snd x) (fst z) (snd z))"
      using in_concat_mapD [OF \<open>y \<in> set (?g x)\<close>] by blast
    from fk [OF this] show ?thesis by simp
  qed
  show "distinct (map demand_PathKey (tenantDemands r repo t))"
    unfolding eq
  proof (rule distinct_concat_tag [OF wf(1), where g = pk_From])
    show "pk_From y = fst x" if "y \<in> set (?g x)" for x y
      using g [OF that] by simp
    show "distinct (?g x)" if x: "x \<in> set ?w" for x
    proof (rule distinct_concat_tag [OF wf(1), where g = pk_To])
      show "distinct (?f (fst x) (snd x) (fst z) (snd z))" for z
        using f [of "fst x" "snd x"] x by simp
      show "pk_To y = fst z" if "y \<in> set (?f (fst x) (snd x) (fst z) (snd z))" for y z
        using fk [OF that] by simp
    qed
  qed
  show "pk_Tenant y = tn_ID t" if y: "y \<in> set (map demand_PathKey (tenantDemands r repo t))"
  proof -
    obtain x where "y \<in> set (?g x)"
      using in_concat_mapD [OF y [unfolded eq]] by blast
    from g [OF this] show ?thesis by simp
  qed
qed

lemma BuildDemands_distinct:
  assumes ok: "repo_ok repo"
  shows "distinct (map demand_PathKey (BuildDemands r repo))"
proof -
  let ?ts = "repo_TenantsByPriority repo"
  have "mset (map tn_ID ?ts) = mset (map (tn_ID \<circ> snd) (re_byID repo))"
    by (simp only: repo_TenantsByPriority_def repo_Tenants_def mset_map mset_sort image_mset.compositionality)
  moreover have "map (tn_ID \<circ> snd) (re_byID repo) = map fst (re_byID repo)"
  proof (rule map_cong [OF refl])
    fix x assume x: "x \<in> set (re_byID repo)"
    have "mwf (re_byID repo)" using ok unfolding repo_ok_def by blast
    then have "mget (re_byID repo) (fst x) = Some (snd x)"
      by (rule in_set_mget) (simp add: x)
    with ok have "tn_ID (snd x) = fst x" unfolding repo_ok_def by blast
    then show "(tn_ID \<circ> snd) x = fst x" by simp
  qed
  ultimately have ids: "distinct (map tn_ID ?ts)"
  proof -
    assume eq: "mset (map tn_ID ?ts) = mset (map (tn_ID \<circ> snd) (re_byID repo))"
      "map (tn_ID \<circ> snd) (re_byID repo) = map fst (re_byID repo)"
    have "distinct (map fst (re_byID repo))" using ok unfolding repo_ok_def mwf_def by blast
    with mset_eq_imp_distinct_iff [OF eq(1)] eq(2) show ?thesis by simp
  qed
  have "distinct (concat (map (\<lambda>t. map demand_PathKey (tenantDemands r repo t)) ?ts))"
    by (rule distinct_concat_tag [OF ids, where g = pk_Tenant]) (erule tenantDemands_distinct [OF ok] | rule tenantDemands_distinct [OF ok])+
  then have "distinct (map demand_PathKey (concat (map (tenantDemands r repo) ?ts)))"
    by (simp add: map_concat comp_def)
  then show ?thesis
    by (simp add: BuildDemands_def distinct_map)
qed

text \<open>The order of placement tells the demands of a loaded repository apart, so that it does
  not depend on the order in which the maps were visited.\<close>

lemma demandOrder_inj:
  assumes ok: "repo_ok repo"
  shows "inj_on demandOrder (set (BuildDemands r repo))"
proof (rule inj_onI)
  fix d d' assume d: "d \<in> set (BuildDemands r repo)" "d' \<in> set (BuildDemands r repo)"
    and eq: "demandOrder d = demandOrder d'"
  have "mget (re_classes repo) (tc_Label (dd_Class d)) = Some (dd_Class d)"
    "mget (re_classes repo) (tc_Label (dd_Class d')) = Some (dd_Class d')"
    using d unfolding in_BuildDemands [OF ok] repo_Class_def by blast+
  moreover have "tc_Index (dd_Class d) = tc_Index (dd_Class d')"
    using eq by (simp add: demandOrder_def)
  ultimately have "dd_Class d = dd_Class d'"
    using ok unfolding repo_ok_def by blast
  moreover have "tn_ID (dd_Tenant d) = tn_ID (dd_Tenant d')" "dd_From d = dd_From d'" "dd_To d = dd_To d'"
    using eq by (simp_all add: demandOrder_def)
  ultimately have "demand_PathKey d = demand_PathKey d'"
    by (simp add: demand_PathKey_def)
  then show "d = d'"
    using BuildDemands_distinct [OF ok] d by (auto simp: distinct_map dest: inj_onD)
qed

lemma sorted_strict:
  assumes "sorted (map f xs)" and "distinct xs" and "inj_on f (set xs)"
  shows "sorted_wrt (<) (map f xs)"
  using assms by (simp add: strict_sorted_iff distinct_map)

lemma BuildDemands_strict:
  assumes ok: "repo_ok repo"
  shows "sorted_wrt (<) (map demandOrder (BuildDemands r repo))"
proof (rule sorted_strict)
  show "sorted (map demandOrder (BuildDemands r repo))"
    by (simp add: BuildDemands_def)
  show "distinct (BuildDemands r repo)"
    using BuildDemands_distinct [OF ok] by (auto simp: distinct_map)
qed (rule demandOrder_inj [OF ok])

section \<open>Amounts without rounding\<close>

text \<open>What the sites of a tenant at a point of presence reserve under a label.\<close>

definition sites_mbps :: "site list \<Rightarrow> NodeID \<Rightarrow> 64 word \<Rightarrow> rat" where
  "sites_mbps ss pop l =
     sum_list (map (\<lambda>s. fin_val (mget0 (Fin 0) (si_ClassMbps s) l))
       (filter (\<lambda>s. si_Attach s = pop) ss))"

definition site_finite :: "site \<Rightarrow> bool" where
  "site_finite s \<longleftrightarrow> mwf (si_ClassMbps s) \<and> (\<forall>(l, v) \<in> set (si_ClassMbps s). v = Fin (fin_val v))"

lemma fold_label_get:
  assumes "mwf xs" and "\<forall>(l, v) \<in> set xs. v = Fin (fin_val v)" and "mget0 (Fin 0) m l = Fin a"
  shows "mget0 (Fin 0) (fold (\<lambda>(l, mbps) m. mput l (fadd Fin (mget0 (Fin 0) m l) mbps) m) xs m) l =
    Fin (a + fin_val (mget0 (Fin 0) xs l))"
  using assms
proof (induction xs arbitrary: m a)
  case Nil
  then show ?case by (simp add: mget0_def fin_val_def mget_def)
next
  case (Cons p xs)
  obtain k x where p: "p = (k, Fin x)" using Cons.prems(2) by (cases p) auto
  have wf: "mwf xs" "k \<notin> fst ` set xs" using Cons.prems(1) by (simp_all add: p mwf_Cons)
  show ?case
  proof (cases "k = l")
    case True
    have "mget0 (Fin 0) xs l = Fin 0"
      using wf(2) True by (simp add: mget0_def mget_None_fst [symmetric] split: option.split)
    then show ?thesis
      using Cons.IH [OF wf(1), of "mput k (fadd Fin (mget0 (Fin 0) m k) (Fin x)) m" "a + x"] Cons.prems True
      by (simp add: p mget0_def mget_Cons fin_val_def)
  next
    case False
    then show ?thesis
      using Cons.IH [OF wf(1), of "mput k (fadd Fin (mget0 (Fin 0) m k) (Fin x)) m" a] Cons.prems
      by (simp add: p mget0_def mget_Cons)
  qed
qed

lemma addSiteLabels_get:
  assumes "site_finite s" and "mget0 (Fin 0) (mget0 [] m pop) l = Fin a"
  shows "mget0 (Fin 0) (mget0 [] (addSiteLabels Fin s m) pop) l = Fin (a + sites_mbps [s] pop l)"
  using assms fold_label_get [of "si_ClassMbps s" "mget0 [] m pop" l a]
  by (cases "si_Attach s = pop") (simp_all add: addSiteLabels_def sites_mbps_def site_finite_def)

lemma popsWithLabels_get:
  assumes "\<forall>s \<in> set (tn_Sites t). site_finite s"
  shows "mget0 (Fin 0) (mget0 [] (popsWithLabels Fin t) pop) l = Fin (sites_mbps (tn_Sites t) pop l)"
proof -
  have "\<forall>s \<in> set ss. site_finite s \<Longrightarrow> mget0 (Fin 0) (mget0 [] m pop) l = Fin a \<Longrightarrow>
    mget0 (Fin 0) (mget0 [] (fold (addSiteLabels Fin) ss m) pop) l = Fin (a + sites_mbps ss pop l)"
    for ss m a
  proof (induction ss arbitrary: m a)
    case (Cons s ss)
    then show ?case
      using Cons.IH [of "addSiteLabels Fin s m" "a + sites_mbps [s] pop l"] addSiteLabels_get [of s m pop l a]
      by (simp add: sites_mbps_def)
  qed (simp add: sites_mbps_def)
  from this [of "tn_Sites t" "[]" 0] assms show ?thesis
    by (simp add: popsWithLabels_def mget0_def)
qed

lemma pop_mbps_sites:
  assumes "mget (re_byID repo) i = Some t" and "\<forall>s \<in> set (tn_Sites t). site_finite s"
  shows "pop_mbps Fin repo i pop l = Fin (sites_mbps (tn_Sites t) pop l)"
  using assms popsWithLabels_get by (simp add: pop_mbps_def)

section \<open>Properties\<close>

text \<open>C39. From a loaded repository whose sites reserve finite amounts, the demands, in arithmetic without
  rounding, are exactly one for every tenant, ordered pair of distinct points of presence and known
  label under which the sites of the tenant reserve more than zero at both points, with the sums of
  these reservations as its two amounts. No two demands have the same path key, and the list is
  strictly ordered: named classes before the default one, then higher tiers, then higher class
  indexes, then tenant and points; so the result does not depend on the order of map iteration.\<close>

theorem BuildDemands_correct:
  assumes "tenant_Load Fin parsePrefix readDB old = (None, repo)"
    and "\<forall>i t. mget (re_byID repo) i = Some t \<longrightarrow> (\<forall>s \<in> set (tn_Sites t). site_finite s)"
  shows "(d \<in> set (BuildDemands Fin repo) \<longleftrightarrow>
      mget (re_byID repo) (tn_ID (dd_Tenant d)) = Some (dd_Tenant d) \<and> dd_From d \<noteq> dd_To d \<and>
      mget (re_classes repo) (tc_Label (dd_Class d)) = Some (dd_Class d) \<and>
      dd_FromMbps d = Fin (sites_mbps (tn_Sites (dd_Tenant d)) (dd_From d) (tc_Label (dd_Class d))) \<and>
      dd_ToMbps d = Fin (sites_mbps (tn_Sites (dd_Tenant d)) (dd_To d) (tc_Label (dd_Class d))) \<and>
      flt (Fin 0) (dd_FromMbps d) \<and> flt (Fin 0) (dd_ToMbps d)) \<and>
    distinct (map demand_PathKey (BuildDemands Fin repo)) \<and>
    sorted_wrt (<) (map demandOrder (BuildDemands Fin repo))"
proof (intro conjI)
  have ok: "repo_ok repo" by (rule tenant_Load_repo_ok [OF assms(1)])
  show "distinct (map demand_PathKey (BuildDemands Fin repo))" by (rule BuildDemands_distinct [OF ok])
  show "sorted_wrt (<) (map demandOrder (BuildDemands Fin repo))" by (rule BuildDemands_strict [OF ok])
  have mb: "pop_mbps Fin repo (tn_ID t) pop l = Fin (sites_mbps (tn_Sites t) pop l)"
    if "mget (re_byID repo) (tn_ID t) = Some t" for t pop l
    by (rule pop_mbps_sites [OF that]) (use assms(2) that in blast)
  show "d \<in> set (BuildDemands Fin repo) \<longleftrightarrow>
      mget (re_byID repo) (tn_ID (dd_Tenant d)) = Some (dd_Tenant d) \<and> dd_From d \<noteq> dd_To d \<and>
      mget (re_classes repo) (tc_Label (dd_Class d)) = Some (dd_Class d) \<and>
      dd_FromMbps d = Fin (sites_mbps (tn_Sites (dd_Tenant d)) (dd_From d) (tc_Label (dd_Class d))) \<and>
      dd_ToMbps d = Fin (sites_mbps (tn_Sites (dd_Tenant d)) (dd_To d) (tc_Label (dd_Class d))) \<and>
      flt (Fin 0) (dd_FromMbps d) \<and> flt (Fin 0) (dd_ToMbps d)"
  proof (cases "mget (re_byID repo) (tn_ID (dd_Tenant d)) = Some (dd_Tenant d)")
    case True
    show ?thesis
      unfolding in_BuildDemands [OF ok] mb [OF True] repo_Class_def by (auto simp: not_le)
  qed (simp add: in_BuildDemands [OF ok])
qed

theorem BuildDemands_correct_witness:
  "distinct (map demand_PathKey (BuildDemands Fin (snd demo_load))) \<and>
   map (\<lambda>d. (pk_Tenant (demand_PathKey d), tc_Label (dd_Class d))) (BuildDemands Fin (snd demo_load)) =
     [(1, 5), (1, 5), (2, 5), (2, 5), (1, 0), (1, 0), (2, 0), (2, 0)]"
proof -
  have *: "fst demo_load = None"
    "\<forall>x \<in> set (re_byID (snd demo_load)). \<forall>s \<in> set (tn_Sites (snd x)). site_finite s"
    "map (\<lambda>d. (pk_Tenant (demand_PathKey d), tc_Label (dd_Class d))) (BuildDemands Fin (snd demo_load)) =
     [(1, 5), (1, 5), (2, 5), (2, 5), (1, 0), (1, 0), (2, 0), (2, 0)]"
    by code_simp+
  have "tenant_Load Fin demo_parse (Some demo_db) empty_repo = (None, snd demo_load)"
    using *(1) unfolding demo_load_def by (metis prod.collapse)
  moreover have "\<forall>i t. mget (re_byID (snd demo_load)) i = Some t \<longrightarrow> (\<forall>s \<in> set (tn_Sites t). site_finite s)"
    using *(2) by (force dest: mget_in_set)
  ultimately show ?thesis
    using BuildDemands_correct *(3) by blast
qed

end
