(* ===== verification/Pce.thy ===== *)
theory Pce
  imports Demands
begin

text \<open>
  The path computation engine (\<^verbatim>\<open>services/control-plane/pce.go\<close>, \<^verbatim>\<open>pce_report.go\<close>): the tick
  that marks silent links as down, prices the reserved bandwidth, places every demand on the
  cheapest path with room for it, and decides whether a path that differs from the one in
  use replaces it. The engine's state is the record \<open>pce\<close>; a tick is a function of the state,
  the topology, the tenants and the times at which the code reads the clock. None is a tick
  that does not return.
\<close>

section \<open>Reports\<close>

datatype path_change_kind =
    PathChangeRerouted | PathChangeGated | PathChangeHeldDown | PathChangeNew | PathChangeLinkDown

record cause =
  ca_Edge :: EdgeID
  ca_Dim :: CostDimension
  ca_Was :: f64
  ca_Now :: f64
  ca_Delta :: f64
  ca_Share :: f64

record reroute =
  rr_At :: time
  rr_Tenant :: TenantID
  rr_Label :: "64 word"
  rr_Src :: NodeID
  rr_Dst :: NodeID
  rr_Kind :: path_change_kind
  rr_FromPath :: path
  rr_ToPath :: path
  rr_Causes :: "cause list"

definition emptyPath :: path where
  "emptyPath = \<lparr>p_Nodes = [], p_Edges = [], p_Links = [], p_Cost = Fin 0, p_Label = 0\<rparr>"

definition causeShareFloor :: "rounding \<Rightarrow> f64" where
  "causeShareFloor r = r (1 / 20)"

text \<open>The causes on one hop, and on all hops of the path.\<close>

fun hopCauses :: "rounding \<Rightarrow> CostDimension \<Rightarrow> (cost_key, cost) gomap \<Rightarrow> (cost_key \<times> cost) list \<Rightarrow>
    cause list \<times> f64 \<Rightarrow> cause list \<times> f64" where
  "hopCauses r dm now [] acc = acc"
| "hopCauses r dm now ((key, prev) # hops) acc =
     (case mget now key of
        None \<Rightarrow> hopCauses r dm now hops acc
      | Some current \<Rightarrow>
          (let delta = fsub r (mget0 (Fin 0) current dm) (mget0 (Fin 0) prev dm)
           in if fle delta (Fin 0) then hopCauses r dm now hops acc
              else hopCauses r dm now hops
                (fst acc @ [\<lparr>ca_Edge = ck_ID key, ca_Dim = dm, ca_Was = mget0 (Fin 0) prev dm,
                    ca_Now = mget0 (Fin 0) current dm, ca_Delta = delta, ca_Share = Fin 0\<rparr>],
                 fadd r (snd acc) delta)))"

fun pathCauses :: "rounding \<Rightarrow> CostDimension \<Rightarrow> (cost_key, cost) gomap \<Rightarrow> (cost_key, cost) gomap \<Rightarrow>
    NodeID list \<Rightarrow> cause list \<times> f64 \<Rightarrow> cause list \<times> f64" where
  "pathCauses r dm was now (n # m # ns) acc =
     pathCauses r dm was now (m # ns) (hopCauses r dm now (CostsBetween was n m) acc)"
| "pathCauses r dm was now _ acc = acc"

text \<open>
  Sorting by falling delta. The insertion is that of the library's sort for short slices;
  the sorted prefix is kept in reverse.
\<close>

fun insertCause :: "cause \<Rightarrow> cause list \<Rightarrow> cause list" where
  "insertCause c [] = [c]"
| "insertCause c (d # ds) =
     (if flt (ca_Delta d) (ca_Delta c) then d # insertCause c ds else c # d # ds)"

definition sortCauses :: "cause list \<Rightarrow> cause list" where
  "sortCauses cs = rev (fold insertCause cs [])"

definition attributeCauses :: "rounding \<Rightarrow> path \<Rightarrow> CostDimension \<Rightarrow> (cost_key, cost) gomap \<Rightarrow>
    (cost_key, cost) gomap \<Rightarrow> cause list" where
  "attributeCauses r from dm was now =
     (if was = [] then []
      else
        let (causes, total) = pathCauses r dm was now (p_Nodes from) ([], Fin 0)
        in if fle total (Fin 0) then []
           else sortCauses (filter (\<lambda>c. \<not> flt (ca_Share c) (causeShareFloor r))
                  (map (\<lambda>c. c\<lparr>ca_Share := fdiv r (ca_Delta c) total\<rparr>) causes)))"

definition recentPathChangeLimit :: nat where
  "recentPathChangeLimit = 64"

text \<open>\<^verbatim>\<open>PathChangeStore.Record\<close>.\<close>

definition recordChanges :: "reroute list \<Rightarrow> reroute list \<Rightarrow> reroute list" where
  "recordChanges changes store =
     (if changes = [] then store else take recentPathChangeLimit (changes @ store))"

section \<open>Costs and link states\<close>

definition updateStaticEdge :: "rounding \<Rightarrow> f64 \<Rightarrow> edge \<Rightarrow> cost_graph \<Rightarrow> cost_graph" where
  "updateStaticEdge r reserved e cg =
     (let capacity = fmul r (ed_Bandwidth e) (r (19 / 20));
          cost = (if flt (Fin 0) capacity then staticUtilizationCost r (fdiv r reserved capacity)
                  else PInf)
      in UpdateCost (ed_ID e) COSTDIM_STATIC_UTILIZATION cost cg)"

definition updateStaticBandwidthUtilizationCost :: "rounding \<Rightarrow> registry \<Rightarrow> pce_graph \<Rightarrow> cost_graph \<Rightarrow>
    cost_graph" where
  "updateStaticBandwidthUtilizationCost r reg g cg =
     (let reserved = ReservedMap r reg
      in fold (\<lambda>(i, edge) cg. fold (updateStaticEdge r (mget0 (Fin 0) reserved i)) (pe_RealEdges edge) cg)
           (pg_edges g) cg)"

definition defaultClassObjective :: "(CostDimension, f64) gomap" where
  "defaultClassObjective = [(COSTDIM_STATIC_UTILIZATION, Fin 1)]"

definition ClassObjective :: "traffic_class option \<Rightarrow> (CostDimension, f64) gomap" where
  "ClassObjective class =
     (case class of
        None \<Rightarrow> defaultClassObjective
      | Some c \<Rightarrow> if tc_Label c = DefaultClassLabel then defaultClassObjective else tc_Objective c)"

definition linkStaleAfter :: duration where
  "linkStaleAfter = 15 * second"

definition linkState :: "(EdgeID, time) gomap \<Rightarrow> time \<Rightarrow> edge \<Rightarrow> edge" where
  "linkState lastSeen now edge =
     (case mget lastSeen (ed_ID edge) of
        None \<Rightarrow> edge
      | Some seenAt \<Rightarrow> edge\<lparr>ed_Up := time_sub now seenAt < linkStaleAfter\<rparr>)"

definition updateLinkStates :: "cost_graph \<Rightarrow> time \<Rightarrow> graph \<Rightarrow> graph" where
  "updateLinkStates cg now g =
     g\<lparr>gr_edges := map (\<lambda>(i, e). (i, linkState (cg_lastSeen cg) now e)) (gr_edges g)\<rparr>"

fun rescoreLoop :: "rounding \<Rightarrow> objective \<Rightarrow> pce_graph \<Rightarrow> (cost_key, cost) gomap \<Rightarrow> pce_edge_id list \<Rightarrow>
    f64 \<Rightarrow> f64" where
  "rescoreLoop r obj g costs [] totalCost = totalCost"
| "rescoreLoop r obj g costs (i # is) totalCost =
     (case mget (pg_edges g) i of
        None \<Rightarrow> PInf
      | Some edge \<Rightarrow>
          rescoreLoop r obj g costs is (fadd r totalCost (obj edge (pce_edge_Cost costs edge))))"

definition rescorePath :: "rounding \<Rightarrow> path \<Rightarrow> objective \<Rightarrow> pce_graph \<Rightarrow> (cost_key, cost) gomap \<Rightarrow> f64" where
  "rescorePath r p obj g costs = rescoreLoop r obj g costs (p_Edges p) (Fin 0)"

section \<open>One demand\<close>

record tick_state =
  tk_costGraph :: cost_graph
  tk_reg :: registry
  tk_previous :: path_set
  tk_paths :: path_set
  tk_lastReroute :: "(path_key, time) gomap"
  tk_reroutes :: "reroute list"
  tk_gated :: "reroute list"

text \<open>What a tick holds fixed while it walks through the demands.\<close>

record tick_env =
  tv_graph :: pce_graph
  tv_snapshot :: "(cost_key, cost) gomap"
  tv_previousCosts :: "(cost_key, cost) gomap"
  tv_holdDown :: duration
  tv_now :: time

definition reportOf :: "tick_env \<Rightarrow> demand \<Rightarrow> path_change_kind \<Rightarrow> path \<Rightarrow> path \<Rightarrow> cause list \<Rightarrow> reroute" where
  "reportOf v d kind from to causes =
     \<lparr>rr_At = tv_now v, rr_Tenant = tn_ID (dd_Tenant d), rr_Label = tc_Label (dd_Class d),
      rr_Src = dd_From d, rr_Dst = dd_To d, rr_Kind = kind, rr_FromPath = from, rr_ToPath = to,
      rr_Causes = causes\<rparr>"

text \<open>The first path of a demand: booked on its edges, then stored.\<close>

definition firstPath :: "rounding \<Rightarrow> tick_env \<Rightarrow> demand \<Rightarrow> path \<Rightarrow> pce_edge list \<Rightarrow> tick_state \<Rightarrow> tick_state" where
  "firstPath r v d computed edges st =
     (case Move r [] edges (tn_ID (dd_Tenant d)) (demand_BandwidthReservation d) (tk_reg st) of
        (Some _, _) \<Rightarrow> st
      | (None, reg) \<Rightarrow>
          st\<lparr>tk_reg := reg,
             tk_costGraph := updateStaticBandwidthUtilizationCost r reg (tv_graph v) (tk_costGraph st),
             tk_reroutes := tk_reroutes st @ [reportOf v d PathChangeNew emptyPath computed []],
             tk_paths := mput (demand_PathKey d) computed (tk_paths st)\<rparr>)"

text \<open>The replacement of a path: the reservation moves, then the new path is stored.\<close>

definition reroutePath :: "rounding \<Rightarrow> tick_env \<Rightarrow> demand \<Rightarrow> path \<Rightarrow> path \<Rightarrow> bool \<Rightarrow> pce_edge list \<Rightarrow>
    cause list \<Rightarrow> tick_state \<Rightarrow> tick_state" where
  "reroutePath r v d prev computed broken edges causes st =
     (case Move r (p_Edges prev) edges (tn_ID (dd_Tenant d)) (demand_BandwidthReservation d) (tk_reg st) of
        (Some _, _) \<Rightarrow> st
      | (None, reg) \<Rightarrow>
          st\<lparr>tk_reg := reg,
             tk_costGraph := updateStaticBandwidthUtilizationCost r reg (tv_graph v) (tk_costGraph st),
             tk_reroutes := tk_reroutes st @
               [reportOf v d (if broken then PathChangeLinkDown else PathChangeRerouted) prev computed causes],
             tk_lastReroute := mput (demand_PathKey d) (tv_now v) (tk_lastReroute st),
             tk_paths := mput (demand_PathKey d) computed (tk_paths st)\<rparr>)"

text \<open>Whether the last change of a path is more recent than the hold-down allows.\<close>

definition heldDown :: "tick_env \<Rightarrow> path_key \<Rightarrow> tick_state \<Rightarrow> bool" where
  "heldDown v key st =
     (case mget (tk_lastReroute st) key of
        None \<Rightarrow> False
      | Some since \<Rightarrow> time_sub (tv_now v) since < tv_holdDown v)"

text \<open>The decision about a demand that has a path: keep it, hold the change back, or make it.\<close>

definition replacePath :: "rounding \<Rightarrow> tick_env \<Rightarrow> demand \<Rightarrow> path \<Rightarrow> path \<Rightarrow> pce_edge list \<Rightarrow> tick_state \<Rightarrow>
    tick_state" where
  "replacePath r v d stored computed edges st =
     (let key = demand_PathKey d;
          previousCost = rescorePath r stored (WeightedCost r (ClassObjective (Some (dd_Class d))))
                           (tv_graph v) (tv_snapshot v);
          broken = (previousCost = PInf);
          prev = (if broken then stored else stored\<lparr>p_Cost := previousCost\<rparr>);
          st = st\<lparr>tk_previous := mput key prev (tk_previous st)\<rparr>;
          causes = attributeCauses r prev COSTDIM_LATENCY (tv_previousCosts v) (tv_snapshot v)
      in if path_Equal prev computed then st\<lparr>tk_paths := mput key computed (tk_paths st)\<rparr>
         else if \<not> broken \<and> flt (fdiv r (p_Cost prev) (p_Cost computed)) (r (11 / 10)) then
           st\<lparr>tk_gated := tk_gated st @ [reportOf v d PathChangeGated prev computed causes],
              tk_paths := mput key prev (tk_paths st)\<rparr>
         else if \<not> broken \<and> heldDown v key st then
           st\<lparr>tk_gated := tk_gated st @ [reportOf v d PathChangeHeldDown prev computed causes],
              tk_paths := mput key prev (tk_paths st)\<rparr>
         else reroutePath r v d prev computed broken edges causes st)"

text \<open>The edges of a computed path, None when one of them is not in the graph.\<close>

fun pathEdges :: "pce_graph \<Rightarrow> pce_edge_id list \<Rightarrow> pce_edge list option" where
  "pathEdges g [] = Some []"
| "pathEdges g (i # is) =
     (case mget (pg_edges g) i of
        None \<Rightarrow> None
      | Some e \<Rightarrow> map_option ((#) e) (pathEdges g is))"

text \<open>The body of the loop over the demands.\<close>

definition processDemand :: "rounding \<Rightarrow> tick_env \<Rightarrow> demand \<Rightarrow> tick_state \<Rightarrow> tick_state option" where
  "processDemand r v d st =
     (let pruned = PruneGraph r (tk_reg st) (tv_graph v) (tn_ID (dd_Tenant d))
                     (demand_BandwidthReservation d)
      in case computePath r (Some pruned) (cg_graph (tk_costGraph st)) (dd_From d) (dd_To d)
               (Some (WeightedCost r (ClassObjective (Some (dd_Class d))))) of
           None \<Rightarrow> None
         | Some (Inl _) \<Rightarrow> Some st
         | Some (Inr p) \<Rightarrow>
             (let computed = p\<lparr>p_Label := tc_Label (dd_Class d)\<rparr>
              in case pathEdges (tv_graph v) (p_Edges computed) of
                   None \<Rightarrow> Some st
                 | Some edges \<Rightarrow>
                     (case mget (tk_previous st) (demand_PathKey d) of
                        None \<Rightarrow> Some (firstPath r v d computed edges st)
                      | Some stored \<Rightarrow> Some (replacePath r v d stored computed edges st))))"

fun processDemands :: "rounding \<Rightarrow> tick_env \<Rightarrow> demand list \<Rightarrow> tick_state \<Rightarrow> tick_state option" where
  "processDemands r v [] st = Some st"
| "processDemands r v (d # ds) st = Option.bind (processDemand r v d st) (processDemands r v ds)"

section \<open>The tick\<close>

record pce =
  pc_costGraph :: cost_graph
  pc_reg :: registry
  pc_paths :: path_set
  pc_changes :: "reroute list"
  pc_previousCosts :: "(cost_key, cost) gomap"
  pc_lastReroute :: "(path_key, time) gomap"
  pc_holdDown :: duration

definition NewPCE :: "cost_graph \<Rightarrow> duration \<Rightarrow> pce" where
  "NewPCE cg holdDown =
     \<lparr>pc_costGraph = cg, pc_reg = [], pc_paths = [], pc_changes = [], pc_previousCosts = [],
      pc_lastReroute = [], pc_holdDown = holdDown\<rparr>"

text \<open>The three readings of the clock in one tick.\<close>

record clock =
  cl_ready :: time
  cl_stamp :: time
  cl_links :: time

definition tickEnv :: "rounding \<Rightarrow> clock \<Rightarrow> pce \<Rightarrow> graph \<Rightarrow> tick_env" where
  "tickEnv r c p g =
     (let pg = NewPCEGraph (updateLinkStates (pc_costGraph p) (cl_links c) g)
      in \<lparr>tv_graph = pg,
          tv_snapshot = cg_graph (updateStaticBandwidthUtilizationCost r (pc_reg p) pg (pc_costGraph p)),
          tv_previousCosts = pc_previousCosts p, tv_holdDown = pc_holdDown p, tv_now = cl_stamp c\<rparr>)"

definition tickStart :: "rounding \<Rightarrow> tick_env \<Rightarrow> pce \<Rightarrow> tick_state" where
  "tickStart r v p =
     \<lparr>tk_costGraph = updateStaticBandwidthUtilizationCost r (pc_reg p) (tv_graph v) (pc_costGraph p),
      tk_reg = pc_reg p, tk_previous = pc_paths p, tk_paths = pc_paths p,
      tk_lastReroute = pc_lastReroute p, tk_reroutes = [], tk_gated = []\<rparr>"

definition tickEnd :: "tick_env \<Rightarrow> pce \<Rightarrow> tick_state \<Rightarrow> pce" where
  "tickEnd v p st =
     p\<lparr>pc_costGraph := tk_costGraph st, pc_reg := tk_reg st, pc_paths := tk_paths st,
       pc_changes := recordChanges (tk_gated st) (recordChanges (tk_reroutes st) (pc_changes p)),
       pc_previousCosts := tv_snapshot v, pc_lastReroute := tk_lastReroute st\<rparr>"

text \<open>
  One round of the ticker: the engine and the topology afterwards, and the paths sent on
  the report channel, if any.
\<close>

definition tick :: "rounding \<Rightarrow> tenant_repo \<Rightarrow> clock \<Rightarrow> pce \<times> graph \<Rightarrow>
    (pce \<times> graph \<times> path_set option) option" where
  "tick r tenants c s =
     (case s of (p, g) \<Rightarrow>
        if \<not> cost_graph_IsReady (cl_ready c) (pc_costGraph p) then Some (p, g, None)
        else
          let g' = updateLinkStates (pc_costGraph p) (cl_links c) g;
              v = tickEnv r c p g
          in map_option (\<lambda>st. (tickEnd v p st, g', Some (tk_paths st)))
               (processDemands r v (BuildDemands r tenants) (tickStart r v p)))"

end
