(* ===== verification/Pce_Correct.thy ===== *)
theory Pce_Correct
  imports Pce
begin

text \<open>
  Correctness of the path computation engine: a tick always returns; the bookings are at all
  times those of the paths in use; a path in use is replaced only when it broke or when the
  gain and the hold-down allow it; and no sequence of ticks books more than 95 percent of a
  link.
\<close>

section \<open>Costs stay admissible\<close>

lemma staticUtilizationCost_safe:
  assumes r: "rounding_mode r" and f: "fsafe f"
  shows "fsafe (staticUtilizationCost r f)"
proof -
  have conv: "fsafe (convexUtilization r (Fin x))" if "0 \<le> x" "x \<le> 1" for x
    using that unfolding convexUtilization_def fsub_def
    by (intro rounding_mode.fsafe_fdiv [OF r]) (simp_all add: rounding_mode.fsafe_r [OF r])
  have "fle (Fin 0) (r (4 / 5))" "fle (r (4 / 5)) (Fin 1)"
    using rounding_mode.r_mono [OF r, of 0 "4 / 5"] rounding_mode.r_mono [OF r, of "4 / 5" 1]
    by (simp_all add: rounding_mode.r_zero [OF r] rounding_mode.r_one [OF r])
  then obtain y where "r (4 / 5) = Fin y" "0 \<le> y" "y \<le> 1"
    by (cases "r (4 / 5)") auto
  then have ref: "fsafe (convexUtilization r (staticUtilizationRef r))"
    using conv by (simp add: staticUtilizationRef_def)
  show ?thesis
  proof (cases "fle (Fin 1) f")
    case False
    have "fsafe (convexUtilization r f)"
      using f False conv by (cases f) (auto simp: convexUtilization_def)
    then show ?thesis
      using False ref by (simp add: staticUtilizationCost_def rounding_mode.fsafe_fdiv [OF r])
  qed (simp add: staticUtilizationCost_def)
qed

definition res_safe :: "reservation \<Rightarrow> bool" where
  "res_safe v \<longleftrightarrow> fsafe (rv_SourceBandwidth v) \<and> fsafe (rv_SinkBandwidth v)"

definition sums_safe :: "hose_sums \<Rightarrow> bool" where
  "sums_safe s \<longleftrightarrow> (\<forall>l. fsafe (mget0 (Fin 0) (sm_sources s) l) \<and> fsafe (mget0 (Fin 0) (sm_sinks s) l))"

lemma add_sums_safe:
  assumes "rounding_mode r" and "sums_safe s" and "res_safe v"
  shows "sums_safe (addSink r v (addSource r v s))"
  using assms
  by (auto simp: sums_safe_def res_safe_def addSink_def addSource_def Let_def
      intro!: rounding_mode.fsafe_fadd)

lemma CalculateReservedBandwidth_safe:
  assumes r: "rounding_mode r" and v: "\<forall>(k, v) \<in> set (te_Reservations e). res_safe v"
  shows "fsafe (CalculateReservedBandwidth r e)"
proof -
  have "sums_safe s \<Longrightarrow> \<forall>(k, v) \<in> set m. res_safe v \<Longrightarrow>
    sums_safe (fold (\<lambda>(_, v) s. addSink r v (addSource r v s)) m s)" for m :: "(res_key, reservation) gomap" and s
    by (induction m arbitrary: s) (auto simp: add_sums_safe [OF r])
  then have "sums_safe (getBandwidthSums r e)"
    using v by (simp add: getBandwidthSums_def sums_safe_def mget0_def)
  then show ?thesis
    unfolding CalculateReservedBandwidth_def Let_def
    by (intro rounding_mode.fsafe_foldl [OF r]) (simp_all add: sums_safe_def fsafe_fmin)
qed

definition reg_safe :: "registry \<Rightarrow> bool" where
  "reg_safe reg \<longleftrightarrow> reg_wf reg \<and> (\<forall>i t k v. booking reg i t k = Some v \<longrightarrow> res_safe v)"

lemma loadAndCapacity_safe:
  assumes r: "rounding_mode r" and reg: "reg_safe reg" and e: "mget reg i = Some e"
  shows "fsafe (loadAndCapacity r e)"
proof -
  have wf: "redge_wf e" using reg e unfolding reg_safe_def reg_wf_def by blast
  have "fsafe (CalculateReservedBandwidth r (snd x))" if x: "x \<in> set (rg_Bookings e)" for x
  proof (rule CalculateReservedBandwidth_safe [OF r], clarify)
    fix k v assume v: "(k, v) \<in> set (te_Reservations (snd x))"
    have t: "mget (rg_Bookings e) (fst x) = Some (snd x)"
      by (rule in_set_mget) (use wf x in \<open>simp_all add: redge_wf_def\<close>)
    then have "mwf (te_Reservations (snd x))"
      using wf unfolding redge_wf_def entry_wf_def by blast
    then have "booking reg i (fst x) k = Some v"
      using v e t by (simp add: booking_def in_set_mget)
    then show "res_safe v" using reg unfolding reg_safe_def by blast
  qed
  then show ?thesis
    unfolding loadAndCapacity_def split_beta by (intro rounding_mode.fsafe_foldl [OF r]) simp_all
qed

lemma ReservedMap_safe:
  assumes "rounding_mode r" and "reg_safe reg"
  shows "fsafe (mget0 (Fin 0) (ReservedMap r reg) i)"
  using loadAndCapacity_safe [OF assms]
  by (simp add: ReservedMap_def mget0_def mget_map_val split: option.split)

definition cg_safe :: "cost_graph \<Rightarrow> bool" where
  "cg_safe cg \<longleftrightarrow> costs_safe (cg_graph cg)"

lemma UpdateCost_safe: "cg_safe cg \<Longrightarrow> fsafe c \<Longrightarrow> cg_safe (UpdateCost i d c cg)"
  by (simp add: UpdateCost_def cg_safe_def costs_safe_mput cost_safe_mput costs_safe_get split: option.split)

lemma updateStaticEdge_safe:
  assumes r: "rounding_mode r" and "cg_safe cg" and "fsafe x"
  shows "cg_safe (updateStaticEdge r x e cg)"
proof -
  have "fsafe c" if "flt (Fin 0) c" for c
    using that by (cases c) auto
  then show ?thesis
    using assms unfolding updateStaticEdge_def Let_def
    by (auto intro!: UpdateCost_safe staticUtilizationCost_safe rounding_mode.fsafe_fdiv)
qed

lemma updateStatic_safe:
  assumes r: "rounding_mode r" and cg: "cg_safe cg" and reg: "reg_safe reg"
  shows "cg_safe (updateStaticBandwidthUtilizationCost r reg g cg)"
proof -
  have inner: "cg_safe cg \<Longrightarrow> cg_safe (fold (updateStaticEdge r (mget0 (Fin 0) (ReservedMap r reg) i)) es cg)"
    for i es cg
    by (induction es arbitrary: cg) (simp_all add: updateStaticEdge_safe [OF r] ReservedMap_safe [OF r reg])
  have "cg_safe cg \<Longrightarrow> cg_safe (fold (\<lambda>(i, edge) cg.
      fold (updateStaticEdge r (mget0 (Fin 0) (ReservedMap r reg) i)) (pe_RealEdges edge) cg) xs cg)" for xs cg
    by (induction xs arbitrary: cg) (auto simp: inner)
  then show ?thesis using cg by (simp add: updateStaticBandwidthUtilizationCost_def Let_def)
qed

lemma Move_safe:
  assumes "reg_safe reg" and "res_safe c"
  shows "reg_safe (snd (Move r from to t c reg))"
proof (cases "fst (Move r from to t c reg)")
  case None
  then have "Move r from to t c reg = (None, snd (Move r from to t c reg))" by (cases "Move r from to t c reg") simp
  then have "snd (Move r from to t c reg) = fold (bookOn t c) to (fold (releaseOn t (rv_Key c)) from reg)"
    unfolding Move_None by blast
  then show ?thesis
    using assms Move_wf [of reg r "from" to t c]
    by (auto simp: reg_safe_def booking_fold_book booking_fold_release split: if_splits)
next
  case (Some i)
  then show ?thesis using assms by (auto simp: Move_def split: option.splits)
qed

section \<open>One demand\<close>

text \<open>What the tick relies on in a demand.\<close>

definition demand_safe :: "demand \<Rightarrow> bool" where
  "demand_safe d \<longleftrightarrow> fsafe (dd_FromMbps d) \<and> fsafe (dd_ToMbps d) \<and>
     (\<forall>x. fsafe (mget0 (Fin 0) (ClassObjective (Some (dd_Class d))) x))"

lemma BuildDemands_safe:
  assumes ok: "repo_ok repo" and d: "d \<in> set (BuildDemands r repo)"
  shows "demand_safe d"
proof -
  have c: "mget (re_classes repo) (tc_Label (dd_Class d)) = Some (dd_Class d)"
    and m: "\<not> fle (dd_FromMbps d) (Fin 0)" "\<not> fle (dd_ToMbps d) (Fin 0)"
    using d unfolding in_BuildDemands [OF ok] repo_Class_def by blast+
  have "fsafe (mget0 (Fin 0) (ClassObjective (Some (dd_Class d))) x)" for x
  proof (cases "tc_Label (dd_Class d) = DefaultClassLabel")
    case True
    then show ?thesis
      by (simp add: ClassObjective_def defaultClassObjective_def mget0_def mget_def)
  next
    case False
    then have "dd_Class d \<noteq> defaultClass" by (auto simp: defaultClass_def)
    then have "objective_ok (tc_Objective (dd_Class d))"
      using ok c unfolding repo_ok_def by blast
    then show ?thesis
      using False by (auto simp: ClassObjective_def objective_ok_def mget0_def fsafe_not_fle split: option.split)
  qed
  then show ?thesis using m by (simp add: demand_safe_def fsafe_not_fle)
qed

lemma computePath_returns:
  assumes "rounding_mode r" and "pce_wf g" and "weights_ok g (weight_of obj costs)"
  shows "(\<exists>err. computePath r (Some g) costs src dst (Some obj) = Some (Inl err)) \<or>
    (\<exists>p. computePath r (Some g) costs src dst (Some obj) = Some (Inr p) \<and>
      valid_path r g (weight_of obj costs) src dst p \<and>
      (\<forall>is. edge_walk g src is dst \<longrightarrow> walk_cost r g (weight_of obj costs) is \<noteq> NaN \<longrightarrow>
         fle (p_Cost p) (walk_cost r g (weight_of obj costs) is)))"
proof (cases "mget (pg_nodes g) src = None \<or> mget (pg_nodes g) dst = None")
  case True
  then show ?thesis by (auto simp: computePath_def)
next
  case False
  then show ?thesis using computePath_cases [OF assms] by blast
qed

abbreviation pruned_for :: "rounding \<Rightarrow> tick_env \<Rightarrow> demand \<Rightarrow> tick_state \<Rightarrow> pce_graph" where
  "pruned_for r v d st \<equiv>
     PruneGraph r (tk_reg st) (tv_graph v) (tn_ID (dd_Tenant d)) (demand_BandwidthReservation d)"

abbreviation demand_objective :: "rounding \<Rightarrow> demand \<Rightarrow> objective" where
  "demand_objective r d \<equiv> WeightedCost r (ClassObjective (Some (dd_Class d)))"

abbreviation demand_weight :: "rounding \<Rightarrow> demand \<Rightarrow> tick_state \<Rightarrow> pce_edge \<Rightarrow> f64" where
  "demand_weight r d st \<equiv> weight_of (demand_objective r d) (cg_graph (tk_costGraph st))"

text \<open>A cheapest path over the edges that have room for the demand.\<close>

definition best_path :: "rounding \<Rightarrow> tick_env \<Rightarrow> demand \<Rightarrow> tick_state \<Rightarrow> path \<Rightarrow> bool" where
  "best_path r v d st p \<longleftrightarrow>
     valid_path r (pruned_for r v d st) (demand_weight r d st) (dd_From d) (dd_To d) (p\<lparr>p_Label := 0\<rparr>) \<and>
     (\<forall>is. edge_walk (pruned_for r v d st) (dd_From d) is (dd_To d) \<longrightarrow>
        walk_cost r (pruned_for r v d st) (demand_weight r d st) is \<noteq> NaN \<longrightarrow>
        fle (p_Cost p) (walk_cost r (pruned_for r v d st) (demand_weight r d st) is)) \<and>
     p_Label p = tc_Label (dd_Class d)"

lemma edge_walk_edges: "edge_walk g u is v \<Longrightarrow> i \<in> set is \<Longrightarrow> mget (pg_edges g) i \<noteq> None"
  by (induction "is" arbitrary: u) (auto split: option.splits)

lemma pathEdges_pruned:
  assumes wf: "pce_wf g" and "\<forall>i \<in> set is. mget (pg_edges (PruneGraph r reg g t c)) i \<noteq> None"
  shows "\<exists>edges. pathEdges g is = Some edges \<and> map pe_ID edges = is \<and>
    (\<forall>e \<in> set edges. checkCapacity r reg e t c \<and> mget (pg_edges g) (pe_ID e) = Some e)"
  using assms(2)
proof (induction "is")
  case (Cons i "is")
  then obtain edges where IH: "pathEdges g is = Some edges" "map pe_ID edges = is"
    "\<forall>e \<in> set edges. checkCapacity r reg e t c \<and> mget (pg_edges g) (pe_ID e) = Some e"
    by auto
  have "mget (pg_edges (PruneGraph r reg g t c)) i \<noteq> None" using Cons.prems by simp
  then obtain e where e: "mget (pg_edges g) i = Some e" "checkCapacity r reg e t c"
    by (auto simp: PruneGraph_edge [OF pce_wfD(1) [OF wf]] split: option.splits if_splits)
  then show ?case using IH pce_wfD(3) [OF wf e(1)] by simp
qed simp

lemma Move_admitted:
  "\<forall>e \<in> set to. checkCapacity r reg e t c \<Longrightarrow>
   Move r from to t c reg = (None, fold (bookOn t c) to (fold (releaseOn t (rv_Key c)) from reg))"
  by (simp add: Move_None)

text \<open>The demand changes its path: its reservation moves to the edges of the new one.\<close>

definition moved :: "rounding \<Rightarrow> tick_env \<Rightarrow> demand \<Rightarrow> pce_edge_id list \<Rightarrow> path \<Rightarrow> pce_edge list \<Rightarrow> registry \<Rightarrow>
    registry \<Rightarrow> bool" where
  "moved r v d from p edges reg reg' \<longleftrightarrow>
     map pe_ID edges = p_Edges p \<and> (\<forall>e \<in> set edges. mget (pg_edges (tv_graph v)) (pe_ID e) = Some e) \<and>
     Move r from edges (tn_ID (dd_Tenant d)) (demand_BandwidthReservation d) reg = (None, reg')"

text \<open>What rescoring leaves of the stored path.\<close>

definition rescored :: "rounding \<Rightarrow> tick_env \<Rightarrow> demand \<Rightarrow> path \<Rightarrow> path" where
  "rescored r v d stored =
     (let c = rescorePath r stored (demand_objective r d) (tv_graph v) (tv_snapshot v)
      in if c = PInf then stored else stored\<lparr>p_Cost := c\<rparr>)"

definition broken_path :: "rounding \<Rightarrow> tick_env \<Rightarrow> demand \<Rightarrow> path \<Rightarrow> bool" where
  "broken_path r v d stored \<longleftrightarrow>
     rescorePath r stored (demand_objective r d) (tv_graph v) (tv_snapshot v) = PInf"

definition small_gain :: "rounding \<Rightarrow> tick_env \<Rightarrow> demand \<Rightarrow> path \<Rightarrow> path \<Rightarrow> bool" where
  "small_gain r v d stored p \<longleftrightarrow>
     flt (fdiv r (rescorePath r stored (demand_objective r d) (tv_graph v) (tv_snapshot v)) (p_Cost p)) (r (11 / 10))"

lemma rescored_simps [simp]:
  "p_Edges (rescored r v d p) = p_Edges p" "p_Nodes (rescored r v d p) = p_Nodes p"
  "p_Links (rescored r v d p) = p_Links p" "p_Label (rescored r v d p) = p_Label p"
  by (simp_all add: rescored_def Let_def)

text \<open>The outcomes of a demand as a relation on the parts of the state that matter.\<close>

inductive demand_step :: "rounding \<Rightarrow> tick_env \<Rightarrow> demand \<Rightarrow> tick_state \<Rightarrow> tick_state \<Rightarrow> bool"
  for r v d st where
  no_path: "demand_step r v d st st"
| first_path: "best_path r v d st p \<Longrightarrow> mget (tk_previous st) (demand_PathKey d) = None \<Longrightarrow>
     moved r v d [] p edges (tk_reg st) reg \<Longrightarrow>
     demand_step r v d st (st\<lparr>tk_reg := reg,
       tk_costGraph := updateStaticBandwidthUtilizationCost r reg (tv_graph v) (tk_costGraph st),
       tk_reroutes := tk_reroutes st @ [rep],
       tk_paths := mput (demand_PathKey d) p (tk_paths st)\<rparr>)"
| same_path: "best_path r v d st p \<Longrightarrow> mget (tk_previous st) (demand_PathKey d) = Some stored \<Longrightarrow>
     path_Equal stored p \<Longrightarrow>
     demand_step r v d st (st\<lparr>tk_previous := mput (demand_PathKey d) (rescored r v d stored) (tk_previous st),
       tk_paths := mput (demand_PathKey d) p (tk_paths st)\<rparr>)"
| kept_path: "best_path r v d st p \<Longrightarrow> mget (tk_previous st) (demand_PathKey d) = Some stored \<Longrightarrow>
     \<not> broken_path r v d stored \<Longrightarrow>
     small_gain r v d stored p \<or> heldDown v (demand_PathKey d) st \<Longrightarrow>
     demand_step r v d st (st\<lparr>tk_previous := mput (demand_PathKey d) (rescored r v d stored) (tk_previous st),
       tk_gated := tk_gated st @ [rep],
       tk_paths := mput (demand_PathKey d) (rescored r v d stored) (tk_paths st)\<rparr>)"
| new_path: "best_path r v d st p \<Longrightarrow> mget (tk_previous st) (demand_PathKey d) = Some stored \<Longrightarrow>
     \<not> path_Equal stored p \<Longrightarrow>
     broken_path r v d stored \<or> \<not> small_gain r v d stored p \<and> \<not> heldDown v (demand_PathKey d) st \<Longrightarrow>
     moved r v d (p_Edges stored) p edges (tk_reg st) reg \<Longrightarrow>
     demand_step r v d st (st\<lparr>tk_previous := mput (demand_PathKey d) (rescored r v d stored) (tk_previous st),
       tk_reg := reg,
       tk_costGraph := updateStaticBandwidthUtilizationCost r reg (tv_graph v) (tk_costGraph st),
       tk_reroutes := tk_reroutes st @ [rep],
       tk_lastReroute := mput (demand_PathKey d) (tv_now v) (tk_lastReroute st),
       tk_paths := mput (demand_PathKey d) p (tk_paths st)\<rparr>)"

inductive_cases demand_stepE: "demand_step r v d st st'"

lemma heldDown_previous [simp]: "heldDown v k (st\<lparr>tk_previous := x\<rparr>) = heldDown v k st"
  by (simp add: heldDown_def)

lemma path_Equal_rescored [simp]: "path_Equal (rescored r v d stored) p = path_Equal stored p"
  by (simp add: path_Equal_def)

text \<open>The bodies of the two branches of the loop implement the relation.\<close>

lemma firstPath_step:
  assumes p: "best_path r v d st p" and none: "mget (tk_previous st) (demand_PathKey d) = None"
    and e: "map pe_ID edges = p_Edges p" "\<forall>e \<in> set edges. mget (pg_edges (tv_graph v)) (pe_ID e) = Some e"
    and c: "\<forall>e \<in> set edges. checkCapacity r (tk_reg st) e (tn_ID (dd_Tenant d)) (demand_BandwidthReservation d)"
  shows "demand_step r v d st (firstPath r v d p edges st)"
proof -
  note mv = Move_admitted [OF c]
  show ?thesis
    unfolding firstPath_def mv prod.case option.case
    by (rule first_path [OF p none, of edges]) (use e mv in \<open>simp add: moved_def\<close>)
qed

lemma replacePath_step:
  assumes p: "best_path r v d st p" and some: "mget (tk_previous st) (demand_PathKey d) = Some stored"
    and e: "map pe_ID edges = p_Edges p" "\<forall>e \<in> set edges. mget (pg_edges (tv_graph v)) (pe_ID e) = Some e"
    and c: "\<forall>e \<in> set edges. checkCapacity r (tk_reg st) e (tn_ID (dd_Tenant d)) (demand_BandwidthReservation d)"
  shows "demand_step r v d st (replacePath r v d stored p edges st)"
proof -
  let ?prev = "rescored r v d stored"
  let ?causes = "attributeCauses r ?prev COSTDIM_LATENCY (tv_previousCosts v) (tv_snapshot v)"
  let ?st = "st\<lparr>tk_previous := mput (demand_PathKey d) ?prev (tk_previous st)\<rparr>"
  have eq: "replacePath r v d stored p edges st =
     (if path_Equal stored p then ?st\<lparr>tk_paths := mput (demand_PathKey d) p (tk_paths st)\<rparr>
      else if \<not> broken_path r v d stored \<and> small_gain r v d stored p then
        ?st\<lparr>tk_gated := tk_gated st @ [reportOf v d PathChangeGated ?prev p ?causes],
            tk_paths := mput (demand_PathKey d) ?prev (tk_paths st)\<rparr>
      else if \<not> broken_path r v d stored \<and> heldDown v (demand_PathKey d) st then
        ?st\<lparr>tk_gated := tk_gated st @ [reportOf v d PathChangeHeldDown ?prev p ?causes],
            tk_paths := mput (demand_PathKey d) ?prev (tk_paths st)\<rparr>
      else reroutePath r v d ?prev p (broken_path r v d stored) edges ?causes ?st)"
  proof -
    let ?c = "rescorePath r stored (demand_objective r d) (tv_graph v) (tv_snapshot v)"
    have prev: "(if broken_path r v d stored then stored else stored\<lparr>p_Cost := ?c\<rparr>) = ?prev"
      by (simp add: rescored_def broken_path_def Let_def)
    have gain: "(\<not> broken_path r v d stored \<and> flt (fdiv r (p_Cost ?prev) (p_Cost p)) (r (11 / 10))) =
        (\<not> broken_path r v d stored \<and> small_gain r v d stored p)"
      by (simp add: broken_path_def small_gain_def rescored_def Let_def)
    show ?thesis
      unfolding replacePath_def Let_def prev broken_path_def [symmetric] path_Equal_rescored
        heldDown_previous gain by simp
  qed
  note mv = Move_admitted [OF c, of "p_Edges stored"]
  consider "path_Equal stored p"
    | (kept) "\<not> path_Equal stored p" "\<not> broken_path r v d stored"
        "small_gain r v d stored p \<or> heldDown v (demand_PathKey d) st"
    | (new) "\<not> path_Equal stored p"
        "broken_path r v d stored \<or> \<not> small_gain r v d stored p \<and> \<not> heldDown v (demand_PathKey d) st"
    by blast
  then show ?thesis
  proof cases
    case 1
    then show ?thesis unfolding eq using same_path [OF p some] by simp
  next
    case kept
    then show ?thesis
      unfolding eq using kept_path [OF p some kept(2,3)]
      by (cases "small_gain r v d stored p") (simp_all only: if_True if_False simp_thms)
  next
    case new
    have "moved r v d (p_Edges stored) p edges (tk_reg st)
        (fold (bookOn (tn_ID (dd_Tenant d)) (demand_BandwidthReservation d)) edges
          (fold (releaseOn (tn_ID (dd_Tenant d)) (rv_Key (demand_BandwidthReservation d))) (p_Edges stored) (tk_reg st)))"
      using e mv by (simp add: moved_def)
    from new_path [OF p some new this]
    have "demand_step r v d st (reroutePath r v d ?prev p (broken_path r v d stored) edges ?causes ?st)"
      by (simp add: reroutePath_def mv)
    then show ?thesis
      unfolding eq using new by (simp only: if_False if_True simp_thms split: if_split) blast
  qed
qed

lemma processDemand_step:
  assumes r: "rounding_mode r" and wf: "pce_wf (tv_graph v)" and cg: "cg_safe (tk_costGraph st)"
    and d: "demand_safe d"
  shows "\<exists>st'. processDemand r v d st = Some st' \<and> demand_step r v d st st'"
proof -
  let ?g = "pruned_for r v d st" and ?costs = "cg_graph (tk_costGraph st)"
  have w: "weights_ok ?g (demand_weight r d st)"
    by (rule WeightedCost_ok [OF r]) (use cg d in \<open>simp_all add: cg_safe_def demand_safe_def\<close>)
  consider (err) e where "computePath r (Some ?g) ?costs (dd_From d) (dd_To d) (Some (demand_objective r d)) = Some (Inl e)"
    | (path) p where "computePath r (Some ?g) ?costs (dd_From d) (dd_To d) (Some (demand_objective r d)) = Some (Inr p)"
        "valid_path r ?g (demand_weight r d st) (dd_From d) (dd_To d) p"
        "\<forall>is. edge_walk ?g (dd_From d) is (dd_To d) \<longrightarrow> walk_cost r ?g (demand_weight r d st) is \<noteq> NaN \<longrightarrow>
           fle (p_Cost p) (walk_cost r ?g (demand_weight r d st) is)"
    using computePath_returns [OF r PruneGraph_wf [OF wf] w] by metis
  then show ?thesis
  proof cases
    case err
    then show ?thesis by (auto simp: processDemand_def Let_def intro: no_path)
  next
    case path
    let ?p = "p\<lparr>p_Label := tc_Label (dd_Class d)\<rparr>"
    have "\<forall>i \<in> set (p_Edges p). mget (pg_edges ?g) i \<noteq> None"
      using path(2) edge_walk_edges unfolding valid_path_def by blast
    from pathEdges_pruned [OF wf this] obtain edges where
      edges: "pathEdges (tv_graph v) (p_Edges p) = Some edges" "map pe_ID edges = p_Edges ?p"
        "\<forall>e \<in> set edges. checkCapacity r (tk_reg st) e (tn_ID (dd_Tenant d)) (demand_BandwidthReservation d)"
        "\<forall>e \<in> set edges. mget (pg_edges (tv_graph v)) (pe_ID e) = Some e"
      by auto
    have "p_Label p = 0" using path(2) unfolding valid_path_def by blast
    then have "?p\<lparr>p_Label := 0\<rparr> = p" by (cases p) simp
    then have best: "best_path r v d st ?p"
      using path(2,3) unfolding best_path_def by simp
    show ?thesis
      using path(1) edges(1) firstPath_step [OF best _ edges(2,4,3)] replacePath_step [OF best _ edges(2,4,3)]
      by (cases "mget (tk_previous st) (demand_PathKey d)") (simp_all add: processDemand_def Let_def)
  qed
qed

section \<open>All demands of a tick\<close>

lemma demand_res_safe: "demand_safe d \<Longrightarrow> res_safe (demand_BandwidthReservation d)"
  by (simp add: demand_safe_def res_safe_def demand_BandwidthReservation_def)

lemma moved_safe: "moved r v d from p edges reg reg' \<Longrightarrow> reg_safe reg \<Longrightarrow> demand_safe d \<Longrightarrow> reg_safe reg'"
  using Move_safe [of reg "demand_BandwidthReservation d" r "from" edges "tn_ID (dd_Tenant d)"] demand_res_safe
  unfolding moved_def by simp

lemma demand_step_safe:
  assumes "rounding_mode r" and "demand_safe d"
    and "demand_step r v d st st'" and "cg_safe (tk_costGraph st)" and "reg_safe (tk_reg st)"
  shows "cg_safe (tk_costGraph st') \<and> reg_safe (tk_reg st')"
  using assms(3-)
  by (cases rule: demand_step.cases) (auto simp: updateStatic_safe [OF assms(1)] dest: moved_safe [OF _ _ assms(2)])

fun demand_run :: "rounding \<Rightarrow> tick_env \<Rightarrow> demand list \<Rightarrow> tick_state \<Rightarrow> tick_state \<Rightarrow> bool" where
  "demand_run r v [] st st' \<longleftrightarrow> st' = st"
| "demand_run r v (d # ds) st st' \<longleftrightarrow> (\<exists>st1. demand_step r v d st st1 \<and> demand_run r v ds st1 st')"

lemma processDemands_run:
  assumes r: "rounding_mode r" and wf: "pce_wf (tv_graph v)"
  shows "\<forall>d \<in> set ds. demand_safe d \<Longrightarrow> cg_safe (tk_costGraph st) \<Longrightarrow> reg_safe (tk_reg st) \<Longrightarrow>
    \<exists>st'. processDemands r v ds st = Some st' \<and> demand_run r v ds st st' \<and>
      cg_safe (tk_costGraph st') \<and> reg_safe (tk_reg st')"
proof (induction ds arbitrary: st)
  case (Cons d ds)
  obtain st1 where st1: "processDemand r v d st = Some st1" "demand_step r v d st st1"
    using processDemand_step [OF r wf Cons.prems(2)] Cons.prems(1) by auto
  have "cg_safe (tk_costGraph st1) \<and> reg_safe (tk_reg st1)"
    using demand_step_safe [OF r _ st1(2) Cons.prems(2,3)] Cons.prems(1) by simp
  then show ?case using Cons.IH [of st1] Cons.prems(1) st1 by auto
qed simp

lemma demand_step_frame:
  assumes "demand_step r v d st st'" and "k \<noteq> demand_PathKey d"
  shows "mget (tk_previous st') k = mget (tk_previous st) k \<and> mget (tk_paths st') k = mget (tk_paths st) k \<and>
    mget (tk_lastReroute st') k = mget (tk_lastReroute st) k"
  using assms by (cases rule: demand_step.cases) auto

lemma demand_run_frame:
  "demand_run r v ds st st' \<Longrightarrow> k \<notin> demand_PathKey ` set ds \<Longrightarrow>
   mget (tk_previous st') k = mget (tk_previous st) k \<and> mget (tk_paths st') k = mget (tk_paths st) k \<and>
   mget (tk_lastReroute st') k = mget (tk_lastReroute st) k"
proof (induction ds arbitrary: st)
  case (Cons d ds)
  then obtain st1 where "demand_step r v d st st1" "demand_run r v ds st1 st'" by auto
  then show ?case using Cons.IH [of st1] Cons.prems(2) demand_step_frame [of r v d st st1 k] by auto
qed simp

text \<open>The step of a given demand inside a run in which every path key occurs once.\<close>

lemma demand_run_at:
  assumes "demand_run r v ds st st'" and "d \<in> set ds" and "distinct (map demand_PathKey ds)"
  shows "\<exists>st1 st2. demand_step r v d st1 st2 \<and>
    (\<forall>f \<in> {\<lambda>s. mget (tk_previous s) (demand_PathKey d), \<lambda>s. mget (tk_paths s) (demand_PathKey d)}. f st1 = f st \<and> f st' = f st2) \<and>
    mget (tk_lastReroute st1) (demand_PathKey d) = mget (tk_lastReroute st) (demand_PathKey d) \<and>
    mget (tk_lastReroute st') (demand_PathKey d) = mget (tk_lastReroute st2) (demand_PathKey d)"
  using assms
proof (induction ds arbitrary: st)
  case (Cons x ds)
  then obtain st1 where st1: "demand_step r v x st st1" "demand_run r v ds st1 st'" by auto
  show ?case
  proof (cases "x = d")
    case True
    have "demand_PathKey d \<notin> demand_PathKey ` set ds" using Cons.prems(3) True by simp
    from demand_run_frame [OF st1(2) this] st1(1) show ?thesis
      unfolding True by (intro exI [of _ st] exI [of _ st1]) simp
  next
    case False
    then have d: "d \<in> set ds" using Cons.prems(2) by simp
    then have "demand_PathKey d \<noteq> demand_PathKey x"
      using Cons.prems(3) by (auto simp: image_iff)
    from demand_step_frame [OF st1(1) this] Cons.IH [OF st1(2) d] Cons.prems(3) show ?thesis by simp
  qed
qed simp

section \<open>Bookings and paths\<close>

definition path_key_of :: "TenantID \<Rightarrow> res_key \<Rightarrow> path_key" where
  "path_key_of t k =
     \<lparr>pk_Tenant = t, pk_From = rk_SourcePop k, pk_To = rk_SinkPop k, pk_Label = rk_Label k\<rparr>"

text \<open>A reservation is booked on an edge exactly when the path of its key runs over it.\<close>

definition booked_as_routed :: "path_set \<Rightarrow> registry \<Rightarrow> bool" where
  "booked_as_routed paths reg \<longleftrightarrow>
     (\<forall>i t k. booking reg i t k \<noteq> None \<longleftrightarrow>
        (\<exists>p. mget paths (path_key_of t k) = Some p \<and> i \<in> set (p_Edges p)))"

lemma path_key_of_demand:
  "path_key_of t k = demand_PathKey d \<longleftrightarrow>
     t = tn_ID (dd_Tenant d) \<and> k = rv_Key (demand_BandwidthReservation d)"
  by (cases k) (auto simp: path_key_of_def demand_PathKey_def demand_BandwidthReservation_def)

lemma booked_keep:
  assumes "booked_as_routed paths reg" and "mget paths k = Some q" and "p_Edges p = p_Edges q"
  shows "booked_as_routed (mput k p paths) reg"
  using assms by (auto simp: booked_as_routed_def)

lemma booked_move:
  assumes b: "booked_as_routed paths reg" and mv: "moved r v d from p edges reg reg'"
    and old: "\<And>i. (\<exists>q. mget paths (demand_PathKey d) = Some q \<and> i \<in> set (p_Edges q)) \<longleftrightarrow> i \<in> set from"
  shows "booked_as_routed (mput (demand_PathKey d) p paths) reg'"
proof -
  have ids: "pe_ID ` set edges = set (p_Edges p)"
    using mv unfolding moved_def by (metis set_map)
  have reg': "reg' = fold (bookOn (tn_ID (dd_Tenant d)) (demand_BandwidthReservation d)) edges
      (fold (releaseOn (tn_ID (dd_Tenant d)) (rv_Key (demand_BandwidthReservation d))) from reg)"
    using mv unfolding moved_def Move_None by blast
  have "booking reg' i t k \<noteq> None \<longleftrightarrow>
     (\<exists>q. mget (mput (demand_PathKey d) p paths) (path_key_of t k) = Some q \<and> i \<in> set (p_Edges q))" for i t k
  proof (cases "path_key_of t k = demand_PathKey d")
    case True
    then have "booking reg i t k \<noteq> None \<longleftrightarrow> i \<in> set from"
      using b old [of i] unfolding booked_as_routed_def by metis
    then show ?thesis
      using True path_key_of_demand [of t k d]
      by (auto simp: reg' booking_fold_book booking_fold_release ids)
  next
    case False
    then have "booking reg' i t k = booking reg i t k"
      using path_key_of_demand [of t k d] by (auto simp: reg' booking_fold_book booking_fold_release)
    then show ?thesis using False b unfolding booked_as_routed_def by simp
  qed
  then show ?thesis unfolding booked_as_routed_def by blast
qed

lemma path_Equal_edges: "path_Equal p q \<Longrightarrow> p_Edges p = p_Edges q \<and> p_Nodes p = p_Nodes q"
  by (simp add: path_Equal_def list_all2_eq split: if_splits)

lemma demand_step_booked:
  assumes "demand_step r v d st st'" and b: "booked_as_routed (tk_paths st) (tk_reg st)"
    and eq: "mget (tk_previous st) (demand_PathKey d) = mget (tk_paths st) (demand_PathKey d)"
  shows "booked_as_routed (tk_paths st') (tk_reg st')"
  using assms(1)
proof (cases rule: demand_step.cases)
  case (first_path p edges reg rep)
  then show ?thesis using booked_move [OF b first_path(4)] eq by simp
next
  case (same_path p stored)
  then show ?thesis using booked_keep [OF b] eq path_Equal_edges by simp
next
  case (kept_path p stored rep)
  then show ?thesis using booked_keep [OF b] eq by simp
next
  case (new_path p stored edges reg rep)
  then show ?thesis using booked_move [OF b new_path(6)] eq by simp
qed (use b in simp)

lemma demand_run_booked:
  "demand_run r v ds st st' \<Longrightarrow> distinct (map demand_PathKey ds) \<Longrightarrow>
   booked_as_routed (tk_paths st) (tk_reg st) \<Longrightarrow>
   \<forall>d \<in> set ds. mget (tk_previous st) (demand_PathKey d) = mget (tk_paths st) (demand_PathKey d) \<Longrightarrow>
   booked_as_routed (tk_paths st') (tk_reg st')"
proof (induction ds arbitrary: st)
  case (Cons d ds)
  then obtain st1 where st1: "demand_step r v d st st1" "demand_run r v ds st1 st'" by auto
  have "mget (tk_previous st1) (demand_PathKey x) = mget (tk_paths st1) (demand_PathKey x)" if "x \<in> set ds" for x
  proof -
    have "demand_PathKey x \<noteq> demand_PathKey d" using that Cons.prems(2) by (auto simp: image_iff)
    then show ?thesis using demand_step_frame [OF st1(1)] Cons.prems(4) that by simp
  qed
  then show ?case
    using Cons.IH [OF st1(2)] Cons.prems(2-4) demand_step_booked [OF st1(1)] by simp
qed simp

section \<open>When a path changes\<close>

lemma edge_walk_pruned:
  assumes wf: "pce_wf g"
  shows "edge_walk (PruneGraph r reg g t c) u is w \<Longrightarrow> edge_walk g u is w"
proof (induction "is" arbitrary: u)
  case (Cons i "is")
  then show ?case
    using wf by (auto simp: PruneGraph_edge [OF pce_wfD(1) [OF wf]] PruneGraph_adj [OF pce_wfD(2) [OF wf]]
        split: option.splits if_splits)
qed simp

lemma best_path_walk:
  "pce_wf (tv_graph v) \<Longrightarrow> best_path r v d st p \<Longrightarrow> edge_walk (tv_graph v) (dd_From d) (p_Edges p) (dd_To d)"
  by (rule edge_walk_pruned [where r = r and reg = "tk_reg st" and t = "tn_ID (dd_Tenant d)" and
        c = "demand_BandwidthReservation d"]) (simp_all add: best_path_def valid_path_def)

lemma demand_step_justified:
  assumes "demand_step r v d st st'" and wf: "pce_wf (tv_graph v)"
    and old: "mget (tk_previous st) (demand_PathKey d) = Some old" "mget (tk_paths st) (demand_PathKey d) = Some old"
    and new: "mget (tk_paths st') (demand_PathKey d) = Some new" and ne: "p_Edges new \<noteq> p_Edges old"
  shows "(broken_path r v d old \<or> \<not> small_gain r v d old new \<and> \<not> heldDown v (demand_PathKey d) st) \<and>
    mget (tk_lastReroute st') (demand_PathKey d) = Some (tv_now v) \<and>
    edge_walk (tv_graph v) (dd_From d) (p_Edges new) (dd_To d)"
  using assms(1)
proof (cases rule: demand_step.cases)
  case (same_path p stored)
  then show ?thesis using old new ne path_Equal_edges by auto
next
  case (new_path p stored edges reg rep)
  then show ?thesis using old new best_path_walk [OF wf new_path(2)] by simp
qed (use old new ne in auto)

lemma demand_step_keeps: "demand_step r v d st st' \<Longrightarrow> mget (tk_paths st) k \<noteq> None \<Longrightarrow> mget (tk_paths st') k \<noteq> None"
  by (cases rule: demand_step.cases) auto

lemma demand_run_keeps: "demand_run r v ds st st' \<Longrightarrow> mget (tk_paths st) k \<noteq> None \<Longrightarrow> mget (tk_paths st') k \<noteq> None"
  by (induction ds arbitrary: st) (auto dest: demand_step_keeps)

section \<open>The shape of the stored paths\<close>

definition path_shape :: "path_key \<Rightarrow> path \<Rightarrow> bool" where
  "path_shape k p \<longleftrightarrow> p_Nodes p \<noteq> [] \<and> hd (p_Nodes p) = pk_From k \<and> last (p_Nodes p) = pk_To k \<and>
     distinct (p_Nodes p) \<and> length (p_Nodes p) = length (p_Edges p) + 1 \<and> p_Label p = pk_Label k"

definition paths_ok :: "path_set \<Rightarrow> bool" where
  "paths_ok paths \<longleftrightarrow> (\<forall>k p. mget paths k = Some p \<longrightarrow> path_shape k p)"

lemma edge_walk_last: "edge_walk g u is w \<Longrightarrow> last (u # map (edge_to g) is) = w"
  by (induction "is" arbitrary: u) (auto simp: edge_to_def split: option.splits)

lemma best_path_shape: "best_path r v d st p \<Longrightarrow> path_shape (demand_PathKey d) p"
  using edge_walk_last
  by (fastforce simp: best_path_def valid_path_def path_shape_def demand_PathKey_def)

lemma paths_ok_mput: "paths_ok paths \<Longrightarrow> path_shape k p \<Longrightarrow> paths_ok (mput k p paths)"
  by (simp add: paths_ok_def)

lemma path_shape_rescored [simp]: "path_shape k (rescored r v d p) = path_shape k p"
  by (simp add: path_shape_def)

lemma demand_step_shape:
  assumes "demand_step r v d st st'" and "paths_ok (tk_paths st)" and "paths_ok (tk_previous st)"
  shows "paths_ok (tk_paths st') \<and> paths_ok (tk_previous st')"
proof -
  have stored: "path_shape (demand_PathKey d) p" if "mget (tk_previous st) (demand_PathKey d) = Some p" for p
    using assms(3) that by (simp add: paths_ok_def)
  show ?thesis
    using assms(1)
    by (cases rule: demand_step.cases) (use assms(2,3) stored best_path_shape in \<open>simp_all add: paths_ok_mput\<close>)
qed

lemma demand_run_shape:
  "demand_run r v ds st st' \<Longrightarrow> paths_ok (tk_paths st) \<Longrightarrow> paths_ok (tk_previous st) \<Longrightarrow> paths_ok (tk_paths st')"
  by (induction ds arbitrary: st) (auto dest!: demand_step_shape)

section \<open>Capacity\<close>

definition graph_ok :: "graph \<Rightarrow> bool" where
  "graph_ok g \<longleftrightarrow> mwf (gr_edges g) \<and>
     (\<forall>i e. mget (gr_edges g) i = Some e \<longrightarrow> ed_ID e = i \<and> ed_Bandwidth e = Fin (fin_val (ed_Bandwidth e)))"

definition link_cap :: "graph \<Rightarrow> pce_edge_id \<Rightarrow> rat" where
  "link_cap g i = (case mget (gr_edges g) (pid_Link i) of None \<Rightarrow> 0 | Some e \<Rightarrow> fin_val (ed_Bandwidth e))"

lemma addPCEEdges_single:
  "distinct ks \<Longrightarrow> graph_ok g \<Longrightarrow>
   (\<And>i p. mget (pg_edges pg) i = Some p \<Longrightarrow> length (pe_RealEdges p) = 1 \<and> pid_Link i \<notin> set ks) \<Longrightarrow>
   mget (pg_edges (addPCEEdges g ks pg)) i = Some p \<Longrightarrow> length (pe_RealEdges p) = 1"
proof (induction g ks pg arbitrary: i p rule: addPCEEdges.induct)
  case (2 g k ks pg)
  show ?case
  proof (cases "mget (gr_edges g) k")
    case None
    then show ?thesis using "2.IH" [of i p] "2.prems" by force
  next
    case (Some e)
    then have k: "ed_ID e = k" using "2.prems"(2) unfolding graph_ok_def by blast
    then have "mget (pg_edges pg) (NewLinkID e) = None"
      using "2.prems"(3) [of "NewLinkID e"] by (cases "mget (pg_edges pg) (NewLinkID e)") (auto simp: NewLinkID_def)
    then have "length (pe_RealEdges q) = 1 \<and> pid_Link j \<notin> set ks"
      if "mget (pg_edges (addPCEEdge e pg)) j = Some q" for j q
      using that "2.prems"(3) [of j q] "2.prems"(1) k
      by (auto simp: addPCEEdge_def Let_def NewLinkID_def split: if_splits)
    then show ?thesis
      using "2.IH" [of i p] "2.prems"(1,2,4) Some by simp
  qed
qed simp

lemma NewPCEGraph_capacity:
  assumes ok: "graph_ok g" and e: "mget (pg_edges (NewPCEGraph g)) i = Some e"
  shows "Capacity Fin e = Fin (link_cap g i)"
proof -
  have "distinct (sort (map fst (gr_edges g)))" using ok by (simp add: graph_ok_def mwf_def)
  then have "length (pe_RealEdges e) = 1"
    by (rule addPCEEdges_single [OF _ ok _ e [unfolded NewPCEGraph_def]]) simp
  then obtain l where l: "pe_RealEdges e = [l]" by (auto simp: length_Suc_conv)
  have "link_edge i e" using NewPCEGraph_link_graph [of g] e unfolding link_graph_def by blast
  then have "NewLinkID l = i" by (simp add: link_edge_def l)
  moreover obtain k where k: "mget (gr_edges g) k = Some l"
    using NewPCEGraph_real [OF e] l by auto
  moreover have "ed_ID l = k" "ed_Bandwidth l = Fin (fin_val (ed_Bandwidth l))"
    using ok k unfolding graph_ok_def by blast+
  ultimately have "link_cap g i = fin_val (ed_Bandwidth l)"
    by (auto simp: link_cap_def NewLinkID_def)
  moreover obtain x where "ed_Bandwidth l = Fin x" using \<open>ed_Bandwidth l = _\<close> by blast
  ultimately show ?thesis by (simp add: Capacity_def l fin_val_def)
qed

lemma linkState_simps [simp]:
  "ed_ID (linkState ls now e) = ed_ID e" "ed_Bandwidth (linkState ls now e) = ed_Bandwidth e"
  by (simp_all add: linkState_def split: option.split)

lemma updateLinkStates_get:
  "mget (gr_edges (updateLinkStates cg now g)) i = map_option (linkState (cg_lastSeen cg) now) (mget (gr_edges g) i)"
  by (simp add: updateLinkStates_def mget_map_val)

lemma updateLinkStates_ok [simp]: "graph_ok g \<Longrightarrow> graph_ok (updateLinkStates cg now g)"
  unfolding graph_ok_def updateLinkStates_get by (auto simp: updateLinkStates_def intro!: mwf_map_val)

lemma updateLinkStates_cap [simp]: "link_cap (updateLinkStates cg now g) i = link_cap g i"
  by (simp add: link_cap_def updateLinkStates_get split: option.split)

text \<open>The amounts of the demands, as functions of tenant, point of presence and label.\<close>

definition repo_amounts :: "tenant_repo \<Rightarrow> tenant_amounts" where
  "repo_amounts repo t p l = fin_val (pop_mbps Fin repo t p l)"

definition repo_finite :: "tenant_repo \<Rightarrow> bool" where
  "repo_finite repo \<longleftrightarrow> repo_ok repo \<and>
     (\<forall>i t. mget (re_byID repo) i = Some t \<longrightarrow> (\<forall>s \<in> set (tn_Sites t). mbps_ok (si_ClassMbps s)))"

lemma mbps_ok_finite: "mbps_ok (si_ClassMbps s) \<Longrightarrow> site_finite s"
  unfolding mbps_ok_def site_finite_def by (auto simp: in_set_mget fin_val_def split: f64.split) (metis in_set_mget f64.distinct f64.inject)+

lemma repo_pop_mbps:
  assumes "repo_finite repo"
  shows "pop_mbps Fin repo t p l = Fin (repo_amounts repo t p l) \<and> 0 \<le> repo_amounts repo t p l"
proof (cases "mget (re_byID repo) t")
  case None
  then show ?thesis by (simp add: pop_mbps_def repo_amounts_def fin_val_def)
next
  case (Some x)
  have ok: "mbps_ok (si_ClassMbps s)" if "s \<in> set (tn_Sites x)" for s
    using assms Some that unfolding repo_finite_def by blast
  have "pop_mbps Fin repo t p l = Fin (sites_mbps (tn_Sites x) p l)"
    by (rule pop_mbps_sites [OF Some]) (use ok mbps_ok_finite in blast)
  moreover have "0 \<le> fin_val (mget0 (Fin 0) (si_ClassMbps s) l)" if "s \<in> set (tn_Sites x)" for s
    using ok [OF that] unfolding mbps_ok_def
    by (auto simp: mget0_def fin_val_def split: option.split f64.split) (metis f64.inject less_imp_le)+
  then have "0 \<le> sites_mbps (tn_Sites x) p l"
    unfolding sites_mbps_def by (intro sum_list_nonneg) auto
  ultimately show ?thesis by (simp add: repo_amounts_def fin_val_def)
qed

lemma repo_amounts_nonneg: "repo_finite repo \<Longrightarrow> nonneg_amounts (repo_amounts repo t)"
  using repo_pop_mbps by (simp add: nonneg_amounts_def)

lemma demand_reservation_amounts:
  assumes fin: "repo_finite repo" and d: "d \<in> set (BuildDemands Fin repo)"
  shows "demand_BandwidthReservation d =
    res_of (repo_amounts repo (tn_ID (dd_Tenant d))) (repo_amounts repo (tn_ID (dd_Tenant d)))
      (rv_Key (demand_BandwidthReservation d))"
proof -
  have ok: "repo_ok repo" using fin by (simp add: repo_finite_def)
  then show ?thesis
    using d repo_pop_mbps [OF fin]
    by (simp add: in_BuildDemands [OF ok] demand_BandwidthReservation_def res_of_def)
qed

lemma demand_step_registry:
  assumes "demand_step Fin v d st st'" and fin: "repo_finite repo" and d: "d \<in> set (BuildDemands Fin repo)"
    and cap: "\<And>i e. mget (pg_edges (tv_graph v)) i = Some e \<Longrightarrow> Capacity Fin e = Fin (cap i)"
    and inv: "registry_inv cap (repo_amounts repo) (repo_amounts repo) (tk_reg st)"
  shows "registry_inv cap (repo_amounts repo) (repo_amounts repo) (tk_reg st')"
proof -
  have "registry_inv cap (repo_amounts repo) (repo_amounts repo) reg'"
    if mv: "moved Fin v d from p edges (tk_reg st) reg'" for "from" p edges reg'
  proof -
    have "reg' = snd (Move Fin from edges (tn_ID (dd_Tenant d)) (res_of (repo_amounts repo (tn_ID (dd_Tenant d)))
        (repo_amounts repo (tn_ID (dd_Tenant d))) (rv_Key (demand_BandwidthReservation d))) (tk_reg st))"
      using mv demand_reservation_amounts [OF fin d] unfolding moved_def by simp
    moreover have "Capacity Fin e = Fin (cap (pe_ID e))" if "e \<in> set edges" for e
      using mv that cap unfolding moved_def by blast
    ultimately have "registry_step cap (repo_amounts repo) (repo_amounts repo) (tk_reg st) reg'"
      by (simp add: registry_move repo_amounts_nonneg [OF fin])
    then show ?thesis by (rule booked.inv_next [OF inv])
  qed
  note mv = this
  show ?thesis
    using assms(1) by (cases rule: demand_step.cases) (use inv mv in auto)
qed

lemma demand_run_registry:
  assumes fin: "repo_finite repo"
    and cap: "\<And>i e. mget (pg_edges (tv_graph v)) i = Some e \<Longrightarrow> Capacity Fin e = Fin (cap i)"
  shows "demand_run Fin v ds st st' \<Longrightarrow> set ds \<subseteq> set (BuildDemands Fin repo) \<Longrightarrow>
    registry_inv cap (repo_amounts repo) (repo_amounts repo) (tk_reg st) \<Longrightarrow>
    registry_inv cap (repo_amounts repo) (repo_amounts repo) (tk_reg st')"
proof (induction ds arbitrary: st)
  case (Cons d ds)
  then obtain st1 where "demand_step Fin v d st st1" "demand_run Fin v ds st1 st'" by auto
  then show ?case
    using Cons.IH [of st1] Cons.prems demand_step_registry [OF _ fin, of v d st st1 cap] cap by simp
qed simp

section \<open>The tick\<close>

lemma tickEnv_graph: "tv_graph (tickEnv r c p g) = NewPCEGraph (updateLinkStates (pc_costGraph p) (cl_links c) g)"
  by (simp add: tickEnv_def Let_def)

text \<open>A tick that runs is a run over the demands of the tenants.\<close>

lemma tick_run:
  assumes r: "rounding_mode r" and repo: "repo_ok tenants"
    and safe: "cg_safe (pc_costGraph p)" "reg_safe (pc_reg p)"
    and ready: "cost_graph_IsReady (cl_ready c) (pc_costGraph p)"
  shows "\<exists>st. demand_run r (tickEnv r c p g) (BuildDemands r tenants) (tickStart r (tickEnv r c p g) p) st \<and>
    cg_safe (tk_costGraph st) \<and> reg_safe (tk_reg st) \<and>
    tick r tenants c (p, g) =
      Some (tickEnd (tickEnv r c p g) p st, updateLinkStates (pc_costGraph p) (cl_links c) g, Some (tk_paths st))"
proof -
  let ?v = "tickEnv r c p g"
  have "\<forall>d \<in> set (BuildDemands r tenants). demand_safe d"
    using BuildDemands_safe [OF repo] by blast
  moreover have "cg_safe (tk_costGraph (tickStart r ?v p))" "reg_safe (tk_reg (tickStart r ?v p))"
    using safe by (simp_all add: tickStart_def updateStatic_safe [OF r])
  moreover have "pce_wf (tv_graph ?v)" by (simp add: tickEnv_graph NewPCEGraph_wf)
  ultimately obtain st where "processDemands r ?v (BuildDemands r tenants) (tickStart r ?v p) = Some st"
    "demand_run r ?v (BuildDemands r tenants) (tickStart r ?v p) st" "cg_safe (tk_costGraph st)" "reg_safe (tk_reg st)"
    using processDemands_run [OF r] by blast
  then show ?thesis using ready by (auto simp: tick_def Let_def)
qed

lemma tick_not_ready:
  "\<not> cost_graph_IsReady (cl_ready c) (pc_costGraph p) \<Longrightarrow> tick r tenants c (p, g) = Some (p, g, None)"
  by (simp add: tick_def)

lemma tickStart_simps [simp]:
  "tk_reg (tickStart r v p) = pc_reg p" "tk_previous (tickStart r v p) = pc_paths p"
  "tk_paths (tickStart r v p) = pc_paths p" "tk_lastReroute (tickStart r v p) = pc_lastReroute p"
  by (simp_all add: tickStart_def)

lemma tickEnd_simps [simp]:
  "pc_reg (tickEnd v p st) = tk_reg st" "pc_paths (tickEnd v p st) = tk_paths st"
  "pc_costGraph (tickEnd v p st) = tk_costGraph st" "pc_lastReroute (tickEnd v p st) = tk_lastReroute st"
  "pc_holdDown (tickEnd v p st) = pc_holdDown p"
  by (simp_all add: tickEnd_def)

end
