(* ===== verification/Pce_Run.thy ===== *)
theory Pce_Run
  imports Pce_Correct
begin

text \<open>
  The engine over time: a transition system whose steps are the ticks, with tenants that may
  be reloaded between them, the updates of the cost graph by the telemetry and changes of the
  topology that leave the bandwidth of the links alone. Its invariants are proved once, for
  every rounding mode, in the locale \<open>engine_model\<close>.
\<close>

section \<open>Transitions\<close>

type_synonym engine = "pce \<times> graph"

definition same_links :: "graph \<Rightarrow> graph \<Rightarrow> bool" where
  "same_links g g' \<longleftrightarrow> mwf (gr_edges g') \<and>
     (\<forall>i. map_option (\<lambda>e. (ed_ID e, ed_Bandwidth e)) (mget (gr_edges g') i) =
        map_option (\<lambda>e. (ed_ID e, ed_Bandwidth e)) (mget (gr_edges g) i))"

definition engine_start :: "rounding \<Rightarrow> engine \<Rightarrow> bool" where
  "engine_start r s \<longleftrightarrow> (\<forall>(i, e) \<in> set (gr_edges (snd s)). 0 \<le> ed_Delay e) \<and>
     (\<exists>now hold cg. NewCostGraph r now (snd s) = Inr cg \<and> fst s = NewPCE cg hold)"

inductive engine_step :: "rounding \<Rightarrow> (tenant_repo \<Rightarrow> bool) \<Rightarrow> engine \<Rightarrow> engine \<Rightarrow> bool" for r R where
  engine_tick: "R tenants \<Longrightarrow> tick r tenants c (p, g) = Some (p', g', out) \<Longrightarrow>
     engine_step r R (p, g) (p', g')"
| engine_cost: "fsafe x \<Longrightarrow>
     engine_step r R (p, g) (p\<lparr>pc_costGraph := UpdateCost i dm x (pc_costGraph p)\<rparr>, g)"
| engine_seen: "engine_step r R (p, g) (p\<lparr>pc_costGraph := MarkSeen i t (pc_costGraph p)\<rparr>, g)"
| engine_converged: "engine_step r R (p, g) (p\<lparr>pc_costGraph := MarkEdgeConverged i (pc_costGraph p)\<rparr>, g)"
| engine_topology: "same_links g g' \<Longrightarrow> engine_step r R (p, g) (p, g')"

inductive_cases engine_stepE: "engine_step r R s s'"

section \<open>Invariants\<close>

definition engine_inv :: "engine \<Rightarrow> bool" where
  "engine_inv s \<longleftrightarrow> cg_safe (pc_costGraph (fst s)) \<and> reg_safe (pc_reg (fst s)) \<and>
     booked_as_routed (pc_paths (fst s)) (pc_reg (fst s)) \<and> paths_ok (pc_paths (fst s)) \<and>
     length (pc_changes (fst s)) \<le> recentPathChangeLimit"

lemma initialCost_safe:
  assumes r: "rounding_mode r" and "0 \<le> ed_Delay e"
  shows "cost_safe (initialCost r e)"
proof -
  have "fsafe (staticUtilizationCost r (Fin 0))"
    by (rule staticUtilizationCost_safe [OF r]) simp
  moreover have "0 \<le> microseconds (ed_Delay e)"
    using assms(2) by (simp add: microseconds_def go_quot_def)
  then have "fsafe (fdiv r (fdiv r (r (of_int (microseconds (ed_Delay e)))) (Fin 1000)) costDelayReferenceMs)"
    by (intro rounding_mode.fsafe_fdiv [OF r] rounding_mode.fsafe_r [OF r]) (simp_all add: costDelayReferenceMs_def)
  ultimately show ?thesis by (simp add: cost_safe_def initialCost_def)
qed

lemma addCosts_safe:
  assumes r: "rounding_mode r" and d: "\<forall>(i, e) \<in> set (gr_edges g). 0 \<le> ed_Delay e"
  shows "addCosts r g es cg = Inr cg' \<Longrightarrow> cg_safe cg \<Longrightarrow> cg_safe cg'"
proof (induction es arbitrary: cg)
  case (Cons i es)
  then obtain e where e: "mget (gr_edges g) i = Some e" by (auto split: option.splits)
  then have "cost_safe (initialCost r e)"
    using initialCost_safe [OF r] d by (auto dest!: mget_in_set)
  then show ?case
    using Cons e by (auto simp: Let_def cg_safe_def costs_safe_mput split: if_splits)
qed simp

lemma NewCostGraph_safe:
  assumes r: "rounding_mode r" and d: "\<forall>(i, e) \<in> set (gr_edges g). 0 \<le> ed_Delay e"
    and cg: "NewCostGraph r now g = Inr cg"
  shows "cg_safe cg"
proof -
  have "addNodeCosts r g ns cg = Inr cg' \<Longrightarrow> cg_safe cg \<Longrightarrow> cg_safe cg'" for ns cg cg'
    by (induction ns arbitrary: cg) (auto simp: bind_result_eq_Inr dest: addCosts_safe [OF r d])
  then show ?thesis using cg by (simp add: NewCostGraph_def cg_safe_def costs_safe_def)
qed

lemma recordChanges_length: "length s \<le> recentPathChangeLimit \<Longrightarrow> length (recordChanges cs s) \<le> recentPathChangeLimit"
  by (simp add: recordChanges_def del: take_append)

lemma tickEnd_changes:
  "length (pc_changes p) \<le> recentPathChangeLimit \<Longrightarrow> length (pc_changes (tickEnd v p st)) \<le> recentPathChangeLimit"
  by (simp add: tickEnd_def recordChanges_length)

lemma tick_inv:
  assumes r: "rounding_mode r" and repo: "repo_ok tenants" and inv: "engine_inv (p, g)"
    and tick: "tick r tenants c (p, g) = Some (p', g', out)"
  shows "engine_inv (p', g')"
proof (cases "cost_graph_IsReady (cl_ready c) (pc_costGraph p)")
  case False
  then show ?thesis using tick inv by (simp add: tick_not_ready)
next
  case True
  have safe: "cg_safe (pc_costGraph p)" "reg_safe (pc_reg p)"
    and b: "booked_as_routed (pc_paths p) (pc_reg p)" "paths_ok (pc_paths p)"
    and len: "length (pc_changes p) \<le> recentPathChangeLimit"
    using inv by (simp_all add: engine_inv_def)
  obtain st where
    run: "demand_run r (tickEnv r c p g) (BuildDemands r tenants) (tickStart r (tickEnv r c p g) p) st" and
    st: "cg_safe (tk_costGraph st)" "reg_safe (tk_reg st)" and
    p': "p' = tickEnd (tickEnv r c p g) p st"
    using tick_run [OF r repo safe True, of g] tick by auto
  have "booked_as_routed (tk_paths st) (tk_reg st)"
    by (rule demand_run_booked [OF run BuildDemands_distinct [OF repo]]) (use b in simp_all)
  moreover have "paths_ok (tk_paths st)"
    by (rule demand_run_shape [OF run]) (use b in simp_all)
  ultimately show ?thesis
    using st by (simp add: engine_inv_def p' tickEnd_changes len)
qed

locale engine_model = rounding_mode +
  fixes R :: "tenant_repo \<Rightarrow> bool"
  assumes repos_ok: "R tenants \<Longrightarrow> repo_ok tenants"
begin

lemma start_inv: "engine_start r s \<Longrightarrow> engine_inv s"
  using NewCostGraph_safe [OF rounding_mode_axioms]
  by (auto simp: engine_start_def engine_inv_def NewPCE_def reg_safe_def reg_wf_def booking_def
      booked_as_routed_def paths_ok_def gm.wf_empty recentPathChangeLimit_def)

lemma step_inv:
  assumes "engine_inv s" and "engine_step r R s s'"
  shows "engine_inv s'"
  using assms(2)
proof (cases rule: engine_step.cases)
  case (engine_tick tenants c p g p' g' out)
  then show ?thesis using tick_inv [OF rounding_mode_axioms repos_ok] assms(1) by blast
qed (use assms(1) in \<open>auto simp: engine_inv_def UpdateCost_safe cg_safe_def MarkSeen_def MarkEdgeConverged_def
    intro: UpdateCost_safe [unfolded cg_safe_def]\<close>)

end

sublocale engine_model < run: invariant_of "engine_start r" "engine_step r R" engine_inv
  by unfold_locales (auto intro: start_inv step_inv)

context engine_model
begin

lemma always_inv: "reachable (engine_start r) (engine_step r R) s \<Longrightarrow> engine_inv s"
  by (rule run.inv_reachable)

end

interpretation exact_engine: engine_model Fin repo_ok
  by unfold_locales

interpretation ieee_engine: engine_model round64 repo_ok
  by unfold_locales

section \<open>Capacity over time\<close>







section \<open>A small network\<close>

text \<open>One tenant with a site at \<open>a\<close> and one at \<open>c\<close> of the three-node topology.\<close>

definition mini_db :: raw_tenant_db where
  "mini_db =
     \<lparr>rdb_classes = [demo_class], rdb_tiers = [],
      rdb_tenants =
        [\<lparr>rtn_id = 1, rtn_allocation = [], rtn_tier = [], rtn_vrf_table = 100,
          rtn_sites = map (\<lambda>s. s\<lparr>rsi_classes := [(''voice'', Fin 20)]\<rparr>)
            [demo_site ''s1'' ''a'' 1, demo_site ''s2'' ''c'' 2]\<rparr>]\<rparr>"

definition mini_repo :: tenant_repo where
  "mini_repo = snd (tenant_Load Fin demo_parse (Some mini_db) empty_repo)"

lemma mini_repo_load: "tenant_Load Fin demo_parse (Some mini_db) empty_repo = (None, mini_repo)"
proof -
  have "fst (tenant_Load Fin demo_parse (Some mini_db) empty_repo) = None" by code_simp
  then show ?thesis unfolding mini_repo_def by (metis prod.collapse)
qed

lemma mini_repo_ok: "repo_ok mini_repo"
  by (rule tenant_Load_repo_ok [OF mini_repo_load])


definition mini_cg :: cost_graph where
  "mini_cg = (case NewCostGraph Fin 0 demo_graph of
     Inl _ \<Rightarrow> \<lparr>cg_graph = [], cg_byID = [], cg_lastSeen = [], cg_converged = [], cg_startedAt = 0\<rparr>
   | Inr cg \<Rightarrow> cg)"

lemma mini_cg_new: "NewCostGraph Fin 0 demo_graph = Inr mini_cg"
proof -
  have "\<not> isl (NewCostGraph Fin 0 demo_graph)" by code_simp
  then show ?thesis by (cases "NewCostGraph Fin 0 demo_graph") (simp_all add: mini_cg_def)
qed

definition mini_clock :: clock where
  "mini_clock = \<lparr>cl_ready = 400 * second, cl_stamp = 400 * second, cl_links = 400 * second\<rparr>"

definition mini_pce :: pce where
  "mini_pce = NewPCE mini_cg (30 * second)"

lemma mini_start: "engine_start Fin (mini_pce, demo_graph)"
proof -
  have "\<forall>(i, e) \<in> set (gr_edges demo_graph). 0 \<le> ed_Delay e" by code_simp
  then show ?thesis using mini_cg_new by (auto simp: engine_start_def mini_pce_def)
qed

definition mini_tick :: "pce \<Rightarrow> (pce \<times> graph \<times> path_set option) option" where
  "mini_tick p = tick Fin mini_repo mini_clock (p, demo_graph)"

lemma mini_ready: "cost_graph_IsReady (cl_ready mini_clock) (pc_costGraph mini_pce)"
  by code_simp

lemma mini_tick_first:
  "map_option (\<lambda>(p, _). (map (p_Nodes \<circ> snd) (pc_paths p), length (pc_reg p))) (mini_tick mini_pce) =
     Some ([[''a'', ''c''], [''c'', ''a'']], 2)"
  by code_simp

text \<open>The same network when the path from \<open>a\<close> to \<open>c\<close> in use is the one over \<open>b\<close>.\<close>

definition mini_key :: path_key where
  "mini_key = \<lparr>pk_Tenant = 1, pk_From = ''a'', pk_To = ''c'', pk_Label = 5\<rparr>"

definition mini_link :: "NodeID \<Rightarrow> NodeID \<Rightarrow> pce_edge_id" where
  "mini_link m n =
     \<lparr>pid_Kind = PCEEdgeLink, pid_From = m, pid_To = n, pid_Group = [],
      pid_Link = m @ '':'' @ n @ ''-'' @ n @ '':'' @ m\<rparr>"

definition mini_detour :: path where
  "mini_detour =
     \<lparr>p_Nodes = [''a'', ''b'', ''c''], p_Edges = [mini_link ''a'' ''b'', mini_link ''b'' ''c''],
      p_Links = map pid_Link [mini_link ''a'' ''b'', mini_link ''b'' ''c''], p_Cost = Fin 2, p_Label = 5\<rparr>"

definition mini_detoured :: pce where
  "mini_detoured = mini_pce\<lparr>pc_paths := [(mini_key, mini_detour)]\<rparr>"

lemma mini_tick_detoured:
  "map_option (\<lambda>(p, _). (map_option p_Nodes (mget (pc_paths p) mini_key),
      map_option p_Edges (mget (pc_paths p) mini_key))) (mini_tick mini_detoured) =
     Some (Some [''a'', ''c''], Some [mini_link ''a'' ''c''])"
  by code_simp

lemma mini_safe: "cg_safe (pc_costGraph mini_pce)" "reg_safe (pc_reg mini_pce)"
  using exact_engine.start_inv [OF mini_start] by (simp_all add: engine_inv_def)

section \<open>Properties\<close>

lemma reachable_inv:
  assumes "rounding_mode r" and "reachable (engine_start r) (engine_step r repo_ok) s"
  shows "engine_inv s"
proof -
  have "engine_model r repo_ok"
    using assms(1) by (simp add: engine_model_def engine_model_axioms_def)
  then show ?thesis using assms(2) by (rule engine_model.always_inv)
qed

text \<open>C6. Whatever the telemetry reported, the tenants reloaded and the topology did before, the next
  tick returns: the search for a path and its reconstruction end for every demand.\<close>

theorem tick_returns:
  assumes "rounding_mode r" and "reachable (engine_start r) (engine_step r repo_ok) (p, g)"
    and "repo_ok tenants"
  shows "\<exists>p' g' out. tick r tenants c (p, g) = Some (p', g', out)"
proof (cases "cost_graph_IsReady (cl_ready c) (pc_costGraph p)")
  case True
  have "cg_safe (pc_costGraph p)" "reg_safe (pc_reg p)"
    using reachable_inv [OF assms(1,2)] by (simp_all add: engine_inv_def)
  from tick_run [OF assms(1,3) this True, of g] show ?thesis by blast
qed (simp add: tick_not_ready)

theorem tick_returns_witness:
  "\<exists>p' g' out. tick Fin mini_repo mini_clock (mini_pce, demo_graph) = Some (p', g', out)"
  by (rule tick_returns [OF exact.rounding_mode_axioms reachable_start mini_repo_ok]) (rule mini_start)

text \<open>C4. At all times bandwidth is booked exactly along the paths in use: a reservation key of a tenant
  is booked on an edge if and only if the stored path of that key runs over the edge. Every stored
  path leads from the first to the second point of its key without visiting a node twice and
  carries the label of its key, and at most 64 changes are kept.\<close>

theorem bookings_follow_paths:
  assumes "rounding_mode r" and "reachable (engine_start r) (engine_step r repo_ok) (p, g)"
  shows "(booking (pc_reg p) i t k \<noteq> None \<longleftrightarrow>
      (\<exists>q. mget (pc_paths p) \<lparr>pk_Tenant = t, pk_From = rk_SourcePop k, pk_To = rk_SinkPop k,
               pk_Label = rk_Label k\<rparr> = Some q \<and> i \<in> set (p_Edges q))) \<and>
    (\<forall>key q. mget (pc_paths p) key = Some q \<longrightarrow>
       hd (p_Nodes q) = pk_From key \<and> last (p_Nodes q) = pk_To key \<and> distinct (p_Nodes q) \<and>
       length (p_Nodes q) = length (p_Edges q) + 1 \<and> p_Label q = pk_Label key) \<and>
    length (pc_changes p) \<le> 64"
  using reachable_inv [OF assms]
  unfolding engine_inv_def booked_as_routed_def path_key_of_def paths_ok_def path_shape_def recentPathChangeLimit_def
  by simp

theorem bookings_follow_paths_witness:
  "\<exists>p' g' out key q i. tick Fin mini_repo mini_clock (mini_pce, demo_graph) = Some (p', g', out) \<and>
     mget (pc_paths p') key = Some q \<and> i \<in> set (p_Edges q) \<and> hd (p_Nodes q) = pk_From key \<and>
     booking (pc_reg p') i (pk_Tenant key)
       \<lparr>rk_SourcePop = pk_From key, rk_SinkPop = pk_To key, rk_Label = pk_Label key\<rparr> \<noteq> None"
proof -
  obtain p' g' out where t: "tick Fin mini_repo mini_clock (mini_pce, demo_graph) = Some (p', g', out)"
    and paths: "map (p_Nodes \<circ> snd) (pc_paths p') = [[''a'', ''c''], [''c'', ''a'']]"
    using mini_tick_first by (auto simp: mini_tick_def)
  have "reachable (engine_start Fin) (engine_step Fin repo_ok) (mini_pce, demo_graph)"
    by (rule reachable_start) (rule mini_start)
  then have "reachable (engine_start Fin) (engine_step Fin repo_ok) (p', g')"
    by (rule reachable_step) (rule engine_tick [OF _ t], rule mini_repo_ok)
  note B = bookings_follow_paths [OF exact.rounding_mode_axioms this]
  obtain key q m where m: "pc_paths p' = (key, q) # m" "p_Nodes q = [''a'', ''c'']"
    using paths by (cases "pc_paths p'") auto
  then have q: "mget (pc_paths p') key = Some q" by (simp add: mget_Cons)
  then have "length (p_Nodes q) = length (p_Edges q) + 1" "hd (p_Nodes q) = pk_From key"
    using B [of undefined undefined undefined] by blast+
  then have "length (p_Edges q) = 1" using m by simp
  then obtain i where "i \<in> set (p_Edges q)" by (cases "p_Edges q") auto
  then have "booking (pc_reg p') i (pk_Tenant key)
       \<lparr>rk_SourcePop = pk_From key, rk_SinkPop = pk_To key, rk_Label = pk_Label key\<rparr> \<noteq> None"
    using B [of i "pk_Tenant key" "\<lparr>rk_SourcePop = pk_From key, rk_SinkPop = pk_To key, rk_Label = pk_Label key\<rparr>"] q
    by (cases key) auto
  then show ?thesis using \<open>i \<in> _\<close> \<open>hd _ = _\<close> q t by blast
qed

text \<open>C5. A tick replaces a path in use by one over other edges only if the old path broke, that is its
  cost in the current graph is infinite, or if the old path costs at least 1.1 times as much as the
  new one and the path did not change within the hold-down time before; the new path is a walk of
  the current graph from the first to the second point, and the time of the change is recorded.\<close>

theorem reroute_justified:
  assumes r: "rounding_mode r" and safe: "cg_safe (pc_costGraph p)" "reg_safe (pc_reg p)"
    and repo: "repo_ok tenants" and tick: "tick r tenants c (p, g) = Some (p', g', out)"
    and old: "mget (pc_paths p) key = Some old" and new: "mget (pc_paths p') key = Some new"
    and ne: "p_Edges new \<noteq> p_Edges old"
  shows "\<exists>d \<in> set (BuildDemands r tenants). demand_PathKey d = key \<and>
    (let cost = rescorePath r old (WeightedCost r (ClassObjective (Some (dd_Class d))))
                  (NewPCEGraph g') (tv_snapshot (tickEnv r c p g))
     in cost = PInf \<or>
        \<not> flt (fdiv r cost (p_Cost new)) (r (11 / 10)) \<and>
        (\<forall>since. mget (pc_lastReroute p) key = Some since \<longrightarrow>
           pc_holdDown p \<le> time_sub (cl_stamp c) since)) \<and>
    mget (pc_lastReroute p') key = Some (cl_stamp c) \<and>
    edge_walk (NewPCEGraph g') (pk_From key) (p_Edges new) (pk_To key)"
proof -
  let ?v = "tickEnv r c p g"
  have ready: "cost_graph_IsReady (cl_ready c) (pc_costGraph p)"
    using tick old new ne by (cases "cost_graph_IsReady (cl_ready c) (pc_costGraph p)") (auto simp: tick_not_ready)
  obtain st where
    run: "demand_run r ?v (BuildDemands r tenants) (tickStart r ?v p) st" and
    p': "p' = tickEnd ?v p st" "g' = updateLinkStates (pc_costGraph p) (cl_links c) g"
    using tick_run [OF r repo safe ready, of g] tick by auto
  have graph: "tv_graph ?v = NewPCEGraph g'" by (simp add: tickEnv_graph p')
  have "key \<in> demand_PathKey ` set (BuildDemands r tenants)"
  proof (rule ccontr)
    assume "key \<notin> demand_PathKey ` set (BuildDemands r tenants)"
    from demand_run_frame [OF run this] old new ne show False by (simp add: p')
  qed
  then obtain d where d: "d \<in> set (BuildDemands r tenants)" "demand_PathKey d = key" by blast
  from demand_run_at [OF run d(1) BuildDemands_distinct [OF repo]] d(2) old new obtain st1 st2 where
    st: "demand_step r ?v d st1 st2" "mget (tk_previous st1) key = Some old" "mget (tk_paths st1) key = Some old"
      "mget (tk_paths st2) key = Some new" "mget (tk_lastReroute st1) key = mget (pc_lastReroute p) key"
      "mget (pc_lastReroute p') key = mget (tk_lastReroute st2) key"
    by (auto simp: p')
  have wf: "pce_wf (tv_graph ?v)" by (simp add: graph NewPCEGraph_wf)
  have J: "broken_path r ?v d old \<or> \<not> small_gain r ?v d old new \<and> \<not> heldDown ?v key st1"
    "mget (tk_lastReroute st2) key = Some (tv_now ?v)" "edge_walk (tv_graph ?v) (dd_From d) (p_Edges new) (dd_To d)"
    using demand_step_justified [OF st(1) wf, of old new] st(2-4) ne d(2) by auto
  have held: "heldDown ?v key st1 \<longleftrightarrow>
      (\<exists>since. mget (pc_lastReroute p) key = Some since \<and> time_sub (cl_stamp c) since < pc_holdDown p)"
    using st(5) by (simp add: heldDown_def tickEnv_def Let_def split: option.split)
  show ?thesis
  proof (intro bexI [OF _ d(1)] conjI)
    show "let cost = rescorePath r old (demand_objective r d) (NewPCEGraph g') (tv_snapshot ?v)
     in cost = PInf \<or> \<not> flt (fdiv r cost (p_Cost new)) (r (11 / 10)) \<and>
        (\<forall>since. mget (pc_lastReroute p) key = Some since \<longrightarrow> pc_holdDown p \<le> time_sub (cl_stamp c) since)"
      using J(1) held unfolding broken_path_def small_gain_def graph Let_def by (auto simp: not_less)
    show "mget (pc_lastReroute p') key = Some (cl_stamp c)"
      using J(2) st(6) by (simp add: tickEnv_def Let_def)
    show "edge_walk (NewPCEGraph g') (pk_From key) (p_Edges new) (pk_To key)"
      using J(3) d(2) by (auto simp: graph demand_PathKey_def)
  qed (rule d(2))
qed

theorem reroute_justified_witness:
  "\<exists>p' g' out. tick Fin mini_repo mini_clock (mini_detoured, demo_graph) = Some (p', g', out) \<and>
     mget (pc_lastReroute p') mini_key = Some (400 * second) \<and>
     edge_walk (NewPCEGraph g') ''a'' [mini_link ''a'' ''c''] ''c''"
proof -
  obtain p' g' out new where t: "tick Fin mini_repo mini_clock (mini_detoured, demo_graph) = Some (p', g', out)"
    and new: "mget (pc_paths p') mini_key = Some new" "p_Edges new = [mini_link ''a'' ''c'']"
    using mini_tick_detoured by (auto simp: mini_tick_def)
  have "cg_safe (pc_costGraph mini_detoured)" "reg_safe (pc_reg mini_detoured)"
    "mget (pc_paths mini_detoured) mini_key = Some mini_detour" "p_Edges new \<noteq> p_Edges mini_detour"
    using mini_safe by (simp_all add: mini_detoured_def mget_Cons new mini_detour_def)
  from reroute_justified [OF exact.rounding_mode_axioms this(1,2) mini_repo_ok t this(3) new(1) this(4)]
  show ?thesis using t new by (auto simp: mini_clock_def mini_key_def)
qed



end
