(* ===== verification/Pce_Report.thy ===== *)
theory Pce_Report
  imports Pce
begin



definition cause_ok :: "(cost_key, cost) gomap \<Rightarrow> (NodeID \<times> NodeID) set \<Rightarrow> cause \<Rightarrow> bool" where
  "cause_ok was H c \<longleftrightarrow>
     (\<exists>w n. ca_Was c = Fin w \<and> ca_Now c = Fin n \<and> w < n \<and> ca_Delta c = Fin (n - w)) \<and>
     (\<exists>k cs. (k, cs) \<in> set was \<and> ck_ID k = ca_Edge c \<and> (ck_From k, ck_To k) \<in> H)"

definition causes_ok :: "(cost_key, cost) gomap \<Rightarrow> (NodeID \<times> NodeID) set \<Rightarrow> cause list \<times> f64 \<Rightarrow> bool" where
  "causes_ok was H acc \<longleftrightarrow> snd acc = Fin (sum_list (map (fin_val \<circ> ca_Delta) (fst acc))) \<and>
     (\<forall>c \<in> set (fst acc). cause_ok was H c)"




lemma causes_ok_mono: "causes_ok was H acc \<Longrightarrow> H \<subseteq> H' \<Longrightarrow> causes_ok was H' acc"
  unfolding causes_ok_def cause_ok_def by blast






section \<open>Properties\<close>










end
