(* ===== verification/Sid_Alloc.thy ===== *)
theory Sid_Alloc
  imports Netip "HOL-Library.Word"
begin

unbundle bit_operations_syntax

text \<open>
  Allocation of segment identifiers (\<^verbatim>\<open>services/control-plane/hash.go\<close>,
  \<^verbatim>\<open>service_registry_sid.go\<close> and the part of \<^verbatim>\<open>service_registry.go\<close> that restores them): a
  cursor is mapped to a function identifier in 16-bit arithmetic, the identifier is written
  into the locator of a node, and the pair of locator and tenant keeps it. The two tables of
  the data store are part of the state; whether a transaction succeeds is an argument.
\<close>

section \<open>Function identifiers\<close>

definition sid_low :: "16 word" where "sid_low = 0xf001"
definition sid_high :: "16 word" where "sid_high = 0xffff"
definition sid_n :: "16 word" where "sid_n = sid_high - sid_low + 1"
definition sid_a :: "16 word" where "sid_a = 1366"
definition sid_c :: "16 word" where "sid_c = 1247"

definition permute :: "16 word \<Rightarrow> 16 word" where
  "permute cursor =
     (let x = cursor mod sid_n; y = (sid_a * x + sid_c) mod sid_n in sid_low + y)"

section \<open>Addresses\<close>

definition addr_as16 :: "addr \<Rightarrow> 128 word" where
  "addr_as16 a =
     (case a of AddrZero \<Rightarrow> 0 | Addr4 x \<Rightarrow> push_bit 32 0xffff OR ucast x | Addr6 w \<Rightarrow> w)"

text \<open>Writing two bytes at a byte offset, most significant first.\<close>

definition putUint16 :: "nat \<Rightarrow> 16 word \<Rightarrow> 128 word \<Rightarrow> 128 word" where
  "putUint16 offset v w =
     (w AND NOT (push_bit (112 - 8 * offset) 0xffff)) OR push_bit (112 - 8 * offset) (ucast v)"

definition withHextets :: "prefix \<Rightarrow> nat \<Rightarrow> 16 word \<Rightarrow> addr" where
  "withHextets base offsetBits funcID =
     Addr6 (putUint16 (offsetBits div 8) funcID (addr_as16 (prefix_addr base)))"

section \<open>Allocation\<close>

record sid_row =
  sw_Sid :: addr
  sw_Locator :: prefix
  sw_TenantID :: string
  sw_SidType :: string

record sid_state =
  sd_allocated :: "(addr, bool) gomap"
  sd_tenant :: "(string, addr) gomap"
  sd_cursor :: "16 word"
  sd_rows :: "sid_row list"
  sd_dbCursor :: "16 word"

datatype sid_error = ErrSIDStore | ErrSIDCollisions

definition MaxSIDCollisionChecks :: nat where
  "MaxSIDCollisionChecks = 5"

definition tenantMapKey :: "prefix \<Rightarrow> string \<Rightarrow> string \<Rightarrow> string" where
  "tenantMapKey loc tid ty = addr_string (prefix_addr loc) @ ''.'' @ tid @ ''.'' @ ty"

definition nextSID :: "prefix \<Rightarrow> sid_state \<Rightarrow> addr" where
  "nextSID loc st = withHextets loc 48 (permute (sd_cursor st))"

definition storeSID :: "prefix \<Rightarrow> string \<Rightarrow> string \<Rightarrow> sid_state \<Rightarrow> sid_state" where
  "storeSID loc tid ty st =
     (let sid = nextSID loc st
      in st\<lparr>sd_rows := sd_rows st @ [\<lparr>sw_Sid = sid, sw_Locator = loc, sw_TenantID = tid, sw_SidType = ty\<rparr>],
            sd_dbCursor := sd_cursor st + 1, sd_cursor := sd_cursor st + 1,
            sd_tenant := mput (tenantMapKey loc tid ty) sid (sd_tenant st),
            sd_allocated := mput sid True (sd_allocated st)\<rparr>)"

fun sidLoop :: "bool \<Rightarrow> nat \<Rightarrow> prefix \<Rightarrow> string \<Rightarrow> string \<Rightarrow> sid_state \<Rightarrow>
    (sid_error, addr) result \<times> sid_state" where
  "sidLoop commit 0 loc tid ty st = (Inl ErrSIDCollisions, st)"
| "sidLoop commit (Suc k) loc tid ty st =
     (if mget0 False (sd_allocated st) (nextSID loc st) then
        sidLoop commit k loc tid ty (st\<lparr>sd_cursor := sd_cursor st + 1\<rparr>)
      else if \<not> commit then (Inl ErrSIDStore, st)
      else (Inr (nextSID loc st), storeSID loc tid ty st))"

definition getOrGenerateSID :: "bool \<Rightarrow> prefix \<Rightarrow> string \<Rightarrow> string \<Rightarrow> sid_state \<Rightarrow>
    (sid_error, addr) result \<times> sid_state" where
  "getOrGenerateSID commit loc tid ty st =
     (case mget (sd_tenant st) (tenantMapKey loc tid ty) of
        Some sid \<Rightarrow> (Inr sid, st\<lparr>sd_allocated := mput sid True (sd_allocated st)\<rparr>)
      | None \<Rightarrow> sidLoop commit MaxSIDCollisionChecks loc tid ty st)"

text \<open>A fresh registry, and the allocations read back from the data store.\<close>

definition newSIDs :: "16 word \<Rightarrow> sid_state" where
  "newSIDs cursor =
     \<lparr>sd_allocated = [], sd_tenant = [], sd_cursor = cursor, sd_rows = [], sd_dbCursor = cursor\<rparr>"

definition restoreRow :: "sid_row \<Rightarrow> sid_state \<Rightarrow> sid_state" where
  "restoreRow al st =
     st\<lparr>sd_allocated := mput (sw_Sid al) True (sd_allocated st),
        sd_tenant := mput (tenantMapKey (sw_Locator al) (sw_TenantID al) (sw_SidType al)) (sw_Sid al)
          (sd_tenant st)\<rparr>"

definition restoreSIDs :: "sid_row list \<Rightarrow> 16 word \<Rightarrow> sid_state" where
  "restoreSIDs rows cursor =
     fold restoreRow rows (newSIDs cursor)\<lparr>sd_rows := rows\<rparr>"

section \<open>Invariant\<close>

inductive sid_step :: "sid_state \<Rightarrow> sid_state \<Rightarrow> bool" where
  sid_get: "sid_step st (snd (getOrGenerateSID commit loc tid ty st))"

definition row_key :: "sid_row \<Rightarrow> string" where
  "row_key w = tenantMapKey (sw_Locator w) (sw_TenantID w) (sw_SidType w)"

text \<open>
  The rows of the data store, the tenants' identifiers and the allocated addresses agree, and
  no address has two keys.
\<close>

definition sid_inv :: "sid_state \<Rightarrow> bool" where
  "sid_inv st \<longleftrightarrow> mwf (sd_tenant st) \<and> mwf (sd_allocated st) \<and>
     distinct (map row_key (sd_rows st)) \<and> distinct (map sw_Sid (sd_rows st)) \<and>
     (\<forall>k a. mget (sd_tenant st) k = Some a \<longleftrightarrow> (k, a) \<in> (\<lambda>w. (row_key w, sw_Sid w)) ` set (sd_rows st)) \<and>
     (\<forall>a. mget0 False (sd_allocated st) a \<longleftrightarrow> a \<in> sw_Sid ` set (sd_rows st))"

lemma sid_inv_tenant:
  "sid_inv st \<Longrightarrow> mget (sd_tenant st) k = Some a \<longleftrightarrow> (\<exists>w \<in> set (sd_rows st). row_key w = k \<and> sw_Sid w = a)"
  unfolding sid_inv_def by (auto simp: image_iff)

lemma sid_inv_new: "sid_inv (newSIDs c)"
  by (simp add: sid_inv_def newSIDs_def gm.wf_empty mget0_def)

lemma sid_inv_cursor [simp]: "sid_inv (st\<lparr>sd_cursor := c\<rparr>) = sid_inv st"
  by (simp add: sid_inv_def)

lemma storeSID_inv:
  assumes inv: "sid_inv st" and new: "mget (sd_tenant st) (tenantMapKey loc tid ty) = None"
    and free: "\<not> mget0 False (sd_allocated st) (nextSID loc st)"
  shows "sid_inv (storeSID loc tid ty st)"
proof -
  let ?w = "\<lparr>sw_Sid = nextSID loc st, sw_Locator = loc, sw_TenantID = tid, sw_SidType = ty\<rparr>"
  have key: "row_key ?w = tenantMapKey loc tid ty" by (simp add: row_key_def)
  have rel: "mget (sd_tenant st) k = Some a \<longleftrightarrow> (k, a) \<in> (\<lambda>w. (row_key w, sw_Sid w)) ` set (sd_rows st)"
    "mget0 False (sd_allocated st) a \<longleftrightarrow> a \<in> sw_Sid ` set (sd_rows st)" for k a
    using inv unfolding sid_inv_def by blast+
  have "nextSID loc st \<notin> sw_Sid ` set (sd_rows st)" using free rel(2) by blast
  moreover have "tenantMapKey loc tid ty \<notin> row_key ` set (sd_rows st)"
  proof
    assume "tenantMapKey loc tid ty \<in> row_key ` set (sd_rows st)"
    then obtain w where "w \<in> set (sd_rows st)" "row_key w = tenantMapKey loc tid ty" by auto
    then have "mget (sd_tenant st) (tenantMapKey loc tid ty) = Some (sw_Sid w)"
      unfolding rel(1) by force
    then show False using new by simp
  qed
  ultimately show ?thesis
    using inv rel key new
    by (auto simp: sid_inv_def storeSID_def Let_def gm.wf_put)
qed

lemma sidLoop_inv:
  "sid_inv st \<Longrightarrow> mget (sd_tenant st) (tenantMapKey loc tid ty) = None \<Longrightarrow>
   sid_inv (snd (sidLoop commit k loc tid ty st))"
  by (induction commit k loc tid ty st rule: sidLoop.induct) (auto intro: storeSID_inv)

lemma getOrGenerateSID_inv:
  assumes inv: "sid_inv st"
  shows "sid_inv (snd (getOrGenerateSID commit loc tid ty st))"
proof (cases "mget (sd_tenant st) (tenantMapKey loc tid ty)")
  case None
  then show ?thesis using sidLoop_inv [OF inv] by (simp add: getOrGenerateSID_def)
next
  case (Some sid)
  have "sid \<in> sw_Sid ` set (sd_rows st)"
    using inv Some unfolding sid_inv_def by blast
  moreover have "snd (getOrGenerateSID commit loc tid ty st) = st\<lparr>sd_allocated := mput sid True (sd_allocated st)\<rparr>"
    using Some by (simp add: getOrGenerateSID_def)
  ultimately show ?thesis
    using inv unfolding sid_inv_def by (simp add: gm.wf_put)
qed

interpretation sids: invariant_of "\<lambda>st. \<exists>c. st = newSIDs c" sid_step sid_inv
  by unfold_locales (auto simp: sid_inv_new getOrGenerateSID_inv elim: sid_step.cases)

section \<open>What an allocation does\<close>

lemma sidLoop_spec:
  assumes "mget (sd_tenant st) (tenantMapKey loc tid ty) = None"
    and "sidLoop commit k loc tid ty st = (res, st')"
  shows "(\<exists>err. res = Inl err \<and> sd_tenant st' = sd_tenant st \<and> sd_allocated st' = sd_allocated st \<and>
      sd_rows st' = sd_rows st \<and> sd_dbCursor st' = sd_dbCursor st) \<or>
    (\<exists>f. res = Inr (withHextets loc 48 (permute f)) \<and>
      \<not> mget0 False (sd_allocated st) (withHextets loc 48 (permute f)) \<and>
      sd_tenant st' = mput (tenantMapKey loc tid ty) (withHextets loc 48 (permute f)) (sd_tenant st) \<and>
      sd_dbCursor st' = sd_cursor st')"
  using assms
proof (induction commit k loc tid ty st rule: sidLoop.induct)
  case (2 commit k loc tid ty st)
  show ?case
  proof (cases "mget0 False (sd_allocated st) (nextSID loc st)")
    case True
    then show ?thesis using 2 by simp
  next
    case False
    then show ?thesis
      using "2.prems" by (auto simp: storeSID_def Let_def nextSID_def split: if_splits)
  qed
qed auto

lemma sidLoop_fails:
  "(\<And>j. j < k \<Longrightarrow> mget0 False (sd_allocated st) (withHextets loc 48 (permute (sd_cursor st + of_nat j)))) \<Longrightarrow>
   fst (sidLoop commit k loc tid ty st) = Inl ErrSIDCollisions"
proof (induction k arbitrary: st)
  case (Suc k)
  have "mget0 False (sd_allocated st) (nextSID loc st)"
    using Suc.prems [of 0] by (simp add: nextSID_def)
  moreover have "fst (sidLoop commit k loc tid ty (st\<lparr>sd_cursor := sd_cursor st + 1\<rparr>)) = Inl ErrSIDCollisions"
    by (rule Suc.IH) (use Suc.prems [of "Suc _"] in \<open>simp add: add.assoc\<close>)
  ultimately show ?case by simp
qed simp

section \<open>The image of the function\<close>

lemma permute_mod: "permute x = permute (x mod sid_n)"
proof -
  have "x mod sid_n mod sid_n = x mod sid_n"
    by (simp add: word_unat_eq_iff unat_mod)
  then show ?thesis by (simp add: permute_def)
qed

lemma permute_collisions:
  "permute 42 = permute 2111" "permute 43 = permute 2112" "permute 44 = permute 2113"
  "permute 45 = permute 2114" "permute 46 = permute 2115"
  by code_simp+

lemma sid_n_eq: "sid_n = 4095"
  by code_simp

lemma card_permute: "card (range permute) < 4095"
proof -
  let ?A = "(of_nat :: nat \<Rightarrow> 16 word) ` ({..<4095} - {2111})"
  have "permute x \<in> permute ` ?A" for x
  proof -
    define m where "m = unat (x mod sid_n)"
    have "x mod sid_n < sid_n" by (rule word_mod_less_divisor) (simp add: sid_n_eq)
    then have m: "m < 4095" "x mod sid_n = of_nat m"
      by (simp_all add: m_def sid_n_eq word_less_nat_alt)
    show ?thesis
    proof (cases "m = 2111")
      case True
      have "permute x = permute (of_nat m)"
        by (subst permute_mod, subst m(2)) (rule refl)
      also have "\<dots> = permute (of_nat 42)"
        unfolding True of_nat_numeral by (rule permute_collisions(1) [symmetric])
      finally show ?thesis by (rule image_eqI) (rule imageI, simp)
    next
      case False
      have "permute x = permute (of_nat m)"
        by (subst permute_mod, subst m(2)) (rule refl)
      then show ?thesis by (rule image_eqI) (use m(1) False in blast)
    qed
  qed
  then have "card (range permute) \<le> card (permute ` ?A)"
    by (intro card_mono) auto
  also have "\<dots> \<le> card ({..<4095} - {2111 :: nat})"
    by (meson card_image_le finite_Diff finite_imageI finite_lessThan order_trans)
  finally show ?thesis by simp
qed

section \<open>Addresses inside the locator\<close>

lemma putUint16_high:
  assumes "bit w i \<noteq> bit (putUint16 6 v w) i"
  shows "64 \<le> i \<and> i < 80"
proof (rule ccontr)
  assume out: "\<not> (64 \<le> i \<and> i < 80)"
  have mask: "(0xffff :: 128 word) = mask 16" by (simp add: mask_eq_exp_minus_1)
  have "bit (putUint16 6 v w) i = bit w i"
    using out unfolding putUint16_def mask bit_or_iff bit_and_iff bit_not_iff bit_push_bit_iff bit_mask_iff bit_ucast_iff
    by (auto dest: bit_imp_le_length)
  then show False using assms by simp
qed

lemma withHextets_contains:
  assumes "prefix_addr loc = Addr6 w" and "0 \<le> prefix_bits loc" and "prefix_bits loc \<le> 48"
  shows "prefix_contains loc (withHextets loc 48 f)"
proof -
  obtain n where loc: "loc = Prefix (Addr6 w) n" using assms(1) by (cases loc) auto
  let ?v = "putUint16 6 f w"
  have "drop_bit (128 - nat n) (w XOR ?v) = 0"
  proof (rule bit_eqI)
    fix i
    have "80 \<le> 128 - nat n + i" using assms(3) by (simp add: loc)
    then have "bit w (128 - nat n + i) = bit ?v (128 - nat n + i)"
      using putUint16_high [of w "128 - nat n + i" f] by linarith
    then have "\<not> bit (w XOR ?v) (128 - nat n + i)" by (simp add: bit_xor_iff)
    then show "bit (drop_bit (128 - nat n) (w XOR ?v)) i = bit 0 i" unfolding bit_drop_bit_eq by (simp add: bit_xor_iff)
  qed
  then show ?thesis using assms(2) by (simp add: loc withHextets_def addr_as16_def)
qed

section \<open>Restoring\<close>

lemma fold_restore:
  "distinct (map row_key rows) \<Longrightarrow> mwf (sd_tenant st) \<Longrightarrow>
   (mget (sd_tenant (fold restoreRow rows st)) k =
      (case find (\<lambda>w. row_key w = k) rows of Some w \<Rightarrow> Some (sw_Sid w) | None \<Rightarrow> mget (sd_tenant st) k)) \<and>
   (mget0 False (sd_allocated (fold restoreRow rows st)) a \<longleftrightarrow>
      a \<in> sw_Sid ` set rows \<or> mget0 False (sd_allocated st) a) \<and>
   sd_cursor (fold restoreRow rows st) = sd_cursor st"
proof (induction rows arbitrary: st)
  case (Cons w rows)
  have "find (\<lambda>x. row_key x = row_key w) rows = None"
    using Cons.prems(1) by (auto simp: find_None_iff image_iff)
  then show ?case
    using Cons.IH [of "restoreRow w st"] Cons.prems
    by (auto simp: restoreRow_def row_key_def [symmetric] gm.wf_put split: option.splits)
qed simp

section \<open>Properties\<close>

text \<open>C21. In every state that the registry reaches, an address belongs to at most one key of locator,
  tenant and kind; a key keeps the address it was given, in this and in every later allocation;
  a new key gets an address that was not allocated before; and a request that fails, for lack of a
  free address or because the data store refused, changes neither the addresses nor the tables.\<close>

theorem getOrGenerateSID_unique:
  assumes reach: "reachable (\<lambda>st. \<exists>c. st = newSIDs c) sid_step st"
    and get: "getOrGenerateSID commit loc tid ty st = (res, st')"
  shows "(\<forall>k k' a. mget (sd_tenant st') k = Some a \<longrightarrow> mget (sd_tenant st') k' = Some a \<longrightarrow> k = k') \<and>
    (\<forall>k a. mget (sd_tenant st) k = Some a \<longrightarrow> mget (sd_tenant st') k = Some a) \<and>
    (\<forall>a. res = Inr a \<longrightarrow> mget (sd_tenant st') (tenantMapKey loc tid ty) = Some a \<and>
       (mget (sd_tenant st) (tenantMapKey loc tid ty) = None \<longrightarrow> \<not> mget0 False (sd_allocated st) a)) \<and>
    (\<forall>err. res = Inl err \<longrightarrow> sd_tenant st' = sd_tenant st \<and> sd_allocated st' = sd_allocated st \<and>
       sd_rows st' = sd_rows st \<and> sd_dbCursor st' = sd_dbCursor st)"
proof -
  have inv: "sid_inv st" by (rule sids.inv_reachable [OF reach])
  have "sid_inv st'" using getOrGenerateSID_inv [OF inv] get by (metis snd_conv)
  then have uniq: "k = k'" if k: "mget (sd_tenant st') k = Some a" "mget (sd_tenant st') k' = Some a" for k k' a
  proof -
    obtain w w' where w: "w \<in> set (sd_rows st')" "row_key w = k" "sw_Sid w = a"
      "w' \<in> set (sd_rows st')" "row_key w' = k'" "sw_Sid w' = a"
      using k unfolding sid_inv_tenant [OF \<open>sid_inv st'\<close>] by blast
    moreover have "inj_on sw_Sid (set (sd_rows st'))"
      using \<open>sid_inv st'\<close> by (simp add: sid_inv_def distinct_map)
    ultimately show ?thesis by (metis inj_onD)
  qed
  have rest: "(\<forall>k a. mget (sd_tenant st) k = Some a \<longrightarrow> mget (sd_tenant st') k = Some a) \<and>
    (\<forall>a. res = Inr a \<longrightarrow> mget (sd_tenant st') (tenantMapKey loc tid ty) = Some a \<and>
       (mget (sd_tenant st) (tenantMapKey loc tid ty) = None \<longrightarrow> \<not> mget0 False (sd_allocated st) a)) \<and>
    (\<forall>err. res = Inl err \<longrightarrow> sd_tenant st' = sd_tenant st \<and> sd_allocated st' = sd_allocated st \<and>
       sd_rows st' = sd_rows st \<and> sd_dbCursor st' = sd_dbCursor st)"
  proof (cases "mget (sd_tenant st) (tenantMapKey loc tid ty)")
    case None
    then have "sidLoop commit MaxSIDCollisionChecks loc tid ty st = (res, st')"
      using get by (simp add: getOrGenerateSID_def)
    from sidLoop_spec [OF None this] show ?thesis
    proof (elim disjE exE conjE)
      fix err assume "res = Inl err" "sd_tenant st' = sd_tenant st" "sd_allocated st' = sd_allocated st"
        "sd_rows st' = sd_rows st" "sd_dbCursor st' = sd_dbCursor st"
      then show ?thesis by simp
    next
      fix f assume "res = Inr (withHextets loc 48 (permute f))"
        "\<not> mget0 False (sd_allocated st) (withHextets loc 48 (permute f))"
        "sd_tenant st' = mput (tenantMapKey loc tid ty) (withHextets loc 48 (permute f)) (sd_tenant st)"
      then show ?thesis using None by simp
    qed
  next
    case (Some a)
    then have "res = Inr a" "st' = st\<lparr>sd_allocated := mput a True (sd_allocated st)\<rparr>"
      using get by (simp_all add: getOrGenerateSID_def)
    then show ?thesis using Some by simp
  qed
  show ?thesis
    by (rule conjI [OF _ rest]) (intro allI impI, rule uniq)
qed

definition demo_locator :: prefix where
  "demo_locator = Prefix (Addr6 0xfc000000000100000000000000000000) 48"

lemma first_SID:
  "getOrGenerateSID True loc tid ty (newSIDs c) = (Inr (withHextets loc 48 (permute c)), storeSID loc tid ty (newSIDs c))"
  by (simp add: getOrGenerateSID_def MaxSIDCollisionChecks_def numeral_eq_Suc newSIDs_def mget0_def nextSID_def)

theorem getOrGenerateSID_unique_witness:
  "\<exists>a st'. getOrGenerateSID True demo_locator ''1'' ''dt46'' (newSIDs 0) = (Inr a, st') \<and>
     mget (sd_tenant st') (tenantMapKey demo_locator ''1'' ''dt46'') = Some a"
proof -
  obtain a st' where g: "getOrGenerateSID True demo_locator ''1'' ''dt46'' (newSIDs 0) = (Inr a, st')"
    using first_SID by blast
  have "reachable (\<lambda>st. \<exists>c. st = newSIDs c) sid_step (newSIDs 0)"
    by (rule reachable_start) blast
  from getOrGenerateSID_unique [OF this g] g show ?thesis by blast
qed

text \<open>A new address lies inside the locator of its node, when the locator is an IPv6 prefix of at
  most 48 bits.\<close>

theorem generated_SID_in_locator:
  assumes "prefix_addr loc = Addr6 w" and "0 \<le> prefix_bits loc" and "prefix_bits loc \<le> 48"
    and "mget (sd_tenant st) (tenantMapKey loc tid ty) = None"
    and "getOrGenerateSID commit loc tid ty st = (Inr a, st')"
  shows "prefix_contains loc a"
proof -
  have "sidLoop commit MaxSIDCollisionChecks loc tid ty st = (Inr a, st')"
    using assms(4,5) by (simp add: getOrGenerateSID_def)
  from sidLoop_spec [OF assms(4) this] withHextets_contains [OF assms(1-3)] show ?thesis by auto
qed

theorem generated_SID_in_locator_witness:
  "\<exists>a st'. getOrGenerateSID True demo_locator ''1'' ''dt46'' (newSIDs 0) = (Inr a, st') \<and> prefix_contains demo_locator a"
proof -
  obtain a st' where g: "getOrGenerateSID True demo_locator ''1'' ''dt46'' (newSIDs 0) = (Inr a, st')"
    using first_SID by blast
  have "mget (sd_tenant (newSIDs 0)) (tenantMapKey demo_locator ''1'' ''dt46'') = None"
    by (simp add: newSIDs_def)
  from generated_SID_in_locator [OF _ _ _ this g, of "0xfc000000000100000000000000000000"] g show ?thesis
    by (auto simp: demo_locator_def)
qed

text \<open>C30. Reading the allocations back after a restart, in whatever order the data store lists them,
  gives the same addresses to the same keys, marks the same addresses as allocated and continues
  with the stored cursor.\<close>

theorem restoreSIDs_roundtrip:
  assumes "reachable (\<lambda>st. \<exists>c. st = newSIDs c) sid_step st" and "mset rows = mset (sd_rows st)"
  shows "mget (sd_tenant (restoreSIDs rows (sd_dbCursor st))) k = mget (sd_tenant st) k \<and>
    mget0 False (sd_allocated (restoreSIDs rows (sd_dbCursor st))) a = mget0 False (sd_allocated st) a \<and>
    sd_cursor (restoreSIDs rows (sd_dbCursor st)) = sd_dbCursor st"
proof -
  have inv: "sid_inv st" by (rule sids.inv_reachable [OF assms(1)])
  have set: "set rows = set (sd_rows st)" using assms(2) by (metis set_mset_mset)
  have "mset (map row_key rows) = mset (map row_key (sd_rows st))" using assms(2) by (simp only: mset_map)
  then have dist: "distinct (map row_key rows)"
    using inv mset_eq_imp_distinct_iff unfolding sid_inv_def by blast
  note F = fold_restore [OF dist, of "newSIDs (sd_dbCursor st)" k a]
  have find: "(case find (\<lambda>w. row_key w = k) rows of Some w \<Rightarrow> Some (sw_Sid w) | None \<Rightarrow> None) = mget (sd_tenant st) k"
  proof (cases "find (\<lambda>w. row_key w = k) rows")
    case None
    then have "mget (sd_tenant st) k \<noteq> Some b" for b
      unfolding sid_inv_tenant [OF inv] find_None_iff set by blast
    then show ?thesis using None by (cases "mget (sd_tenant st) k") auto
  next
    case (Some w)
    then have "w \<in> set (sd_rows st)" "row_key w = k"
      using set by (auto simp: find_Some_iff)
    then have "mget (sd_tenant st) k = Some (sw_Sid w)"
      unfolding sid_inv_tenant [OF inv] by blast
    then show ?thesis using Some by simp
  qed
  have "mget0 False (sd_allocated st) a \<longleftrightarrow> a \<in> sw_Sid ` set rows"
    using inv set unfolding sid_inv_def by blast
  then show ?thesis
    using F find by (simp add: restoreSIDs_def newSIDs_def gm.wf_empty mget0_def cong: option.case_cong)
qed

theorem restoreSIDs_roundtrip_witness:
  "mget (sd_tenant (restoreSIDs (sd_rows (storeSID demo_locator ''1'' ''dt46'' (newSIDs 7)))
      (sd_dbCursor (storeSID demo_locator ''1'' ''dt46'' (newSIDs 7))))) (tenantMapKey demo_locator ''1'' ''dt46'') =
   Some (withHextets demo_locator 48 (permute 7))"
proof -
  let ?st = "storeSID demo_locator ''1'' ''dt46'' (newSIDs 7)"
  have "reachable (\<lambda>st. \<exists>c. st = newSIDs c) sid_step (newSIDs 7)"
    by (rule reachable_start) blast
  moreover have "sid_step (newSIDs 7) ?st"
    using sid_get [of "newSIDs 7" True demo_locator "''1''" "''dt46''"] by (simp add: first_SID)
  ultimately have "reachable (\<lambda>st. \<exists>c. st = newSIDs c) sid_step ?st"
    by (rule reachable_step)
  from restoreSIDs_roundtrip [OF this refl] show ?thesis
    by (simp add: storeSID_def Let_def nextSID_def newSIDs_def)
qed

text \<open>C31. The 16-bit arithmetic wraps, so the function is not the permutation it is meant to be: it has
  fewer values than there are identifiers from 0xf001 to 0xffff, and once the first 2111 cursors
  are used for one locator the next request fails although free identifiers are left.\<close>

theorem sid_allocation_stalls:
  assumes "\<forall>j < 2111. mget0 False (sd_allocated st) (withHextets loc 48 (permute (of_nat j)))"
    and "sd_cursor st = 2111" and "mget (sd_tenant st) (tenantMapKey loc tid ty) = None"
  shows "fst (getOrGenerateSID commit loc tid ty st) = Inl ErrSIDCollisions \<and>
    card (range permute) < unat (sid_high - sid_low) + 1"
proof
  have used: "mget0 False (sd_allocated st) (withHextets loc 48 (permute (2111 + of_nat j)))" if "j < 5" for j
  proof -
    have c: "permute (2111 + of_nat j) = permute (of_nat (42 + j))"
      using that permute_collisions by (auto simp: less_Suc_eq numeral_eq_Suc)
    show ?thesis using assms(1) that by (simp only: c)
  qed
  show "fst (getOrGenerateSID commit loc tid ty st) = Inl ErrSIDCollisions"
    using sidLoop_fails [of MaxSIDCollisionChecks st loc commit tid ty] used assms(2,3)
    by (simp add: getOrGenerateSID_def MaxSIDCollisionChecks_def)
  have "unat (sid_high - sid_low) + 1 = 4095" by code_simp
  then show "card (range permute) < unat (sid_high - sid_low) + 1" using card_permute by simp
qed

definition stalled :: sid_state where
  "stalled = (newSIDs 2111)\<lparr>sd_allocated :=
     map (\<lambda>j. (withHextets demo_locator 48 (permute (of_nat j)), True)) [0..<2111]\<rparr>"

theorem sid_allocation_stalls_witness:
  "fst (getOrGenerateSID True demo_locator ''1'' ''dt46'' stalled) = Inl ErrSIDCollisions"
proof -
  have "mget0 False (sd_allocated stalled) (withHextets demo_locator 48 (permute (of_nat j)))" if "j < 2111" for j
  proof -
    let ?m = "map (\<lambda>j. (withHextets demo_locator 48 (permute (of_nat j)), True)) [0..<2111]"
    have "mget ?m (withHextets demo_locator 48 (permute (of_nat j))) \<noteq> None"
      unfolding mget_None_fst using that by force
    moreover have "b" if "mget ?m x = Some b" for x b
      using mget_in_set [OF that] by auto
    ultimately show ?thesis by (auto simp: stalled_def mget0_def)
  qed
  then show ?thesis
    using sid_allocation_stalls [of stalled demo_locator "''1''" "''dt46''" True]
    by (simp add: stalled_def newSIDs_def)
qed

end
