(* ===== verification/Intents.thy ===== *)
theory Intents
  imports Netip "HOL-Library.Word"
begin

text \<open>
  What the control plane asks of the nodes (\<^verbatim>\<open>libs/nodesync\<close>): the intents of provider edge
  (PE) and customer premises (CPE) nodes, and the keys under which they are published. The
  deep copies of \<^verbatim>\<open>Clone\<close> are not needed for values.
\<close>

record portal_intent =
  po_HostFacingInterface :: string
  po_TunnelInterfaceID :: "32 word"
  po_SitePrefix :: prefix
  po_TenantPrefix :: prefix

record install_intent =
  io_TenantID :: string
  io_PrefixRoutes :: "prefix list"
  io_Segments :: "addr list"
  io_Color :: "64 word"

record tenant_intent =
  ti_PortalIntents :: "(string, portal_intent) gomap"
  ti_DT46SID :: addr
  ti_InstallPaths :: "install_intent list"

record class_intent =
  cl_Color :: "64 word"
  cl_DSCP :: "int list"

record peer_intent =
  pr_PeerID :: string
  pr_PeerLoopback :: prefix
  pr_LocalLoopback :: prefix
  pr_PeerAddress :: addr
  pr_PeerInterface :: string
  pr_LocalInterface :: string
  pr_TelemetryKey :: string

record pe_intent =
  pt_NodeID :: string
  pt_Tenants :: "(string, tenant_intent) gomap"
  pt_Peers :: "(string, peer_intent) gomap"
  pt_TrafficClassIntent :: "class_intent list"

record cpe_intent =
  ct_PortalID :: string
  ct_TunnelInterfaceID :: "32 word"
  ct_TunnelPE :: string
  ct_TunnelPEEndpointAddr :: addr
  ct_TenantID :: string
  ct_TenantPrefix :: prefix
  ct_SitePrefix :: prefix

datatype intent = PEIntent pe_intent | CPEIntent cpe_intent

datatype node_type = NodeTypeCPE | NodeTypePE | NodeTypeOther string

record node_intent =
  ni_ID :: string
  ni_NodeType :: node_type
  ni_Intent :: intent
  ni_Timestamp :: int
  ni_Generation :: "32 word"
  ni_Version :: "32 word"

definition PrefixPE :: string where "PrefixPE = ''pop''"
definition PrefixCPE :: string where "PrefixCPE = ''cpe''"
definition LaneIntent :: string where "LaneIntent = ''intent''"

definition nodesync_Key :: "string \<Rightarrow> string \<Rightarrow> string \<Rightarrow> string" where
  "nodesync_Key prefix i lane = prefix @ ''.'' @ i @ ''.'' @ lane"

text \<open>The key of a node's intent tells the kind and the name of the node apart.\<close>

lemma intent_key_inj:
  "nodesync_Key p i LaneIntent = nodesync_Key p' i' LaneIntent \<Longrightarrow>
   p \<in> {PrefixPE, PrefixCPE} \<Longrightarrow> p' \<in> {PrefixPE, PrefixCPE} \<Longrightarrow> p = p' \<and> i = i'"
  by (auto simp: nodesync_Key_def PrefixPE_def PrefixCPE_def)

end
