(* ===== verification/Service_Registry.thy ===== *)
theory Service_Registry
  imports Sid_Alloc Intents
begin

text \<open>
  The registry of what every node should do (\<^verbatim>\<open>services/control-plane/service_registry.go\<close>,
  \<^verbatim>\<open>service_registry_pe.go\<close>, \<^verbatim>\<open>service_registry_cpe.go\<close>, \<^verbatim>\<open>service_registry_tx.go\<close>): staged changes,
  their commit with one new generation per node, the table of generations in the data store,
  the bucket of published intents, and what a restart restores. Whether a write to the data
  store or to the bucket succeeds is decided by the environment \<open>world\<close>.
\<close>

section \<open>State\<close>

record registry_state =
  rz_registry :: "(string, node_intent) gomap"
  rz_sids :: sid_state
  rz_generations :: "(node_type \<times> string, 32 word \<times> 32 word) gomap"
  rz_published :: "(string, node_intent) gomap"

record world =
  wo_now :: int
  wo_sidTx :: "string \<Rightarrow> bool"
  wo_upsert :: "string \<Rightarrow> bool"
  wo_publish :: "string \<Rightarrow> bool"

datatype registry_error =
    ErrNotPE string
  | ErrTenantIntent string sid_error
  | ErrNodeType string
  | ErrUpsert string
  | ErrPublish string
  | ErrEnsure

section \<open>Entries\<close>

definition getOrCreateRegistryEntryForPE :: "int \<Rightarrow> string \<Rightarrow> registry_state \<Rightarrow> node_intent \<times> registry_state" where
  "getOrCreateRegistryEntryForPE now nodeID st =
     (case mget (rz_registry st) nodeID of
        Some current \<Rightarrow> (current, st)
      | None \<Rightarrow>
          (let new = \<lparr>ni_ID = nodeID, ni_NodeType = NodeTypePE,
                      ni_Intent = PEIntent \<lparr>pt_NodeID = nodeID, pt_Tenants = [], pt_Peers = [],
                                            pt_TrafficClassIntent = []\<rparr>,
                      ni_Timestamp = now, ni_Generation = 1, ni_Version = 1\<rparr>
           in (new, st\<lparr>rz_registry := mput nodeID new (rz_registry st)\<rparr>)))"

definition emptyCPE :: "string \<Rightarrow> cpe_intent" where
  "emptyCPE portalID =
     \<lparr>ct_PortalID = portalID, ct_TunnelInterfaceID = 0, ct_TunnelPE = [],
      ct_TunnelPEEndpointAddr = AddrZero, ct_TenantID = [], ct_TenantPrefix = prefix_zero,
      ct_SitePrefix = prefix_zero\<rparr>"

definition getOrCreateRegistryEntryForCPE :: "int \<Rightarrow> string \<Rightarrow> registry_state \<Rightarrow> node_intent \<times> registry_state" where
  "getOrCreateRegistryEntryForCPE now portalID st =
     (case mget (rz_registry st) portalID of
        Some current \<Rightarrow> (current, st)
      | None \<Rightarrow>
          (let new = \<lparr>ni_ID = portalID, ni_NodeType = NodeTypeCPE, ni_Intent = CPEIntent (emptyCPE portalID),
                      ni_Timestamp = now, ni_Generation = 0, ni_Version = 1\<rparr>
           in (new, st\<lparr>rz_registry := mput portalID new (rz_registry st)\<rparr>)))"

definition EncapTypeDT46 :: string where
  "EncapTypeDT46 = ''dt46''"

definition getOrCreateTenantIntentForPE :: "(string \<Rightarrow> bool) \<Rightarrow> string \<Rightarrow> prefix \<Rightarrow> pe_intent \<Rightarrow> sid_state \<Rightarrow>
    (sid_error, tenant_intent) result \<times> pe_intent \<times> sid_state" where
  "getOrCreateTenantIntentForPE sidTx tenantID locator pe sids =
     (case mget (pt_Tenants pe) tenantID of
        Some t \<Rightarrow> (Inr t, pe, sids)
      | None \<Rightarrow>
          (case getOrGenerateSID (sidTx (tenantMapKey locator tenantID EncapTypeDT46)) locator tenantID
                  EncapTypeDT46 sids of
             (Inl err, sids') \<Rightarrow> (Inl err, pe, sids')
           | (Inr sid, sids') \<Rightarrow>
               (let t = \<lparr>ti_PortalIntents = [], ti_DT46SID = sid, ti_InstallPaths = []\<rparr>
                in (Inr t, pe\<lparr>pt_Tenants := mput tenantID t (pt_Tenants pe)\<rparr>, sids'))))"

section \<open>Staged changes\<close>

text \<open>The closures that the stages put into a transaction.\<close>

datatype mutation =
    SetSegs string prefix "install_intent list"
  | SetPortal string string portal_intent prefix
  | SetPeers "(string, peer_intent) gomap"
  | SetClasses "class_intent list"

record pending_mutation =
  pm_NodeType :: node_type
  pm_EntryKey :: string
  pm_Mutate :: mutation

type_synonym registry_tx = "(string, pending_mutation list) gomap"

definition BeginTx :: registry_tx where
  "BeginTx = []"

definition MutatePE :: "string \<Rightarrow> mutation \<Rightarrow> registry_tx \<Rightarrow> registry_tx" where
  "MutatePE nodeID m tx =
     mput nodeID (mget0 [] tx nodeID @ [\<lparr>pm_NodeType = NodeTypePE, pm_EntryKey = nodeID, pm_Mutate = m\<rparr>]) tx"

definition StageSIDSegsForTenantOnNode :: "registry_tx \<Rightarrow> string \<Rightarrow> string \<Rightarrow> prefix \<Rightarrow> install_intent list \<Rightarrow>
    registry_tx" where
  "StageSIDSegsForTenantOnNode tx tenantID nodeID locator paths =
     MutatePE nodeID (SetSegs tenantID locator paths) tx"

definition StagePortalIntentForNode :: "registry_tx \<Rightarrow> string \<Rightarrow> string \<Rightarrow> string \<Rightarrow> portal_intent \<Rightarrow> prefix \<Rightarrow>
    registry_tx" where
  "StagePortalIntentForNode tx nodeID tenantID portalID portal locator =
     MutatePE nodeID (SetPortal tenantID portalID portal locator) tx"

definition StagePeersForPE :: "registry_tx \<Rightarrow> string \<Rightarrow> (string, peer_intent) gomap \<Rightarrow> registry_tx" where
  "StagePeersForPE tx nodeID peers = MutatePE nodeID (SetPeers peers) tx"

definition StageTrafficClassMappingForPE :: "registry_tx \<Rightarrow> string \<Rightarrow> class_intent list \<Rightarrow> registry_tx" where
  "StageTrafficClassMappingForPE tx nodeID mapping = MutatePE nodeID (SetClasses mapping) tx"

text \<open>One closure on the intent of a PE; a failure leaves the intent as it is.\<close>

definition withTenant :: "(string \<Rightarrow> bool) \<Rightarrow> string \<Rightarrow> string \<Rightarrow> prefix \<Rightarrow> (tenant_intent \<Rightarrow> tenant_intent) \<Rightarrow>
    pe_intent \<Rightarrow> sid_state \<Rightarrow> registry_error option \<times> pe_intent \<times> sid_state" where
  "withTenant sidTx nodeID tenantID locator f pe sids =
     (case getOrCreateTenantIntentForPE sidTx tenantID locator pe sids of
        (Inl err, pe', sids') \<Rightarrow> (Some (ErrTenantIntent nodeID err), pe', sids')
      | (Inr t, pe', sids') \<Rightarrow>
          (None, pe'\<lparr>pt_Tenants := mput tenantID (f t) (pt_Tenants pe')\<rparr>, sids'))"

fun mutatePEIntent :: "(string \<Rightarrow> bool) \<Rightarrow> string \<Rightarrow> mutation \<Rightarrow> pe_intent \<Rightarrow> sid_state \<Rightarrow>
    registry_error option \<times> pe_intent \<times> sid_state" where
  "mutatePEIntent sidTx nodeID (SetSegs tenantID locator paths) pe sids =
     withTenant sidTx nodeID tenantID locator (\<lambda>t. t\<lparr>ti_InstallPaths := paths\<rparr>) pe sids"
| "mutatePEIntent sidTx nodeID (SetPortal tenantID portalID portal locator) pe sids =
     withTenant sidTx nodeID tenantID locator
       (\<lambda>t. t\<lparr>ti_PortalIntents := mput portalID portal (ti_PortalIntents t)\<rparr>) pe sids"
| "mutatePEIntent sidTx nodeID (SetPeers peers) pe sids = (None, pe\<lparr>pt_Peers := peers\<rparr>, sids)"
| "mutatePEIntent sidTx nodeID (SetClasses mapping) pe sids =
     (None, pe\<lparr>pt_TrafficClassIntent := mapping\<rparr>, sids)"

definition applyMutation :: "(string \<Rightarrow> bool) \<Rightarrow> string \<Rightarrow> mutation \<Rightarrow> intent \<Rightarrow> sid_state \<Rightarrow>
    registry_error option \<times> intent \<times> sid_state" where
  "applyMutation sidTx nodeID m i sids =
     (case i of
        CPEIntent _ \<Rightarrow> (Some (ErrNotPE nodeID), i, sids)
      | PEIntent pe \<Rightarrow>
          (let (err, pe', sids') = mutatePEIntent sidTx nodeID m pe sids in (err, PEIntent pe', sids')))"

fun applyMutations :: "(string \<Rightarrow> bool) \<Rightarrow> string \<Rightarrow> pending_mutation list \<Rightarrow> intent \<Rightarrow> sid_state \<Rightarrow>
    registry_error list \<times> intent \<times> sid_state" where
  "applyMutations sidTx nodeID [] i sids = ([], i, sids)"
| "applyMutations sidTx nodeID (m # ms) i sids =
     (let (err, i', sids') = applyMutation sidTx nodeID (pm_Mutate m) i sids;
          (errs, i'', sids'') = applyMutations sidTx nodeID ms i' sids'
      in (case err of None \<Rightarrow> errs | Some e \<Rightarrow> e # errs, i'', sids''))"

section \<open>Commit\<close>

text \<open>The key under which the intent of an entry is published, if its type is known.\<close>

definition publishTarget :: "node_type \<Rightarrow> string \<Rightarrow> string option" where
  "publishTarget ty entryKey =
     (case ty of
        NodeTypePE \<Rightarrow> Some (nodesync_Key PrefixPE entryKey LaneIntent)
      | NodeTypeCPE \<Rightarrow> Some (nodesync_Key PrefixCPE entryKey LaneIntent)
      | NodeTypeOther _ \<Rightarrow> None)"

definition entryFor :: "int \<Rightarrow> string \<Rightarrow> pending_mutation list \<Rightarrow> registry_state \<Rightarrow>
    (node_intent \<times> registry_state) option" where
  "entryFor now entryKey ms st =
     (case mget (rz_registry st) entryKey of
        Some e \<Rightarrow> Some (e, st)
      | None \<Rightarrow>
          (case pm_NodeType (hd ms) of
             NodeTypePE \<Rightarrow> Some (getOrCreateRegistryEntryForPE now entryKey st)
           | NodeTypeCPE \<Rightarrow> Some (getOrCreateRegistryEntryForCPE now entryKey st)
           | NodeTypeOther _ \<Rightarrow> None))"

text \<open>The body of the loop over the staged nodes: all changes of the node, one new generation.\<close>

definition commitEntry :: "world \<Rightarrow> string \<times> pending_mutation list \<Rightarrow>
    registry_state \<times> (string, node_intent) gomap \<times> registry_error list \<Rightarrow>
    registry_state \<times> (string, node_intent) gomap \<times> registry_error list" where
  "commitEntry w x acc =
     (case (x, acc) of ((entryKey, ms), (st, snapshots, errs)) \<Rightarrow>
        (case entryFor (wo_now w) entryKey ms st of
           None \<Rightarrow> (st, snapshots, errs)
         | Some (e, st1) \<Rightarrow>
             (let (errs1, i, sids) = applyMutations (wo_sidTx w) entryKey ms (ni_Intent e) (rz_sids st1);
                  e' = e\<lparr>ni_Intent := i, ni_Timestamp := wo_now w, ni_Generation := ni_Generation e + 1\<rparr>;
                  st2 = st1\<lparr>rz_sids := sids, rz_registry := mput entryKey e' (rz_registry st1)\<rparr>
              in case publishTarget (ni_NodeType e') entryKey of
                   None \<Rightarrow> (st2, snapshots, errs @ errs1 @ [ErrNodeType entryKey])
                 | Some target \<Rightarrow> (st2, mput target e' snapshots, errs @ errs1))))"

definition upsertGeneration :: "node_intent \<Rightarrow> registry_state \<Rightarrow> registry_state" where
  "upsertGeneration s st =
     st\<lparr>rz_generations := mput (ni_NodeType s, ni_ID s) (ni_Version s, ni_Generation s) (rz_generations st)\<rparr>"

definition publishIntent :: "string \<Rightarrow> node_intent \<Rightarrow> registry_state \<Rightarrow> registry_state" where
  "publishIntent target s st = st\<lparr>rz_published := mput target s (rz_published st)\<rparr>"

definition publishSnapshot :: "world \<Rightarrow> string \<times> node_intent \<Rightarrow> registry_state \<times> registry_error list \<Rightarrow>
    registry_state \<times> registry_error list" where
  "publishSnapshot w x acc =
     (case (x, acc) of ((target, s), (st, errs)) \<Rightarrow>
        if \<not> wo_upsert w target then (st, errs)
        else if \<not> wo_publish w target then (upsertGeneration s st, errs @ [ErrPublish target])
        else (publishIntent target s (upsertGeneration s st), errs))"

text \<open>The part of \<^verbatim>\<open>Commit\<close> under the lock, and the part after it.\<close>

definition commitLocked :: "world \<Rightarrow> registry_tx \<Rightarrow> registry_state \<Rightarrow>
    registry_state \<times> (string, node_intent) gomap \<times> registry_error list" where
  "commitLocked w tx st = fold (commitEntry w) tx (st, [], [])"

definition publishAll :: "world \<Rightarrow> (string, node_intent) gomap \<Rightarrow> registry_state \<times> registry_error list \<Rightarrow>
    registry_state \<times> registry_error list" where
  "publishAll w snapshots acc = fold (publishSnapshot w) snapshots acc"

definition Commit :: "world \<Rightarrow> registry_tx \<Rightarrow> registry_state \<Rightarrow> registry_error list \<times> registry_state" where
  "Commit w tx st =
     (let (st1, snapshots, errs) = commitLocked w tx st;
          (st2, errs2) = publishAll w snapshots (st1, errs)
      in (errs2, st2))"

section \<open>CPE nodes\<close>

definition UpsertCPEIntentForSite :: "world \<Rightarrow> string \<Rightarrow> cpe_intent \<Rightarrow> registry_state \<Rightarrow>
    registry_error option \<times> registry_state" where
  "UpsertCPEIntentForSite w portalID cpe st =
     (let (current, st1) = getOrCreateRegistryEntryForCPE (wo_now w) portalID st;
          e = current\<lparr>ni_Intent := CPEIntent cpe, ni_Generation := ni_Generation current + 1,
                      ni_Timestamp := wo_now w\<rparr>;
          st2 = st1\<lparr>rz_registry := mput portalID e (rz_registry st1)\<rparr>;
          target = nodesync_Key PrefixCPE portalID LaneIntent
      in if \<not> wo_upsert w target then (Some (ErrUpsert portalID), st2)
         else if \<not> wo_publish w target then (Some (ErrPublish portalID), upsertGeneration e st2)
         else (None, publishIntent target e (upsertGeneration e st2)))"

section \<open>Restart and reconnect\<close>

definition restoredIntent :: "node_type \<Rightarrow> string \<Rightarrow> intent option" where
  "restoredIntent ty nodeID =
     (case ty of
        NodeTypePE \<Rightarrow> Some (PEIntent \<lparr>pt_NodeID = nodeID, pt_Tenants = [], pt_Peers = [],
                                      pt_TrafficClassIntent = []\<rparr>)
      | NodeTypeCPE \<Rightarrow> Some (CPEIntent (emptyCPE nodeID))
      | NodeTypeOther _ \<Rightarrow> None)"

definition restoreGeneration :: "int \<Rightarrow> (node_type \<times> string) \<times> (32 word \<times> 32 word) \<Rightarrow>
    (string, node_intent) gomap \<Rightarrow> (string, node_intent) gomap" where
  "restoreGeneration now row reg =
     (case row of ((ty, nodeID), (version, _)) \<Rightarrow>
        (case restoredIntent ty nodeID of
           None \<Rightarrow> reg
         | Some i \<Rightarrow>
             mput nodeID \<lparr>ni_ID = nodeID, ni_NodeType = ty, ni_Intent = i, ni_Timestamp = now,
                          ni_Generation = 0, ni_Version = version + 1\<rparr> reg))"

text \<open>A new process: an empty registry, filled from the tables; the bucket is as it was.\<close>

definition LoadPreviousStateFromDB :: "int \<Rightarrow> registry_state \<Rightarrow> registry_state" where
  "LoadPreviousStateFromDB now st =
     st\<lparr>rz_registry := fold (restoreGeneration now) (rz_generations st) [],
        rz_sids := restoreSIDs (sd_rows (rz_sids st)) (sd_dbCursor (rz_sids st))\<rparr>"

definition restoreTarget :: "node_intent \<Rightarrow> string" where
  "restoreTarget ni =
     (case ni_Intent ni of
        CPEIntent i \<Rightarrow> nodesync_Key PrefixCPE (ct_PortalID i) LaneIntent
      | PEIntent i \<Rightarrow> nodesync_Key PrefixPE (pt_NodeID i) LaneIntent)"

text \<open>
  \<^verbatim>\<open>Restore\<close>: the bucket is made sure of, then every intent is published again, until a
  publication fails.
\<close>

fun restoreLoop :: "(string \<Rightarrow> bool) \<Rightarrow> node_intent list \<Rightarrow> registry_state \<Rightarrow>
    registry_error option \<times> registry_state" where
  "restoreLoop publish [] st = (None, st)"
| "restoreLoop publish (ni # nis) st =
     (if publish (restoreTarget ni) then restoreLoop publish nis (publishIntent (restoreTarget ni) ni st)
      else (Some (ErrPublish (restoreTarget ni)), st))"

definition Restore :: "bool \<Rightarrow> (string \<Rightarrow> bool) \<Rightarrow> registry_state \<Rightarrow> registry_error option \<times> registry_state" where
  "Restore ensure publish st =
     (if \<not> ensure then (Some ErrEnsure, st)
      else restoreLoop publish (map snd (rz_registry st)) st)"

section \<open>Portals\<close>

text \<open>What the identity endpoint of the portals stores for a portal that has no entry.\<close>

definition registerPortal :: "int \<Rightarrow> string \<Rightarrow> cpe_intent \<Rightarrow> registry_state \<Rightarrow> registry_state" where
  "registerPortal now portalID cpe st =
     (case mget (rz_registry st) portalID of
        Some _ \<Rightarrow> st
      | None \<Rightarrow>
          st\<lparr>rz_registry := mput portalID
                 \<lparr>ni_ID = portalID, ni_NodeType = NodeTypeCPE, ni_Intent = CPEIntent cpe,
                  ni_Timestamp = now, ni_Generation = 1, ni_Version = 1\<rparr> (rz_registry st)\<rparr>)"

end
