(* ===== verification/Controller.thy ===== *)
theory Controller
  imports Demands Service_Registry "HOL-Library.Product_Lexorder"
begin

text \<open>
  The controller of the control plane (\<^verbatim>\<open>services/control-plane/controller_segments.go\<close>,
  \<^verbatim>\<open>controller_dispatcher.go\<close>, \<^verbatim>\<open>controller_intents.go\<close>, \<^verbatim>\<open>controller_tunnels.go\<close>): the segment
  lists of the computed paths, the routes that every ingress node gets for them, the peers and
  traffic classes of the nodes, and the handlers of the tunnel updates.

  The topology, the inventory and the tenants are arguments. A request whose payload cannot be
  decoded is None. A nil dereference is the error \<open>PanicNilAccess\<close>.
\<close>

section \<open>Segment lists\<close>

datatype segment_error = ErrPathShape nat nat | ErrTransitNode NodeID

definition endXOf :: "pce_graph \<Rightarrow> pce_edge_id \<Rightarrow> addr \<times> bool" where
  "endXOf g i =
     (case mget (pg_edges g) i of
        None \<Rightarrow> (AddrZero, False)
      | Some edge \<Rightarrow>
          if IsBundle edge \<or> length (pe_RealEdges edge) \<noteq> 1 then (AddrZero, False)
          else let endX = ed_EndX (pe_RealEdges edge ! 0) in (endX, addr_is_valid endX))"

text \<open>The loop over the indexes of the transit nodes.\<close>

fun transitLoop :: "pce_graph \<Rightarrow> path \<Rightarrow> nat list \<Rightarrow> (segment_error, addr list) result" where
  "transitLoop g p [] = Inr []"
| "transitLoop g p (i # is) =
     (case mget (pg_nodes g) (p_Nodes p ! i) of
        None \<Rightarrow> Inl (ErrTransitNode (p_Nodes p ! i))
      | Some node \<Rightarrow>
          (let (endX, ok) = endXOf g (p_Edges p ! i);
               segment = (if ok then endX else prefix_addr (nd_Locator node))
           in bind_result (transitLoop g p is) (\<lambda>segments. Inr (segment # segments))))"

definition transitSegments :: "pce_graph \<Rightarrow> path \<Rightarrow> (segment_error, addr list) result" where
  "transitSegments g p =
     (if int (length (p_Edges p)) \<noteq> int (length (p_Nodes p)) - 1
      then Inl (ErrPathShape (length (p_Nodes p)) (length (p_Edges p)))
      else transitLoop g p [1..<length (p_Nodes p) - 1])"

section \<open>Routes of the ingress nodes\<close>

record remote_route =
  rr_Remote :: site
  rr_Path :: path

definition pathKeyOrder :: "path_key \<Rightarrow> TenantID \<times> NodeID \<times> NodeID \<times> 64 word" where
  "pathKeyOrder k = (pk_Tenant k, pk_From k, pk_To k, pk_Label k)"

definition addRemoteSites :: "path_key \<Rightarrow> path \<Rightarrow> site list \<Rightarrow> (TenantID, remote_route list) gomap \<Rightarrow>
    (TenantID, remote_route list) gomap" where
  "addRemoteSites key p sites byTenant =
     fold (\<lambda>s m. if si_Attach s \<noteq> pk_To key then m
                 else mput (pk_Tenant key) (mget0 [] m (pk_Tenant key) @ [\<lparr>rr_Remote = s, rr_Path = p\<rparr>]) m)
       sites byTenant"

definition addPathRoutes :: "inventory \<Rightarrow> tenant_repo \<Rightarrow> path_set \<Rightarrow> path_key \<Rightarrow>
    (NodeID, (TenantID, remote_route list) gomap) gomap \<Rightarrow> (NodeID, (TenantID, remote_route list) gomap) gomap" where
  "addPathRoutes iv repo paths key byNode =
     (case mget paths key of
        None \<Rightarrow> byNode
      | Some p \<Rightarrow>
          if pk_From key = pk_To key then byNode
          else case mget (iv_byID iv) (pk_From key) of
                 None \<Rightarrow> byNode
               | Some _ \<Rightarrow>
                   (case mget (re_byID repo) (pk_Tenant key) of
                      None \<Rightarrow> byNode
                    | Some t \<Rightarrow>
                        mput (pk_From key)
                          (addRemoteSites key p (tn_Sites t) (mget0 [] byNode (pk_From key))) byNode))"

definition remoteRoutes :: "inventory \<Rightarrow> tenant_repo \<Rightarrow> path_set \<Rightarrow>
    (NodeID, (TenantID, remote_route list) gomap) gomap" where
  "remoteRoutes iv repo paths =
     fold (addPathRoutes iv repo paths) (sort_key pathKeyOrder (map fst paths)) []"

text \<open>The routes of one tenant on one node; a route that cannot be built is left out.\<close>

fun installIntents :: "(string \<Rightarrow> bool) \<Rightarrow> graph \<Rightarrow> pce_graph \<Rightarrow> TenantID \<Rightarrow> remote_route list \<Rightarrow> sid_state \<Rightarrow>
    install_intent list \<times> sid_state" where
  "installIntents sidTx g pg tid [] sids = ([], sids)"
| "installIntents sidTx g pg tid (r # rs) sids =
     (case mget (gr_nodes g) (si_Attach (rr_Remote r)) of
        None \<Rightarrow> installIntents sidTx g pg tid rs sids
      | Some remoteNode \<Rightarrow>
          (case getOrGenerateSID (sidTx (tenantMapKey (nd_Locator remoteNode) (show_int tid) EncapTypeDT46))
                  (nd_Locator remoteNode) (show_int tid) EncapTypeDT46 sids of
             (Inl _, sids1) \<Rightarrow> installIntents sidTx g pg tid rs sids1
           | (Inr dt46, sids1) \<Rightarrow>
               (case transitSegments pg (rr_Path r) of
                  Inl _ \<Rightarrow> installIntents sidTx g pg tid rs sids1
                | Inr sidAddrList \<Rightarrow>
                    (let (is, sids2) = installIntents sidTx g pg tid rs sids1
                     in (\<lparr>io_TenantID = show_int tid, io_PrefixRoutes = [si_Prefix (rr_Remote r)],
                          io_Segments = sidAddrList @ [dt46], io_Color = p_Label (rr_Path r)\<rparr> # is, sids2)))))"

definition stageTenantRoutes :: "(string \<Rightarrow> bool) \<Rightarrow> graph \<Rightarrow> pce_graph \<Rightarrow> NodeID \<Rightarrow> node \<Rightarrow>
    TenantID \<times> remote_route list \<Rightarrow> registry_tx \<times> sid_state \<Rightarrow> registry_tx \<times> sid_state" where
  "stageTenantRoutes sidTx g pg nodeID localNode x acc =
     (case (x, acc) of ((tid, routes), (tx, sids)) \<Rightarrow>
        (let (intents, sids') = installIntents sidTx g pg tid routes sids
         in (StageSIDSegsForTenantOnNode tx (show_int tid) nodeID (nd_Locator localNode) intents, sids')))"

definition stageNodeRoutes :: "(string \<Rightarrow> bool) \<Rightarrow> graph \<Rightarrow> pce_graph \<Rightarrow>
    NodeID \<times> (TenantID, remote_route list) gomap \<Rightarrow> registry_tx \<times> sid_state \<Rightarrow> registry_tx \<times> sid_state" where
  "stageNodeRoutes sidTx g pg x acc =
     (case mget (gr_nodes g) (fst x) of
        None \<Rightarrow> acc
      | Some localNode \<Rightarrow> fold (stageTenantRoutes sidTx g pg (fst x) localNode) (snd x) acc)"

text \<open>One turn of \<^verbatim>\<open>startPCEUpdatesDispatcher\<close>: a set of paths becomes one transaction.\<close>

definition stagePaths :: "(string \<Rightarrow> bool) \<Rightarrow> graph \<Rightarrow> inventory \<Rightarrow> tenant_repo \<Rightarrow> path_set \<Rightarrow> sid_state \<Rightarrow>
    registry_tx \<times> sid_state" where
  "stagePaths sidTx g iv repo paths sids =
     fold (stageNodeRoutes sidTx g (NewPCEGraph g)) (remoteRoutes iv repo paths) (BeginTx, sids)"

definition dispatchPaths :: "world \<Rightarrow> graph \<Rightarrow> inventory \<Rightarrow> tenant_repo \<Rightarrow> path_set \<Rightarrow> registry_state \<Rightarrow>
    registry_error list \<times> registry_state" where
  "dispatchPaths w g iv repo paths st =
     (let (tx, sids) = stagePaths (wo_sidTx w) g iv repo paths (rz_sids st)
      in Commit w tx (st\<lparr>rz_sids := sids\<rparr>))"

section \<open>Peers and traffic classes\<close>

definition telemetryKey :: "NodeID \<Rightarrow> string \<Rightarrow> NodeID \<Rightarrow> string \<Rightarrow> string" where
  "telemetryKey n localIface remote remoteIface = n @ '':'' @ localIface @ ''-'' @ remote @ '':'' @ remoteIface"

definition addPeer :: "(string \<Rightarrow> prefix option) \<Rightarrow> graph \<Rightarrow> node \<Rightarrow> edge \<Rightarrow> (string, peer_intent) gomap \<Rightarrow>
    (string, peer_intent) gomap" where
  "addPeer parsePrefix g n e peers =
     (if ed_Local e \<noteq> nd_ID n then peers
      else case mget (gr_nodes g) (ed_Remote e) of
             None \<Rightarrow> peers
           | Some remoteNode \<Rightarrow>
               (case parsePrefix (ed_RemoteAddr e) of
                  None \<Rightarrow> peers
                | Some peerPrefix \<Rightarrow>
                    mput (ed_LocalIface e)
                      \<lparr>pr_PeerID = ed_Remote e, pr_PeerLoopback = nd_Loopback remoteNode,
                       pr_LocalLoopback = nd_Loopback n, pr_PeerAddress = prefix_addr peerPrefix,
                       pr_PeerInterface = ed_RemoteIface e, pr_LocalInterface = ed_LocalIface e,
                       pr_TelemetryKey = telemetryKey (nd_ID n) (ed_LocalIface e) (nd_ID remoteNode) (ed_RemoteIface e)\<rparr>
                      peers))"

definition stagePeerIntents :: "(string \<Rightarrow> prefix option) \<Rightarrow> graph \<Rightarrow> registry_tx \<Rightarrow> registry_tx" where
  "stagePeerIntents parsePrefix g tx =
     fold (\<lambda>n tx. StagePeersForPE tx (nd_ID n) (fold (addPeer parsePrefix g n) (map snd (gr_edges g)) []))
       (map snd (gr_nodes g)) tx"

definition stageTrafficClassMapping :: "tenant_repo \<Rightarrow> graph \<Rightarrow> registry_tx \<Rightarrow> registry_tx" where
  "stageTrafficClassMapping repo g tx =
     (let trafficClassIntents = map (\<lambda>c. \<lparr>cl_Color = tc_Label c, cl_DSCP = tc_DSCP c\<rparr>) (repo_Classes repo)
      in fold (\<lambda>nodeID tx. StageTrafficClassMappingForPE tx nodeID trafficClassIntents) (map fst (gr_nodes g)) tx)"

text \<open>The first commit of \<^verbatim>\<open>Start\<close>.\<close>

definition startIntents :: "world \<Rightarrow> (string \<Rightarrow> prefix option) \<Rightarrow> tenant_repo \<Rightarrow> graph \<Rightarrow> registry_state \<Rightarrow>
    registry_error list \<times> registry_state" where
  "startIntents w parsePrefix repo g st =
     Commit w (stageTrafficClassMapping repo g (stagePeerIntents parsePrefix g BeginTx)) st"

section \<open>Tunnels\<close>

datatype tunnel_error =
    ErrUnmarshal
  | ErrPortalUnknown
  | ErrTenantUnknown
  | ErrAttachInventory
  | ErrAttachTopology
  | ErrIntentUpsert registry_error
  | ErrIntentCommit "registry_error list"
  | PanicNilAccess

record tunnel_request =
  tr_PortalID :: string
  tr_IfID :: "32 word"

definition handleCPETunnelUpdate :: "world \<Rightarrow> inventory \<Rightarrow> tenant_repo \<Rightarrow> tunnel_request option \<Rightarrow> registry_state \<Rightarrow>
    tunnel_error option \<times> registry_state" where
  "handleCPETunnelUpdate w iv repo data st =
     (case data of
        None \<Rightarrow> (Some ErrUnmarshal, st)
      | Some req \<Rightarrow>
          (case repo_SiteByPortalID repo (tr_PortalID req) of
             None \<Rightarrow> (Some ErrPortalUnknown, st)
           | Some s \<Rightarrow>
               (case mget (re_byID repo) (si_TenantID s) of
                  None \<Rightarrow> (Some ErrTenantUnknown, st)
                | Some t \<Rightarrow>
                    (case mget (iv_byID iv) (si_Attach s) of
                       None \<Rightarrow> (Some ErrAttachInventory, st)
                     | Some attachNode \<Rightarrow>
                         (case in_Access attachNode of
                            None \<Rightarrow> (Some PanicNilAccess, st)
                          | Some access \<Rightarrow>
                              (let cpeIntent =
                                     \<lparr>ct_PortalID = tr_PortalID req, ct_TunnelInterfaceID = tr_IfID req,
                                      ct_TunnelPE = si_AttachNode s,
                                      ct_TunnelPEEndpointAddr = prefix_addr (na_Address access),
                                      ct_TenantID = show_int (si_TenantID s), ct_TenantPrefix = tn_Allocation t,
                                      ct_SitePrefix = si_Prefix s\<rparr>;
                                   (err, st') = UpsertCPEIntentForSite w (tr_PortalID req) cpeIntent st
                               in (map_option ErrIntentUpsert err, st')))))))"

definition handlePETunnelUpdate :: "world \<Rightarrow> graph \<Rightarrow> inventory \<Rightarrow> tenant_repo \<Rightarrow> tunnel_request option \<Rightarrow>
    registry_state \<Rightarrow> tunnel_error option \<times> registry_state" where
  "handlePETunnelUpdate w g iv repo data st =
     (case data of
        None \<Rightarrow> (Some ErrUnmarshal, st)
      | Some req \<Rightarrow>
          (case repo_SiteByPortalID repo (tr_PortalID req) of
             None \<Rightarrow> (Some ErrPortalUnknown, st)
           | Some s \<Rightarrow>
               (case mget (re_byID repo) (si_TenantID s) of
                  None \<Rightarrow> (Some ErrTenantUnknown, st)
                | Some t \<Rightarrow>
                    (case mget (iv_byID iv) (si_Attach s) of
                       None \<Rightarrow> (Some ErrAttachInventory, st)
                     | Some node \<Rightarrow>
                         (case mget (gr_nodes g) (si_Attach s) of
                            None \<Rightarrow> (Some ErrAttachTopology, st)
                          | Some topologyNode \<Rightarrow>
                              (let portalIntent =
                                     \<lparr>po_HostFacingInterface = ''eth1'', po_TunnelInterfaceID = tr_IfID req,
                                      po_SitePrefix = si_Prefix s, po_TenantPrefix = tn_Allocation t\<rparr>;
                                   tx = StagePortalIntentForNode BeginTx (in_ID node) (show_int (tn_ID t))
                                          (tr_PortalID req) portalIntent (nd_Locator topologyNode);
                                   (errs, st') = Commit w tx st
                               in (if errs = [] then None else Some (ErrIntentCommit errs), st')))))))"

record auth_response =
  ar_LocalSwanIdentity :: string
  ar_RemoteSwanIdentity :: string
  ar_AttachNode :: string
  ar_Prefix :: string
  ar_AttachNodeAddr :: string

text \<open>The identity endpoint of the portals: the answer it sends, if any, and the registry after it.\<close>

definition portalAuth :: "int \<Rightarrow> bool \<Rightarrow> inventory \<Rightarrow> tenant_repo \<Rightarrow> string option \<Rightarrow> registry_state \<Rightarrow>
    auth_response option \<times> registry_state" where
  "portalAuth now respond iv repo data st =
     (case data of
        None \<Rightarrow> (None, st)
      | Some portalID \<Rightarrow>
          (case repo_SiteByPortalID repo portalID of
             None \<Rightarrow> (None, st)
           | Some s \<Rightarrow>
               (case mget (iv_byID iv) (si_Attach s) of
                  None \<Rightarrow> (None, st)
                | Some attachNode \<Rightarrow>
                    (case in_Access attachNode of
                       None \<Rightarrow> (None, st)
                     | Some access \<Rightarrow>
                         if \<not> respond then (None, st)
                         else
                           (Some \<lparr>ar_LocalSwanIdentity = si_Identity s,
                                  ar_RemoteSwanIdentity = in_Name attachNode @ ''.maeto.net'',
                                  ar_AttachNode = si_AttachNode s, ar_Prefix = prefix_string (si_Prefix s),
                                  ar_AttachNodeAddr = addr_string (prefix_addr (na_Address access))\<rparr>,
                            case mget (re_byID repo) (si_TenantID s) of
                              None \<Rightarrow> st
                            | Some t \<Rightarrow>
                                registerPortal now portalID
                                  \<lparr>ct_PortalID = [], ct_TunnelInterfaceID = 0, ct_TunnelPE = si_AttachNode s,
                                   ct_TunnelPEEndpointAddr = prefix_addr (na_Address access),
                                   ct_TenantID = show_int (si_TenantID s), ct_TenantPrefix = tn_Allocation t,
                                   ct_SitePrefix = si_Prefix s\<rparr> st)))))"

definition expectedResyncReplies :: "inventory \<Rightarrow> tenant_repo \<Rightarrow> nat" where
  "expectedResyncReplies iv repo =
     length (filter HasAccessSide (inventory_Nodes iv)) + sum_list (map (length \<circ> tn_Sites) (repo_Tenants repo))"

text \<open>The replies that are awaited: the loop ends at the expected number or at the first timeout.\<close>

fun awaitReplies :: "nat \<Rightarrow> bool list \<Rightarrow> nat \<Rightarrow> nat" where
  "awaitReplies expected msgs replies =
     (if replies < expected then
        (case msgs of
           True # ms \<Rightarrow> awaitReplies expected ms (replies + 1)
         | _ \<Rightarrow> replies)
      else replies)"

end
