(* ===== verification/Registry_Correct.thy ===== *)
theory Registry_Correct
  imports Service_Registry
begin

text \<open>
  What the commits of the service registry do to the entries, to the table of generations and
  to the bucket; that the pair of version and generation that a node sees never goes back, over
  commits, reconnects and restarts; and that the identifiers announced to the nodes are those
  of the allocation table.
\<close>

section \<open>Entries after a commit\<close>

text \<open>The transactions that the stages build: at least one change of a PE for each node.\<close>

definition tx_ok :: "registry_tx \<Rightarrow> bool" where
  "tx_ok tx \<longleftrightarrow> mwf tx \<and> (\<forall>k ms. mget tx k = Some ms \<longrightarrow> ms \<noteq> [] \<and> (\<forall>m \<in> set ms. pm_NodeType m = NodeTypePE))"

definition known_types :: "(string, node_intent) gomap \<Rightarrow> bool" where
  "known_types reg \<longleftrightarrow> (\<forall>k e. mget reg k = Some e \<longrightarrow> ni_NodeType e \<in> {NodeTypePE, NodeTypeCPE})"

definition newPE :: "int \<Rightarrow> string \<Rightarrow> node_intent" where
  "newPE now k =
     \<lparr>ni_ID = k, ni_NodeType = NodeTypePE,
      ni_Intent = PEIntent \<lparr>pt_NodeID = k, pt_Tenants = [], pt_Peers = [], pt_TrafficClassIntent = []\<rparr>,
      ni_Timestamp = now, ni_Generation = 1, ni_Version = 1\<rparr>"

text \<open>The entry a commit starts from.\<close>

definition baseEntry :: "int \<Rightarrow> string \<Rightarrow> registry_state \<Rightarrow> node_intent" where
  "baseEntry now k st = (case mget (rz_registry st) k of None \<Rightarrow> newPE now k | Some e \<Rightarrow> e)"

lemma tx_ok_BeginTx [simp]: "tx_ok BeginTx"
  by (simp add: tx_ok_def BeginTx_def gm.wf_empty)

lemma tx_ok_MutatePE [intro]: "tx_ok tx \<Longrightarrow> tx_ok (MutatePE k m tx)"
  unfolding tx_ok_def MutatePE_def
  by (cases "mget tx k") (auto simp: gm.wf_put mget0_def)

lemma tx_ok_Cons:
  "tx_ok ((k, ms) # tx) \<longleftrightarrow>
   ms \<noteq> [] \<and> (\<forall>m \<in> set ms. pm_NodeType m = NodeTypePE) \<and> mget tx k = None \<and> tx_ok tx"
  unfolding tx_ok_def by (auto simp: mwf_Cons mget_Cons mget_None_fst dest: mget_in_fst split: if_splits)

lemma publishTarget_inj:
  "publishTarget ty k = Some t \<Longrightarrow> publishTarget ty' k' = Some t \<Longrightarrow> ty' = ty \<and> k' = k"
  by (auto simp: publishTarget_def PrefixPE_def PrefixCPE_def nodesync_Key_def split: node_type.splits)

lemma known_target: "ty \<in> {NodeTypePE, NodeTypeCPE} \<Longrightarrow> \<exists>t. publishTarget ty k = Some t"
  by (auto simp: publishTarget_def)

lemma known_base: "known_types (rz_registry st) \<Longrightarrow> ni_NodeType (baseEntry now k st) \<in> {NodeTypePE, NodeTypeCPE}"
  by (auto simp: known_types_def baseEntry_def newPE_def split: option.splits)

definition commitOf :: "world \<Rightarrow> string \<Rightarrow> intent \<Rightarrow> node_intent \<Rightarrow> node_intent" where
  "commitOf w k i e = e\<lparr>ni_Intent := i, ni_Timestamp := wo_now w, ni_Generation := ni_Generation e + 1\<rparr>"

lemma commitOf_simps [simp]:
  "ni_Intent (commitOf w k i e) = i" "ni_NodeType (commitOf w k i e) = ni_NodeType e"
  "ni_ID (commitOf w k i e) = ni_ID e" "ni_Version (commitOf w k i e) = ni_Version e"
  "ni_Generation (commitOf w k i e) = ni_Generation e + 1" "ni_Timestamp (commitOf w k i e) = wo_now w"
  by (simp_all add: commitOf_def)

lemma entryFor_base:
  assumes "ms \<noteq> []" "\<forall>m \<in> set ms. pm_NodeType m = NodeTypePE"
  shows "\<exists>st1. entryFor now k ms st = Some (baseEntry now k st, st1) \<and>
    rz_sids st1 = rz_sids st \<and> rz_generations st1 = rz_generations st \<and> rz_published st1 = rz_published st \<and>
    (\<forall>k' v. mget (mput k v (rz_registry st1)) k' = mget (mput k v (rz_registry st)) k') \<and>
    (mwf (rz_registry st) \<longrightarrow> mwf (rz_registry st1))"
proof (cases "mget (rz_registry st) k")
  case None
  then have "entryFor now k ms st = Some (newPE now k, st\<lparr>rz_registry := mput k (newPE now k) (rz_registry st)\<rparr>)"
    using assms by (simp add: entryFor_def getOrCreateRegistryEntryForPE_def newPE_def Let_def)
  then show ?thesis using None by (simp add: baseEntry_def gm.wf_put)
next
  case (Some e)
  then show ?thesis by (simp add: entryFor_def baseEntry_def)
qed

lemma commitEntry_spec:
  assumes ms: "ms \<noteq> []" "\<forall>m \<in> set ms. pm_NodeType m = NodeTypePE"
    and known: "known_types (rz_registry st)"
    and app: "applyMutations (wo_sidTx w) k ms (ni_Intent (baseEntry (wo_now w) k st)) (rz_sids st) = (errs1, i, sids)"
    and t: "publishTarget (ni_NodeType (baseEntry (wo_now w) k st)) k = Some t"
  obtains st' where
    "commitEntry w (k, ms) (st, sn, errs) =
       (st', mput t (commitOf w k i (baseEntry (wo_now w) k st)) sn, errs @ errs1)"
    "\<And>k'. mget (rz_registry st') k' =
       (if k' = k then Some (commitOf w k i (baseEntry (wo_now w) k st)) else mget (rz_registry st) k')"
    "mwf (rz_registry st) \<Longrightarrow> mwf (rz_registry st')"
    "rz_sids st' = sids" "rz_generations st' = rz_generations st" "rz_published st' = rz_published st"
proof -
  let ?e = "baseEntry (wo_now w) k st"
  obtain st1 where e: "entryFor (wo_now w) k ms st = Some (?e, st1)"
    and same: "rz_sids st1 = rz_sids st" "rz_generations st1 = rz_generations st" "rz_published st1 = rz_published st"
    and reg: "\<And>k' v. mget (mput k v (rz_registry st1)) k' = mget (mput k v (rz_registry st)) k'"
    and wf: "mwf (rz_registry st) \<Longrightarrow> mwf (rz_registry st1)"
    using entryFor_base [OF ms, of "wo_now w" k st] by blast
  show ?thesis
    by (rule that [of "st1\<lparr>rz_sids := sids, rz_registry := mput k (commitOf w k i ?e) (rz_registry st1)\<rparr>"])
      (use e app t same reg wf in \<open>simp_all add: commitEntry_def commitOf_def gm.wf_put Let_def\<close>)
qed

text \<open>The identifiers in use while a commit runs are reached by allocations.\<close>

abbreviation sid_run :: "sid_state \<Rightarrow> sid_state \<Rightarrow> bool" where
  "sid_run \<equiv> sid_step\<^sup>*\<^sup>*"

lemma sid_run_get:
  "getOrGenerateSID commit loc tid ty s = (res, s') \<Longrightarrow> sid_run s s'"
  using sid_get [of s commit loc tid ty] by (auto intro: r_into_rtranclp)

lemma mutatePEIntent_run: "mutatePEIntent tx k m pe s = (err, pe', s') \<Longrightarrow> sid_run s s'"
  by (cases m)
    (auto simp: withTenant_def getOrCreateTenantIntentForPE_def Let_def
        intro: sid_run_get split: prod.splits sum.splits option.splits)

lemma applyMutations_run: "applyMutations tx k ms i s = (errs, i', s') \<Longrightarrow> sid_run s s'"
proof (induction ms arbitrary: i s errs)
  case (Cons m ms)
  obtain err i1 s1 where 1: "applyMutation tx k (pm_Mutate m) i s = (err, i1, s1)"
    by (metis prod_cases3)
  obtain errs2 where 2: "applyMutations tx k ms i1 s1 = (errs2, i', s')"
    using Cons.prems 1 by (auto split: prod.splits)
  have "sid_run s s1"
    using 1 mutatePEIntent_run by (auto simp: applyMutation_def split: intent.splits prod.splits)
  then show ?case using Cons.IH [OF 2] by simp
qed simp

text \<open>What the locked part of a commit leaves for a node of the transaction.\<close>

definition committed :: "world \<Rightarrow> registry_state \<Rightarrow> string \<Rightarrow> pending_mutation list \<Rightarrow> node_intent \<Rightarrow>
    registry_error list \<Rightarrow> sid_state \<Rightarrow> bool" where
  "committed w st k ms e errs final \<longleftrightarrow>
     (\<exists>i s s' errs1. e = commitOf w k i (baseEntry (wo_now w) k st) \<and>
        sid_run (rz_sids st) s \<and> sid_run s' final \<and> set errs1 \<subseteq> set errs \<and>
        applyMutations (wo_sidTx w) k ms (ni_Intent (baseEntry (wo_now w) k st)) s = (errs1, i, s'))"

lemma committed_mono: "committed w st k ms e errs s \<Longrightarrow> set errs \<subseteq> set errs' \<Longrightarrow> committed w st k ms e errs' s"
  unfolding committed_def by blast

definition commit_rel :: "world \<Rightarrow> registry_tx \<Rightarrow> registry_state \<Rightarrow> (string, node_intent) gomap \<Rightarrow>
    registry_error list \<Rightarrow> registry_state \<Rightarrow> (string, node_intent) gomap \<Rightarrow> registry_error list \<Rightarrow> bool" where
  "commit_rel w tx st sn errs st' sn' errs' \<longleftrightarrow>
    rz_generations st' = rz_generations st \<and> rz_published st' = rz_published st \<and>
    (mwf (rz_registry st) \<longrightarrow> mwf (rz_registry st')) \<and> (mwf sn \<longrightarrow> mwf sn') \<and>
    sid_run (rz_sids st) (rz_sids st') \<and> set errs \<subseteq> set errs' \<and>
    (\<forall>k. mget tx k = None \<longrightarrow> mget (rz_registry st') k = mget (rz_registry st) k) \<and>
    (\<forall>k ms. mget tx k = Some ms \<longrightarrow>
       (\<exists>e. mget (rz_registry st') k = Some e \<and> committed w st k ms e errs' (rz_sids st'))) \<and>
    (\<forall>k ms e t. mget tx k = Some ms \<longrightarrow> mget (rz_registry st') k = Some e \<longrightarrow>
       publishTarget (ni_NodeType e) k = Some t \<longrightarrow> mget sn' t = Some e) \<and>
    (\<forall>t. mget sn' t = mget sn t \<or>
       (\<exists>k ms e. mget tx k = Some ms \<and> mget (rz_registry st') k = Some e \<and>
          publishTarget (ni_NodeType e) k = Some t \<and> mget sn' t = Some e))"

text \<open>A node that is committed first keeps its entry and its snapshot while the others follow.\<close>

lemma commit_rel_Cons:
  assumes rel: "commit_rel w tx st1 (mput t e sn) (errs @ errs1) st' sn' errs'"
    and new: "mget tx k = None"
    and e: "e = commitOf w k i (baseEntry (wo_now w) k st)"
    and app: "applyMutations (wo_sidTx w) k ms (ni_Intent (baseEntry (wo_now w) k st)) (rz_sids st) = (errs1, i, s)"
    and t: "publishTarget (ni_NodeType e) k = Some t"
    and reg: "\<And>k'. mget (rz_registry st1) k' = (if k' = k then Some e else mget (rz_registry st) k')"
    and wf: "mwf (rz_registry st) \<Longrightarrow> mwf (rz_registry st1)"
    and rest: "rz_sids st1 = s" "rz_generations st1 = rz_generations st" "rz_published st1 = rz_published st"
  shows "commit_rel w ((k, ms) # tx) st sn errs st' sn' errs'"
proof -
  note R = rel [unfolded commit_rel_def]
  let ?in = "\<lambda>k' ms'. mget ((k, ms) # tx) k' = Some ms'"
  have run: "sid_run (rz_sids st) s" by (rule applyMutations_run [OF app])
  have k: "mget (rz_registry st') k = Some e" using R new reg by simp
  have base: "baseEntry (wo_now w) k' st1 = baseEntry (wo_now w) k' st" if "mget tx k' = Some ms'" for k' ms'
    using that new by (auto simp: baseEntry_def reg)
  have first: "committed w st k ms e errs' (rz_sids st')"
    unfolding committed_def e using app R rest(1)
    by (intro exI [of _ i] exI [of _ "rz_sids st"] exI [of _ s] exI [of _ errs1]) auto
  have later: "committed w st k' ms' e' errs' (rz_sids st')"
    if "committed w st1 k' ms' e' errs' (rz_sids st')" "mget tx k' = Some ms'" for k' ms' e'
    using that(1) rtranclp_trans [OF run] unfolding committed_def base [OF that(2)] rest(1) by blast
  have entry_rest: "\<exists>e'. mget (rz_registry st') k' = Some e' \<and> committed w st k' ms' e' errs' (rz_sids st')"
    if "mget tx k' = Some ms'" for k' ms' using that R later by blast
  have snap_rest: "mget sn' t' = Some e'" if "mget tx k' = Some ms'" "mget (rz_registry st') k' = Some e'"
    "publishTarget (ni_NodeType e') k' = Some t'" for k' ms' e' t' using that R by blast
  have sn: "mget sn' t = Some e"
    using R publishTarget_inj [OF t] new by (metis gomap_simps(2) option.distinct(1))
  have "\<exists>e'. mget (rz_registry st') k' = Some e' \<and> committed w st k' ms' e' errs' (rz_sids st')"
    if "?in k' ms'" for k' ms'
    using that entry_rest k first by (cases "k' = k") (simp_all add: mget_Cons)
  moreover have "mget sn' t' = Some e'" if "?in k' ms'" "mget (rz_registry st') k' = Some e'"
    "publishTarget (ni_NodeType e') k' = Some t'" for k' ms' e' t'
    using that snap_rest k sn t by (cases "k' = k") (auto simp: mget_Cons)
  moreover have "mget sn' t' = mget sn t' \<or> (\<exists>k' ms' e'. ?in k' ms' \<and> mget (rz_registry st') k' = Some e' \<and>
      publishTarget (ni_NodeType e') k' = Some t' \<and> mget sn' t' = Some e')" for t'
  proof (cases "t' = t")
    case True
    then show ?thesis using k sn t by (auto simp: mget_Cons)
  next
    case False
    then show ?thesis using R new by (metis mget_Cons gomap_simps(2) option.distinct(1))
  qed
  moreover have "mget (rz_registry st') k' = mget (rz_registry st) k'" if "mget ((k, ms) # tx) k' = None" for k'
    using that R reg by (simp add: mget_Cons split: if_splits)
  moreover have "sid_run (rz_sids st) (rz_sids st')" "mwf (rz_registry st) \<longrightarrow> mwf (rz_registry st')"
    "mwf sn \<longrightarrow> mwf sn'" "set errs \<subseteq> set errs'" "rz_generations st' = rz_generations st"
    "rz_published st' = rz_published st"
    using R run rest wf by (auto simp: gm.wf_put)
  ultimately show ?thesis unfolding commit_rel_def by blast
qed

lemma fold_commitEntry:
  assumes "tx_ok tx" and "known_types (rz_registry st)"
    and "fold (commitEntry w) tx (st, sn, errs) = (st', sn', errs')"
  shows "commit_rel w tx st sn errs st' sn' errs'"
  using assms
proof (induction tx arbitrary: st sn errs)
  case (Cons x tx)
  obtain k ms where x: "x = (k, ms)" by force
  let ?b = "baseEntry (wo_now w) k st"
  have tx: "ms \<noteq> []" "\<forall>m \<in> set ms. pm_NodeType m = NodeTypePE" "mget tx k = None" "tx_ok tx"
    using Cons.prems(1) by (simp_all add: x tx_ok_Cons)
  obtain errs1 i s where app:
    "applyMutations (wo_sidTx w) k ms (ni_Intent ?b) (rz_sids st) = (errs1, i, s)"
    by (metis prod_cases3)
  obtain t where t: "publishTarget (ni_NodeType ?b) k = Some t"
    using known_target known_base [OF Cons.prems(2)] by blast
  obtain st1 where 1: "commitEntry w (k, ms) (st, sn, errs) = (st1, mput t (commitOf w k i ?b) sn, errs @ errs1)"
    and reg: "\<And>k'. mget (rz_registry st1) k' = (if k' = k then Some (commitOf w k i ?b) else mget (rz_registry st) k')"
    and wf: "mwf (rz_registry st) \<Longrightarrow> mwf (rz_registry st1)"
    and rest: "rz_sids st1 = s" "rz_generations st1 = rz_generations st" "rz_published st1 = rz_published st"
    using commitEntry_spec [OF tx(1,2) Cons.prems(2) app t] by blast
  have known: "known_types (rz_registry st1)"
    using Cons.prems(2) known_base [OF Cons.prems(2), of "wo_now w" k] by (auto simp: known_types_def reg)
  have "commit_rel w tx st1 (mput t (commitOf w k i ?b) sn) (errs @ errs1) st' sn' errs'"
    by (rule Cons.IH [OF tx(4) known]) (use Cons.prems(3) 1 in \<open>simp add: x\<close>)
  then show ?case unfolding x
    by (rule commit_rel_Cons [OF _ tx(3) refl app _ reg wf rest]) (simp add: t)
qed (auto simp: commit_rel_def)

section \<open>Publication\<close>

definition stamp :: "node_intent \<Rightarrow> 32 word \<times> 32 word" where
  "stamp e = (ni_Version e, ni_Generation e)"

definition stamp_le :: "32 word \<times> 32 word \<Rightarrow> 32 word \<times> 32 word \<Rightarrow> bool" where
  "stamp_le p q \<longleftrightarrow> fst p < fst q \<or> fst p = fst q \<and> snd p \<le> snd q"

lemma stamp_le_refl [simp]: "stamp_le p p"
  by (simp add: stamp_le_def)

lemma stamp_le_trans [trans]: "stamp_le p q \<Longrightarrow> stamp_le q r \<Longrightarrow> stamp_le p r"
  by (auto simp: stamp_le_def)

text \<open>A snapshot is filed under the key of its own node.\<close>

definition snaps_ok :: "(string, node_intent) gomap \<Rightarrow> bool" where
  "snaps_ok sn \<longleftrightarrow> mwf sn \<and> (\<forall>t s. mget sn t = Some s \<longrightarrow> publishTarget (ni_NodeType s) (ni_ID s) = Some t)"

lemma snaps_ok_Cons:
  "snaps_ok ((t, s) # sn) \<longleftrightarrow> publishTarget (ni_NodeType s) (ni_ID s) = Some t \<and> mget sn t = None \<and> snaps_ok sn"
  unfolding snaps_ok_def by (auto simp: mwf_Cons mget_Cons mget_None_fst dest: mget_in_fst split: if_splits)

lemma publishAll_spec:
  assumes "snaps_ok sn" and "publishAll w sn (st, errs) = (st', errs')"
  shows "rz_registry st' = rz_registry st \<and> rz_sids st' = rz_sids st \<and> set errs \<subseteq> set errs' \<and>
    (mwf (rz_published st) \<longrightarrow> mwf (rz_published st')) \<and> (mwf (rz_generations st) \<longrightarrow> mwf (rz_generations st')) \<and>
    (\<forall>t. mget (rz_published st') t =
       (if wo_upsert w t \<and> wo_publish w t \<and> mget sn t \<noteq> None then mget sn t else mget (rz_published st) t)) \<and>
    (\<forall>ty k. mget (rz_generations st') (ty, k) =
       (case publishTarget ty k of
          Some t \<Rightarrow> (if wo_upsert w t \<and> mget sn t \<noteq> None then map_option stamp (mget sn t)
                      else mget (rz_generations st) (ty, k))
        | None \<Rightarrow> mget (rz_generations st) (ty, k)))"
  using assms
proof (induction sn arbitrary: st errs)
  case Nil
  then show ?case by (auto simp: publishAll_def split: option.splits)
next
  case (Cons x sn)
  obtain t s where x: "x = (t, s)" by force
  have sn: "publishTarget (ni_NodeType s) (ni_ID s) = Some t" "mget sn t = None" "snaps_ok sn"
    using Cons.prems(1) by (simp_all add: x snaps_ok_Cons)
  obtain st1 errs1 where 1: "publishSnapshot w (t, s) (st, errs) = (st1, errs1)"
    by force
  have 2: "publishAll w sn (st1, errs1) = (st', errs')"
    using Cons.prems(2) 1 by (simp add: publishAll_def x)
  have keys: "(ty, k) = (ni_NodeType s, ni_ID s) \<longleftrightarrow> publishTarget ty k = Some t" for ty k
    using sn(1) publishTarget_inj by blast
  have "rz_registry st1 = rz_registry st \<and> rz_sids st1 = rz_sids st \<and> set errs \<subseteq> set errs1 \<and>
    (mwf (rz_published st) \<longrightarrow> mwf (rz_published st1)) \<and> (mwf (rz_generations st) \<longrightarrow> mwf (rz_generations st1)) \<and>
    (\<forall>t'. mget (rz_published st1) t' =
       (if wo_upsert w t \<and> wo_publish w t \<and> t' = t then Some s else mget (rz_published st) t')) \<and>
    (\<forall>ty k. mget (rz_generations st1) (ty, k) =
       (if wo_upsert w t \<and> publishTarget ty k = Some t then Some (stamp s) else mget (rz_generations st) (ty, k)))"
    using 1 unfolding publishSnapshot_def upsertGeneration_def publishIntent_def stamp_def keys [symmetric]
    by (auto simp: gm.wf_put split: if_splits)
  with Cons.IH [OF sn(3) 2] show ?case
    using sn(2) by (auto simp: x mget_Cons split: option.splits)
qed

section \<open>The invariant\<close>

text \<open>
  An entry has a known type that fits its intent. It agrees with its row of the table of
  generations, or a restart has just moved it to the next version, or it has never been stored.
\<close>

definition typed :: "string \<Rightarrow> node_intent \<Rightarrow> bool" where
  "typed k e \<longleftrightarrow> ni_ID e = k \<and>
     (case ni_Intent e of PEIntent pe \<Rightarrow> ni_NodeType e = NodeTypePE \<and> pt_NodeID pe = k
      | CPEIntent c \<Rightarrow> ni_NodeType e = NodeTypeCPE \<and> ct_PortalID c \<in> {[], k})"

definition stored :: "node_intent \<Rightarrow> (32 word \<times> 32 word) option \<Rightarrow> bool" where
  "stored e row \<longleftrightarrow>
     (case row of
        None \<Rightarrow> stamp e = (1, 1)
      | Some (v, g) \<Rightarrow> stamp e = (v, g) \<or> v < v + 1 \<and> stamp e = (v + 1, 0))"

text \<open>The newest version and generation of a node; a node without an entry starts anew.\<close>

definition newest :: "registry_state \<Rightarrow> node_type \<Rightarrow> string \<Rightarrow> 32 word \<times> 32 word" where
  "newest st ty k =
     (case mget (rz_registry st) k of
        Some e \<Rightarrow> if ni_NodeType e = ty then stamp e else (1, 1)
      | None \<Rightarrow> (1, 1))"

definition pub_ok :: "registry_state \<Rightarrow> bool" where
  "pub_ok st \<longleftrightarrow>
     (\<forall>ty k t p. k \<noteq> [] \<longrightarrow> publishTarget ty k = Some t \<longrightarrow> mget (rz_published st) t = Some p \<longrightarrow>
        stamp_le (stamp p) (newest st ty k))"

definition reg_inv :: "registry_state \<Rightarrow> bool" where
  "reg_inv st \<longleftrightarrow> mwf (rz_registry st) \<and> mwf (rz_generations st) \<and>
     (\<forall>k e. mget (rz_registry st) k = Some e \<longrightarrow>
        typed k e \<and> stored e (mget (rz_generations st) (ni_NodeType e, k))) \<and>
     (\<forall>ty k row. mget (rz_generations st) (ty, k) = Some row \<longrightarrow>
        (\<exists>e. mget (rz_registry st) k = Some e \<and> ni_NodeType e = ty)) \<and> pub_ok st"

text \<open>No entry goes back, and what is newly published is the newest of its node.\<close>

definition advances :: "registry_state \<Rightarrow> registry_state \<Rightarrow> bool" where
  "advances st st' \<longleftrightarrow>
     (\<forall>ty k. stamp_le (newest st ty k) (newest st' ty k)) \<and>
     (\<forall>ty k t p. k \<noteq> [] \<longrightarrow> publishTarget ty k = Some t \<longrightarrow> mget (rz_published st') t = Some p \<longrightarrow>
        mget (rz_published st) t = Some p \<or> stamp p = newest st' ty k)"

lemma advancesD:
  assumes "advances st st'"
  shows "stamp_le (newest st ty k) (newest st' ty k)"
    and "k \<noteq> [] \<Longrightarrow> publishTarget ty k = Some t \<Longrightarrow> mget (rz_published st') t = Some p \<Longrightarrow>
      mget (rz_published st) t = Some p \<or> stamp p = newest st' ty k"
  using assms unfolding advances_def by blast+

lemma pub_okD:
  "pub_ok st \<Longrightarrow> k \<noteq> [] \<Longrightarrow> publishTarget ty k = Some t \<Longrightarrow> mget (rz_published st) t = Some p \<Longrightarrow>
   stamp_le (stamp p) (newest st ty k)"
  unfolding pub_ok_def by blast

lemma advances_pub_ok:
  assumes a: "advances st st'" and p: "pub_ok st"
  shows "pub_ok st'"
  unfolding pub_ok_def
proof (intro allI impI)
  fix ty k t p assume k: "k \<noteq> []" "publishTarget ty k = Some t" and "mget (rz_published st') t = Some p"
  with advancesD(2) [OF a] consider "mget (rz_published st) t = Some p" | "stamp p = newest st' ty k" by blast
  then show "stamp_le (stamp p) (newest st' ty k)"
    using stamp_le_trans [OF pub_okD [OF p k] advancesD(1) [OF a]] by cases auto
qed

lemma advances_published:
  assumes a: "advances st st'" and p: "pub_ok st" and k: "k \<noteq> []" "publishTarget ty k = Some t"
    and old: "mget (rz_published st) t = Some p" and new: "mget (rz_published st') t = Some p'"
  shows "stamp_le (stamp p) (stamp p')"
proof -
  consider "p' = p" | "stamp p' = newest st' ty k"
    using advancesD(2) [OF a k new] old by auto
  then show ?thesis
    using stamp_le_trans [OF pub_okD [OF p k old] advancesD(1) [OF a]] by cases auto
qed

definition no_wrap :: "registry_state \<Rightarrow> bool" where
  "no_wrap st \<longleftrightarrow>
     (\<forall>k e. mget (rz_registry st) k = Some e \<longrightarrow> ni_Generation e < ni_Generation e + 1) \<and>
     (\<forall>key row. mget (rz_generations st) key = Some row \<longrightarrow> fst row < fst row + 1)"

text \<open>Every staged change names the locator of its node.\<close>

fun mut_at :: "prefix \<Rightarrow> mutation \<Rightarrow> bool" where
  "mut_at l (SetSegs tenantID locator paths) = (locator = l)"
| "mut_at l (SetPortal tenantID portalID portal locator) = (locator = l)"
| "mut_at l _ = True"

definition tx_at :: "(string \<Rightarrow> prefix) \<Rightarrow> registry_tx \<Rightarrow> bool" where
  "tx_at loc tx \<longleftrightarrow> (\<forall>k ms. mget tx k = Some ms \<longrightarrow> (\<forall>m \<in> set ms. mut_at (loc k) (pm_Mutate m)))"

inductive reg_step :: "(string \<Rightarrow> prefix) \<Rightarrow> registry_state \<Rightarrow> registry_state \<Rightarrow> bool"
  for loc :: "string \<Rightarrow> prefix" where
  step_commit: "tx_ok tx \<Longrightarrow> tx_at loc tx \<Longrightarrow> \<forall>t. wo_upsert w t \<Longrightarrow> no_wrap st \<Longrightarrow>
    reg_step loc st (snd (Commit w tx st))"
| step_cpe: "ct_PortalID cpe = portalID \<Longrightarrow>
    \<forall>e. mget (rz_registry st) portalID = Some e \<longrightarrow> ni_NodeType e = NodeTypeCPE \<Longrightarrow>
    \<forall>t. wo_upsert w t \<Longrightarrow> no_wrap st \<Longrightarrow> reg_step loc st (snd (UpsertCPEIntentForSite w portalID cpe st))"
| step_portal: "ct_PortalID cpe = [] \<Longrightarrow> reg_step loc st (registerPortal now portalID cpe st)"
| step_sid: "reg_step loc st (st\<lparr>rz_sids := snd (getOrGenerateSID commit l tid ty (rz_sids st))\<rparr>)"
| step_restore: "reg_step loc st (snd (Restore ensure publish st))"
| step_lost: "reg_step loc st (st\<lparr>rz_published := []\<rparr>)"
| step_restart: "no_wrap st \<Longrightarrow> reg_step loc st (LoadPreviousStateFromDB now st)"

definition reg_start :: "registry_state \<Rightarrow> bool" where
  "reg_start st \<longleftrightarrow>
     (\<exists>c. st = \<lparr>rz_registry = [], rz_sids = newSIDs c, rz_generations = [], rz_published = []\<rparr>)"

subsection \<open>Commits\<close>

lemma mutatePEIntent_id: "mutatePEIntent tx k m pe s = (err, pe', s') \<Longrightarrow> pt_NodeID pe' = pt_NodeID pe"
  by (cases m)
    (auto simp: withTenant_def getOrCreateTenantIntentForPE_def Let_def
        split: prod.splits sum.splits option.splits)

lemma applyMutations_kind:
  "applyMutations tx k ms i s = (errs, i', s') \<Longrightarrow>
   (case i of CPEIntent _ \<Rightarrow> i' = i | PEIntent pe \<Rightarrow> \<exists>pe'. i' = PEIntent pe' \<and> pt_NodeID pe' = pt_NodeID pe)"
proof (induction ms arbitrary: i s errs)
  case (Cons m ms)
  obtain err i1 s1 where 1: "applyMutation tx k (pm_Mutate m) i s = (err, i1, s1)"
    by (metis prod_cases3)
  obtain errs2 where 2: "applyMutations tx k ms i1 s1 = (errs2, i', s')"
    using Cons.prems 1 by (auto split: prod.splits)
  show ?case
    using 1 Cons.IH [OF 2] mutatePEIntent_id
    by (auto simp: applyMutation_def split: intent.splits prod.splits)
qed (auto split: intent.splits)

lemma typed_newPE [simp]: "typed k (newPE now k)"
  by (simp add: typed_def newPE_def)

lemma inv_entry: "reg_inv st \<Longrightarrow> mget (rz_registry st) k = Some e \<Longrightarrow>
    typed k e \<and> stored e (mget (rz_generations st) (ni_NodeType e, k))"
  unfolding reg_inv_def by blast

lemma typed_known: "typed k e \<Longrightarrow> ni_NodeType e \<in> {NodeTypePE, NodeTypeCPE}"
  by (auto simp: typed_def split: intent.splits)

lemma inv_known: "reg_inv st \<Longrightarrow> known_types (rz_registry st)"
  unfolding known_types_def using inv_entry typed_known by blast

lemma typed_base: "reg_inv st \<Longrightarrow> typed k (baseEntry now k st)"
  using inv_entry by (auto simp: baseEntry_def split: option.splits)

lemma committed_typed:
  assumes "reg_inv st" and "committed w st k ms e errs s"
  shows "typed k e \<and> ni_NodeType e = ni_NodeType (baseEntry (wo_now w) k st)"
proof -
  let ?b = "baseEntry (wo_now w) k st"
  obtain i s1 s2 errs1 where e: "e = commitOf w k i ?b"
    and app: "applyMutations (wo_sidTx w) k ms (ni_Intent ?b) s1 = (errs1, i, s2)"
    using assms(2) unfolding committed_def by blast
  show ?thesis
    using typed_base [OF assms(1), of k "wo_now w"] applyMutations_kind [OF app]
    by (auto simp: e typed_def split: intent.splits)
qed

text \<open>Whether a commit touches a node of a type.\<close>

definition touches :: "registry_tx \<Rightarrow> registry_state \<Rightarrow> node_type \<Rightarrow> string \<Rightarrow> bool" where
  "touches tx st' ty k \<longleftrightarrow> mget tx k \<noteq> None \<and> (\<exists>e. mget (rz_registry st') k = Some e \<and> ni_NodeType e = ty)"

lemma commit_snapshots:
  assumes inv: "reg_inv st" and rel: "commit_rel w tx st [] [] st' sn errs"
  shows "publishTarget ty k = Some t \<Longrightarrow> mget sn t = (if touches tx st' ty k then mget (rz_registry st') k else None)"
    and "snaps_ok sn"
proof -
  note R = rel [unfolded commit_rel_def]
  have id: "ni_ID e = k" if "mget tx k = Some ms" "mget (rz_registry st') k = Some e" for k ms e
    using that R committed_typed [OF inv] unfolding typed_def by (metis option.inject)
  show "mget sn t = (if touches tx st' ty k then mget (rz_registry st') k else None)"
    if t: "publishTarget ty k = Some t" for ty k t
  proof (cases "touches tx st' ty k")
    case True
    then show ?thesis using R t unfolding touches_def by auto
  next
    case False
    have "mget sn t = None"
    proof (rule ccontr)
      assume "mget sn t \<noteq> None"
      with R obtain k' ms e where "mget tx k' = Some ms" "mget (rz_registry st') k' = Some e"
        "publishTarget (ni_NodeType e) k' = Some t" by (metis gomap_simps(1))
      with publishTarget_inj [OF t] False show False unfolding touches_def by blast
    qed
    then show ?thesis using False by simp
  qed
  show "snaps_ok sn"
    unfolding snaps_ok_def
  proof (intro conjI allI impI)
    show "mwf sn" using R by (simp add: gm.wf_empty)
    fix t s assume "mget sn t = Some s"
    with R obtain k ms where "mget tx k = Some ms" "mget (rz_registry st') k = Some s"
      "publishTarget (ni_NodeType s) k = Some t" by (metis gomap_simps(1) option.distinct(1) option.inject)
    then show "publishTarget (ni_NodeType s) (ni_ID s) = Some t" using id by simp
  qed
qed

lemma Commit_effect:
  assumes inv: "reg_inv st" and tx: "tx_ok tx" and c: "Commit w tx st = (errs, st')"
  shows "mget tx k = None \<Longrightarrow> mget (rz_registry st') k = mget (rz_registry st) k"
    and "mget tx k = Some ms \<Longrightarrow> \<exists>e. mget (rz_registry st') k = Some e \<and> committed w st k ms e errs (rz_sids st')"
    and "publishTarget ty k = Some t \<Longrightarrow> mget (rz_published st') t =
      (if wo_upsert w t \<and> wo_publish w t \<and> touches tx st' ty k then mget (rz_registry st') k else mget (rz_published st) t)"
    and "publishTarget ty k = Some t \<Longrightarrow> mget (rz_generations st') (ty, k) =
      (if wo_upsert w t \<and> touches tx st' ty k then map_option stamp (mget (rz_registry st') k)
       else mget (rz_generations st) (ty, k))"
    and "publishTarget ty k = None \<Longrightarrow> mget (rz_generations st') (ty, k) = mget (rz_generations st) (ty, k)"
    and "mwf (rz_registry st')" and "mwf (rz_generations st')" and "sid_run (rz_sids st) (rz_sids st')"
proof -
  obtain st1 sn errs1 where 1: "fold (commitEntry w) tx (st, [], []) = (st1, sn, errs1)"
    by (metis prod_cases3)
  have rel: "commit_rel w tx st [] [] st1 sn errs1"
    by (rule fold_commitEntry [OF tx inv_known [OF inv] 1])
  have 2: "publishAll w sn (st1, errs1) = (st', errs)"
    using c 1 by (auto simp: Commit_def commitLocked_def split: prod.splits)
  note R = rel [unfolded commit_rel_def] and S = commit_snapshots [OF inv rel]
  note Q = publishAll_spec [OF S(2) 2]
  have t: "touches tx st1 = touches tx st'" using Q by (simp add: touches_def fun_eq_iff)
  have wf: "mwf (rz_registry st)" "mwf (rz_generations st)" using inv by (simp_all add: reg_inv_def)
  show "mget tx k = None \<Longrightarrow> mget (rz_registry st') k = mget (rz_registry st) k" using R Q by simp
  show "mget tx k = Some ms \<Longrightarrow> \<exists>e. mget (rz_registry st') k = Some e \<and> committed w st k ms e errs (rz_sids st')"
    using R Q committed_mono by metis
  show "publishTarget ty k = Some t \<Longrightarrow> mget (rz_published st') t =
      (if wo_upsert w t \<and> wo_publish w t \<and> touches tx st' ty k then mget (rz_registry st') k else mget (rz_published st) t)"
    using Q R S(1) [of ty k t] by (auto simp: t touches_def)
  show "publishTarget ty k = Some t \<Longrightarrow> mget (rz_generations st') (ty, k) =
      (if wo_upsert w t \<and> touches tx st' ty k then map_option stamp (mget (rz_registry st') k)
       else mget (rz_generations st) (ty, k))"
    using Q R S(1) [of ty k t] by (auto simp: t touches_def)
  show "publishTarget ty k = None \<Longrightarrow> mget (rz_generations st') (ty, k) = mget (rz_generations st) (ty, k)"
    using Q R by simp
  show "mwf (rz_registry st')" "mwf (rz_generations st')" "sid_run (rz_sids st) (rz_sids st')"
    using Q R wf by simp_all
qed

lemma reg_inv_step:
  assumes "reg_inv st" "advances st st'" "mwf (rz_registry st')" "mwf (rz_generations st')"
    and "\<And>k e. mget (rz_registry st') k = Some e \<Longrightarrow>
      typed k e \<and> stored e (mget (rz_generations st') (ni_NodeType e, k))"
    and "\<And>ty k row. mget (rz_generations st') (ty, k) = Some row \<Longrightarrow>
      \<exists>e. mget (rz_registry st') k = Some e \<and> ni_NodeType e = ty"
  shows "reg_inv st' \<and> advances st st'"
  using assms advances_pub_ok [OF assms(2)] unfolding reg_inv_def by blast

lemma inv_row: "reg_inv st \<Longrightarrow> mget (rz_generations st) (ty, k) = Some row \<Longrightarrow>
    \<exists>e. mget (rz_registry st) k = Some e \<and> ni_NodeType e = ty"
  unfolding reg_inv_def by blast

lemma committed_newest:
  assumes "no_wrap st" and c: "committed w st k ms e errs s" and e: "mget (rz_registry st') k = Some e"
    and ty: "ni_NodeType e = ni_NodeType (baseEntry (wo_now w) k st)"
  shows "stamp_le (newest st ty k) (newest st' ty k)"
proof -
  obtain i where i: "e = commitOf w k i (baseEntry (wo_now w) k st)"
    using c unfolding committed_def by blast
  show ?thesis
  proof (cases "mget (rz_registry st) k")
    case None
    then show ?thesis
      using i e by (simp add: newest_def baseEntry_def newPE_def stamp_def stamp_le_def)
  next
    case (Some e0)
    then have "ni_Generation e0 < ni_Generation e0 + 1"
      using assms(1) unfolding no_wrap_def by blast
    then show ?thesis
      using i e Some by (auto simp: newest_def baseEntry_def stamp_def stamp_le_def less_imp_le)
  qed
qed

lemma step_commit_ok:
  assumes inv: "reg_inv st" and tx: "tx_ok tx" and up: "\<forall>t. wo_upsert w t" and nw: "no_wrap st"
  shows "reg_inv (snd (Commit w tx st)) \<and> advances st (snd (Commit w tx st))"
proof -
  obtain errs st' where c: "Commit w tx st = (errs, st')" by force
  note E = Commit_effect [OF inv tx c]
  have ty: "\<exists>e errs. mget (rz_registry st') k = Some e \<and> committed w st k ms e errs (rz_sids st') \<and> typed k e \<and>
      ni_NodeType e = ni_NodeType (baseEntry (wo_now w) k st)" if "mget tx k = Some ms" for k ms
    using E(2) [OF that] committed_typed [OF inv] by blast
  have "stamp_le (newest st ty k) (newest st' ty k)" for ty k
  proof (cases "mget tx k")
    case None
    then show ?thesis using E(1) by (simp add: newest_def)
  next
    case (Some ms)
    then show ?thesis using ty committed_newest [OF nw] by blast
  qed
  moreover have "mget (rz_published st) t = Some p \<or> stamp p = newest st' ty k"
    if "publishTarget ty k = Some t" "mget (rz_published st') t = Some p" for ty k t p
    using that E(3) [OF that(1)] by (auto simp: touches_def newest_def split: if_splits)
  ultimately have adv: "advances st st'" unfolding advances_def by blast
  have "typed k e \<and> stored e (mget (rz_generations st') (ni_NodeType e, k))"
    if e: "mget (rz_registry st') k = Some e" for k e
  proof (cases "mget tx k")
    case None
    then have "mget (rz_registry st) k = Some e" and "\<not> touches tx st' (ni_NodeType e) k"
      using E(1) e by (simp_all add: touches_def)
    then show ?thesis using inv_entry [OF inv] E(4,5) by (metis option.exhaust)
  next
    case (Some ms)
    with ty e have "typed k e" by force
    moreover obtain t where "publishTarget (ni_NodeType e) k = Some t"
      using known_target [OF typed_known [OF \<open>typed k e\<close>]] by blast
    ultimately show ?thesis using E(4) up Some e by (simp add: touches_def stored_def split: prod.splits)
  qed
  moreover have "\<exists>e. mget (rz_registry st') k = Some e \<and> ni_NodeType e = ty"
    if row: "mget (rz_generations st') (ty, k) = Some row" for ty k row
  proof (cases "touches tx st' ty k")
    case False
    then have "mget (rz_generations st) (ty, k) = Some row"
      using row E(4,5) by (metis option.exhaust)
    with inv_row [OF inv] obtain e0 where e0: "mget (rz_registry st) k = Some e0" "ni_NodeType e0 = ty" by blast
    then show ?thesis using E(1) ty by (cases "mget tx k") (auto simp: baseEntry_def, fastforce)
  qed (simp add: touches_def)
  ultimately show ?thesis
    using reg_inv_step [OF inv adv E(6,7)] c by simp
qed

subsection \<open>Portals\<close>

text \<open>The entry of a portal after an update of its tunnel.\<close>

definition cpeEntry :: "world \<Rightarrow> string \<Rightarrow> cpe_intent \<Rightarrow> registry_state \<Rightarrow> node_intent" where
  "cpeEntry w k cpe st =
     (let b = (case mget (rz_registry st) k of
                 None \<Rightarrow> \<lparr>ni_ID = k, ni_NodeType = NodeTypeCPE, ni_Intent = CPEIntent cpe, ni_Timestamp = wo_now w,
                           ni_Generation = 0, ni_Version = 1\<rparr>
               | Some e \<Rightarrow> e)
      in b\<lparr>ni_Intent := CPEIntent cpe, ni_Generation := ni_Generation b + 1, ni_Timestamp := wo_now w\<rparr>)"

lemma UpsertCPE_effect:
  assumes "mwf (rz_registry st)" "mwf (rz_generations st)"
    and u: "UpsertCPEIntentForSite w k cpe st = (err, st')"
  defines "e \<equiv> cpeEntry w k cpe st" and "t \<equiv> nodesync_Key PrefixCPE k LaneIntent"
  shows "mget (rz_registry st') k' = (if k' = k then Some e else mget (rz_registry st) k')"
    and "mget (rz_generations st') key = (if wo_upsert w t \<and> key = (ni_NodeType e, ni_ID e) then Some (stamp e)
      else mget (rz_generations st) key)"
    and "mget (rz_published st') t' = (if wo_upsert w t \<and> wo_publish w t \<and> t' = t then Some e
      else mget (rz_published st) t')"
    and "mwf (rz_registry st')" "mwf (rz_generations st')" "rz_sids st' = rz_sids st"
    and "err = None \<longleftrightarrow> wo_upsert w t \<and> wo_publish w t"
proof -
  obtain st1 where g: "getOrCreateRegistryEntryForCPE (wo_now w) k st =
      (case mget (rz_registry st) k of None \<Rightarrow> \<lparr>ni_ID = k, ni_NodeType = NodeTypeCPE,
         ni_Intent = CPEIntent (emptyCPE k), ni_Timestamp = wo_now w, ni_Generation = 0, ni_Version = 1\<rparr>
       | Some e \<Rightarrow> e, st1)"
    and st1: "rz_generations st1 = rz_generations st" "rz_published st1 = rz_published st" "rz_sids st1 = rz_sids st"
      "mwf (rz_registry st1)" "\<And>k'. k' \<noteq> k \<Longrightarrow> mget (rz_registry st1) k' = mget (rz_registry st) k'"
    using assms(1) by (cases "mget (rz_registry st) k")
      (auto simp: getOrCreateRegistryEntryForCPE_def Let_def gm.wf_put)
  let ?st2 = "st1\<lparr>rz_registry := mput k e (rz_registry st1)\<rparr>"
  have st': "(err, st') =
      (if \<not> wo_upsert w t then (Some (ErrUpsert k), ?st2)
       else if \<not> wo_publish w t then (Some (ErrPublish k), upsertGeneration e ?st2)
       else (None, publishIntent t e (upsertGeneration e ?st2)))"
    unfolding u [symmetric] UpsertCPEIntentForSite_def g e_def cpeEntry_def t_def
    by (cases "mget (rz_registry st) k") (simp_all add: Let_def)
  note defs = upsertGeneration_def publishIntent_def stamp_def
  show "mget (rz_registry st') k' = (if k' = k then Some e else mget (rz_registry st) k')"
    "mget (rz_generations st') key = (if wo_upsert w t \<and> key = (ni_NodeType e, ni_ID e) then Some (stamp e)
      else mget (rz_generations st) key)"
    "mget (rz_published st') t' = (if wo_upsert w t \<and> wo_publish w t \<and> t' = t then Some e
      else mget (rz_published st) t')"
    "mwf (rz_registry st')" "mwf (rz_generations st')" "rz_sids st' = rz_sids st"
    "err = None \<longleftrightarrow> wo_upsert w t \<and> wo_publish w t"
    using st' st1 assms(2) by (auto simp: defs gm.wf_put split: if_splits)
qed

lemma step_cpe_ok:
  assumes inv: "reg_inv st" and id: "ct_PortalID cpe = k" and up: "\<forall>t. wo_upsert w t" and nw: "no_wrap st"
    and ty: "\<forall>e. mget (rz_registry st) k = Some e \<longrightarrow> ni_NodeType e = NodeTypeCPE"
  shows "reg_inv (snd (UpsertCPEIntentForSite w k cpe st)) \<and> advances st (snd (UpsertCPEIntentForSite w k cpe st))"
proof -
  obtain err st' where u: "UpsertCPEIntentForSite w k cpe st = (err, st')" by force
  let ?e = "cpeEntry w k cpe st"
  note E = UpsertCPE_effect [OF _ _ u]
  have wf: "mwf (rz_registry st)" "mwf (rz_generations st)" using inv by (simp_all add: reg_inv_def)
  have e: "typed k ?e \<and> ni_NodeType ?e = NodeTypeCPE \<and> ni_ID ?e = k"
  proof (cases "mget (rz_registry st) k")
    case None
    then show ?thesis using id by (simp add: cpeEntry_def typed_def)
  next
    case (Some e0)
    then show ?thesis using id ty inv_entry [OF inv Some] by (simp add: cpeEntry_def typed_def Let_def)
  qed
  have "stamp_le (newest st NodeTypeCPE k) (stamp ?e)"
  proof (cases "mget (rz_registry st) k")
    case None
    then show ?thesis by (simp add: cpeEntry_def newest_def stamp_def stamp_le_def)
  next
    case (Some e0)
    then have "ni_NodeType e0 = NodeTypeCPE" "ni_Generation e0 < ni_Generation e0 + 1"
      using ty nw unfolding no_wrap_def by blast+
    then show ?thesis using Some by (simp add: cpeEntry_def newest_def stamp_def stamp_le_def Let_def less_imp_le)
  qed
  then have "stamp_le (newest st ty' k') (newest st' ty' k')" for ty' k'
    using ty e by (cases "mget (rz_registry st) k") (auto simp: newest_def E(1) [OF wf])
  moreover have "mget (rz_published st) t = Some p \<or> stamp p = newest st' ty' k'"
    if "publishTarget ty' k' = Some t" "mget (rz_published st') t = Some p" for ty' k' t p
  proof -
    have "publishTarget NodeTypeCPE k = Some (nodesync_Key PrefixCPE k LaneIntent)"
      by (simp add: publishTarget_def)
    then show ?thesis
      using that publishTarget_inj [OF that(1), of NodeTypeCPE k] e
      unfolding E(3) [OF wf] newest_def E(1) [OF wf] by (auto split: if_splits)
  qed
  ultimately have adv: "advances st st'" unfolding advances_def by blast
  have "reg_inv st' \<and> advances st st'"
  proof (rule reg_inv_step [OF inv adv E(4,5) [OF wf]])
    show "typed k' e' \<and> stored e' (mget (rz_generations st') (ni_NodeType e', k'))"
      if "mget (rz_registry st') k' = Some e'" for k' e'
      using that inv_entry [OF inv, of k' e'] e up unfolding E(1,2) [OF wf]
      by (auto simp: stored_def split: if_splits prod.splits)
    show "\<exists>e'. mget (rz_registry st') k' = Some e' \<and> ni_NodeType e' = ty'"
      if "mget (rz_generations st') (ty', k') = Some row" for ty' k' row
      using that inv_row [OF inv, of ty' k' row] e ty up unfolding E(1,2) [OF wf]
      by (auto split: if_splits)
  qed
  then show ?thesis using u by simp
qed

lemma step_portal_ok:
  assumes inv: "reg_inv st" and id: "ct_PortalID cpe = []"
  shows "reg_inv (registerPortal now k cpe st) \<and> advances st (registerPortal now k cpe st)"
proof (cases "mget (rz_registry st) k")
  case (Some e)
  then show ?thesis using inv by (simp add: registerPortal_def advances_def)
next
  case None
  let ?st = "registerPortal now k cpe st"
  have r: "mget (rz_registry ?st) k' = (if k' = k then Some \<lparr>ni_ID = k, ni_NodeType = NodeTypeCPE,
      ni_Intent = CPEIntent cpe, ni_Timestamp = now, ni_Generation = 1, ni_Version = 1\<rparr> else mget (rz_registry st) k')"
    "rz_published ?st = rz_published st" "rz_generations ?st = rz_generations st"
    "mwf (rz_registry st) \<Longrightarrow> mwf (rz_registry ?st)" for k'
    using None by (auto simp: registerPortal_def gm.wf_put)
  have none: "mget (rz_generations st) (ty, k) = None" for ty
    using inv_row [OF inv, of ty k] None by (cases "mget (rz_generations st) (ty, k)") auto
  have "stamp_le (newest st ty k') (newest ?st ty k')" for ty k'
    using None by (auto simp: newest_def r stamp_def)
  then have adv: "advances st ?st" unfolding advances_def r(2) by blast
  show ?thesis
  proof (rule reg_inv_step [OF inv adv])
    show "typed k' e \<and> stored e (mget (rz_generations ?st) (ni_NodeType e, k'))"
      if "mget (rz_registry ?st) k' = Some e" for k' e
      using that inv_entry [OF inv, of k' e] none id unfolding r
      by (auto simp: typed_def stored_def stamp_def split: if_splits)
    show "\<exists>e. mget (rz_registry ?st) k' = Some e \<and> ni_NodeType e = ty"
      if "mget (rz_generations ?st) (ty, k') = Some row" for ty k' row
      using that inv_row [OF inv, of ty k' row] none unfolding r by auto
  qed (use inv r in \<open>simp_all add: reg_inv_def\<close>)
qed

subsection \<open>Reconnects and restarts\<close>

lemma restoreLoop_spec:
  "restoreLoop publish nis st = (err, st') \<Longrightarrow>
   rz_registry st' = rz_registry st \<and> rz_generations st' = rz_generations st \<and> rz_sids st' = rz_sids st \<and>
   (mget (rz_published st') t = Some p \<longrightarrow>
      mget (rz_published st) t = Some p \<or> p \<in> set nis \<and> restoreTarget p = t)"
  by (induction publish nis st rule: restoreLoop.induct)
    (auto simp: publishIntent_def split: if_splits)

lemma restoreTarget_typed:
  assumes "typed k0 e" and "k \<noteq> []" and "publishTarget ty k = Some (restoreTarget e)"
  shows "k = k0 \<and> ni_NodeType e = ty"
proof (cases "ni_Intent e")
  case (PEIntent pe)
  then have "publishTarget NodeTypePE k0 = Some (restoreTarget e)"
    using assms(1) by (simp add: typed_def restoreTarget_def publishTarget_def)
  from publishTarget_inj [OF this assms(3)] show ?thesis using assms(1) PEIntent by (simp add: typed_def)
next
  case (CPEIntent c)
  then have "publishTarget NodeTypeCPE (ct_PortalID c) = Some (restoreTarget e)"
    by (simp add: restoreTarget_def publishTarget_def)
  from publishTarget_inj [OF this assms(3)] show ?thesis using assms(1,2) CPEIntent by (auto simp: typed_def)
qed

lemma step_restore_ok:
  assumes inv: "reg_inv st"
  shows "reg_inv (snd (Restore ensure publish st)) \<and> advances st (snd (Restore ensure publish st))"
proof (cases ensure)
  case True
  obtain err st' where l: "restoreLoop publish (map snd (rz_registry st)) st = (err, st')" by force
  have same: "rz_registry st' = rz_registry st" "rz_generations st' = rz_generations st"
    and wf: "mwf (rz_registry st)" "mwf (rz_generations st)"
    using restoreLoop_spec [OF l] inv by (simp_all add: reg_inv_def)
  have "mget (rz_published st) t = Some p \<or> stamp p = newest st' ty k"
    if k: "k \<noteq> []" "publishTarget ty k = Some t" "mget (rz_published st') t = Some p" for ty k t p
  proof (cases "mget (rz_published st) t = Some p")
    case False
    then have "p \<in> snd ` set (rz_registry st)" and t: "restoreTarget p = t"
      using restoreLoop_spec [OF l, of t p] k(3) by simp_all
    then obtain k0 where "(k0, p) \<in> set (rz_registry st)" by force
    then have k0: "mget (rz_registry st) k0 = Some p" by (rule in_set_mget [OF wf(1)])
    moreover from k(2) t have "publishTarget ty k = Some (restoreTarget p)" by simp
    ultimately have "k = k0 \<and> ni_NodeType p = ty"
      using restoreTarget_typed [OF _ k(1)] inv_entry [OF inv k0] by blast
    then show ?thesis using k0 same by (simp add: newest_def)
  qed simp
  moreover have "newest st' = newest st" using same by (simp add: newest_def fun_eq_iff)
  ultimately have adv: "advances st st'" unfolding advances_def by simp
  have "reg_inv st' \<and> advances st st'"
    by (rule reg_inv_step [OF inv adv]) (use inv_entry [OF inv] inv_row [OF inv] in \<open>simp_all add: same wf\<close>)
  then show ?thesis using True l by (simp add: Restore_def)
qed (use inv in \<open>simp add: Restore_def advances_def\<close>)

definition restoredEntry :: "int \<Rightarrow> node_type \<Rightarrow> string \<Rightarrow> 32 word \<Rightarrow> intent \<Rightarrow> node_intent" where
  "restoredEntry now ty k v i =
     \<lparr>ni_ID = k, ni_NodeType = ty, ni_Intent = i, ni_Timestamp = now, ni_Generation = 0, ni_Version = v + 1\<rparr>"

lemma fold_restoreGeneration:
  assumes "distinct (map (snd \<circ> fst) rows)"
    and "\<forall>row \<in> set rows. fst (fst row) \<in> {NodeTypePE, NodeTypeCPE}"
  shows "(mwf m \<longrightarrow> mwf (fold (restoreGeneration now) rows m)) \<and>
    (\<forall>k. k \<notin> (snd \<circ> fst) ` set rows \<longrightarrow> mget (fold (restoreGeneration now) rows m) k = mget m k) \<and>
    (\<forall>ty k v g. ((ty, k), (v, g)) \<in> set rows \<longrightarrow>
       (\<exists>i. restoredIntent ty k = Some i \<and>
          mget (fold (restoreGeneration now) rows m) k = Some (restoredEntry now ty k v i)))"
  using assms
proof (induction rows arbitrary: m)
  case (Cons row rows)
  obtain ty k v g where row: "row = ((ty, k), (v, g))" by (metis prod.exhaust)
  then obtain i where i: "restoredIntent ty k = Some i"
    using Cons.prems(2) by (auto simp: restoredIntent_def)
  have step: "restoreGeneration now ((ty, k), (v, g)) m = mput k (restoredEntry now ty k v i) m"
    by (simp add: restoreGeneration_def i restoredEntry_def)
  have IH: "distinct (map (snd \<circ> fst) rows)" "\<forall>row \<in> set rows. fst (fst row) \<in> {NodeTypePE, NodeTypeCPE}"
    "k \<notin> (snd \<circ> fst) ` set rows"
    using Cons.prems by (simp_all add: row comp_def)
  show ?case
    using Cons.IH [OF IH(1,2), of "mput k (restoredEntry now ty k v i) m"] IH(3) i
    by (auto simp: step row gm.wf_put)
qed simp

text \<open>The table of generations has one row per node, of a known type.\<close>

lemma rows_known:
  assumes inv: "reg_inv st" and "row \<in> set (rz_generations st)"
  shows "fst (fst row) \<in> {NodeTypePE, NodeTypeCPE}"
proof -
  obtain ty k r where row: "row = ((ty, k), r)" by (metis prod.exhaust)
  then have "mget (rz_generations st) (ty, k) = Some r"
    using assms by (auto simp: reg_inv_def intro: in_set_mget)
  from inv_row [OF inv this] obtain e where "mget (rz_registry st) k = Some e" "ni_NodeType e = ty" by blast
  then show ?thesis using inv_entry [OF inv] typed_known row by fastforce
qed

lemma rows_distinct:
  assumes inv: "reg_inv st"
  shows "distinct (map (snd \<circ> fst) (rz_generations st))"
proof -
  have wf: "mwf (rz_generations st)" using inv by (simp add: reg_inv_def)
  have "inj_on (snd \<circ> fst) (set (rz_generations st))"
  proof (rule inj_onI)
    fix x y assume xy: "x \<in> set (rz_generations st)" "y \<in> set (rz_generations st)" "(snd \<circ> fst) x = (snd \<circ> fst) y"
    obtain ty k r ty' k' r' where p: "x = ((ty, k), r)" "y = ((ty', k'), r')" by (metis prod.exhaust)
    with xy have k: "k' = k" by simp
    with xy p have m: "mget (rz_generations st) (ty, k) = Some r" "mget (rz_generations st) (ty', k) = Some r'"
      using in_set_mget [OF wf] by auto
    then have "ty' = ty" using inv_row [OF inv m(1)] inv_row [OF inv m(2)] by auto
    then show "x = y" using p k m by simp
  qed
  moreover have "distinct (rz_generations st)" using wf by (simp add: mwf_def distinct_map)
  ultimately show ?thesis by (simp add: distinct_map)
qed

lemma restored_registry:
  fixes now :: int
  assumes inv: "reg_inv st"
  defines "reg \<equiv> rz_registry (LoadPreviousStateFromDB now st)"
  shows "mwf reg"
    and "mget reg k = Some e \<longleftrightarrow> (\<exists>ty v g i. mget (rz_generations st) (ty, k) = Some (v, g) \<and>
      restoredIntent ty k = Some i \<and> e = restoredEntry now ty k v i)"
proof -
  let ?rows = "rz_generations st"
  have wf: "mwf ?rows" using inv by (simp add: reg_inv_def)
  have known: "\<forall>row \<in> set ?rows. fst (fst row) \<in> {NodeTypePE, NodeTypeCPE}" using rows_known [OF inv] by blast
  note F = fold_restoreGeneration [OF rows_distinct [OF inv] known, of "[]" now]
  have reg: "reg = fold (restoreGeneration now) ?rows []" by (simp add: reg_def LoadPreviousStateFromDB_def)
  show "mwf reg" using F by (simp add: reg gm.wf_empty)
  have in_rows: "(key, r) \<in> set ?rows \<longleftrightarrow> mget ?rows key = Some r" for key r
    using wf by (simp add: gm.entries_get)
  have some: "\<exists>i. restoredIntent ty k = Some i \<and> mget reg k = Some (restoredEntry now ty k v i)"
    if "mget ?rows (ty, k) = Some (v, g)" for ty v g
    using that F unfolding in_rows [symmetric] reg by blast
  have none: "mget reg k = None" if "\<forall>ty. mget ?rows (ty, k) = None"
  proof -
    have "k \<notin> (snd \<circ> fst) ` set ?rows" using that in_rows by (fastforce simp: image_iff)
    then show ?thesis using F by (simp add: reg)
  qed
  show "mget reg k = Some e \<longleftrightarrow> (\<exists>ty v g i. mget ?rows (ty, k) = Some (v, g) \<and>
      restoredIntent ty k = Some i \<and> e = restoredEntry now ty k v i)"
  proof
    assume "mget reg k = Some e"
    with none obtain ty v g where r: "mget ?rows (ty, k) = Some (v, g)" by (metis option.distinct(1) option.exhaust prod.collapse)
    with some [OF r] \<open>mget reg k = Some e\<close> show "\<exists>ty v g i. mget ?rows (ty, k) = Some (v, g) \<and>
      restoredIntent ty k = Some i \<and> e = restoredEntry now ty k v i" by auto
  next
    assume "\<exists>ty v g i. mget ?rows (ty, k) = Some (v, g) \<and> restoredIntent ty k = Some i \<and> e = restoredEntry now ty k v i"
    with some show "mget reg k = Some e" by fastforce
  qed
qed

lemma restart_row:
  assumes inv: "reg_inv st" and nw: "no_wrap st" and r: "mget (rz_generations st) (ty, k) = Some (v, g)"
  shows "\<exists>e i. mget (rz_registry st) k = Some e \<and> ni_NodeType e = ty \<and> typed k e \<and> stored e (Some (v, g)) \<and>
    v < v + 1 \<and> restoredIntent ty k = Some i"
proof -
  obtain e where e: "mget (rz_registry st) k = Some e" "ni_NodeType e = ty" using inv_row [OF inv r] by blast
  moreover have "v < v + 1" using nw r unfolding no_wrap_def by fastforce
  ultimately show ?thesis
    using inv_entry [OF inv e(1)] r typed_known [of k e] by (auto simp: restoredIntent_def)
qed

text \<open>After a restart a node is at the next version of its row.\<close>

lemma restart_newest:
  assumes inv: "reg_inv st" and nw: "no_wrap st"
  shows "newest (LoadPreviousStateFromDB now st) ty k =
    (case mget (rz_generations st) (ty, k) of None \<Rightarrow> (1, 1) | Some (v, g) \<Rightarrow> (v + 1, 0))"
proof (cases "mget (rz_registry (LoadPreviousStateFromDB now st)) k")
  case None
  then have "mget (rz_generations st) (ty, k) = None"
    using restored_registry(2) [OF inv] restart_row [OF inv nw] by (metis option.distinct(1) option.exhaust surj_pair)
  then show ?thesis using None by (simp add: newest_def)
next
  case (Some e)
  then obtain ty' v g i where e: "mget (rz_generations st) (ty', k) = Some (v, g)" "e = restoredEntry now ty' k v i"
    using restored_registry(2) [OF inv] by blast
  moreover have "mget (rz_generations st) (ty, k) = None" if "ty \<noteq> ty'"
    using that restart_row [OF inv nw e(1)] restart_row [OF inv nw] by (metis option.exhaust option.inject surj_pair)
  ultimately show ?thesis using Some by (auto simp: newest_def restoredEntry_def stamp_def)
qed

lemma step_restart_ok:
  assumes inv: "reg_inv st" and nw: "no_wrap st"
  shows "reg_inv (LoadPreviousStateFromDB now st) \<and> advances st (LoadPreviousStateFromDB now st)"
proof -
  let ?st = "LoadPreviousStateFromDB now st"
  note R = restored_registry [OF inv, where now = now] and row = restart_row [OF inv nw]
  have same: "rz_generations ?st = rz_generations st" "rz_published ?st = rz_published st"
    by (simp_all add: LoadPreviousStateFromDB_def)
  have "stamp_le (newest st ty k) (newest ?st ty k)" for ty k
  proof (cases "mget (rz_generations st) (ty, k)")
    case None
    then show ?thesis using inv_entry [OF inv, of k] unfolding restart_newest [OF inv nw]
      by (auto simp: newest_def stored_def split: option.splits)
  next
    case (Some r)
    obtain v g where r: "r = (v, g)" by force
    from row [OF Some [unfolded r]] show ?thesis unfolding restart_newest [OF inv nw]
      by (auto simp: Some r newest_def stored_def stamp_le_def)
  qed
  then have adv: "advances st ?st" unfolding advances_def same by blast
  show ?thesis
  proof (rule reg_inv_step [OF inv adv R(1)])
    show "mwf (rz_generations ?st)" using inv by (simp add: same reg_inv_def)
    show "typed k e \<and> stored e (mget (rz_generations ?st) (ni_NodeType e, k))" if k: "mget (rz_registry ?st) k = Some e" for k e
    proof -
      obtain ty v g i where r: "mget (rz_generations st) (ty, k) = Some (v, g)" "restoredIntent ty k = Some i"
        "e = restoredEntry now ty k v i" using k R(2) by blast
      then show ?thesis using row [OF r(1)]
        by (auto simp: same restoredEntry_def typed_def stored_def stamp_def restoredIntent_def emptyCPE_def split: node_type.splits)
    qed
    show "\<exists>e. mget (rz_registry ?st) k = Some e \<and> ni_NodeType e = ty" if k: "mget (rz_generations ?st) (ty, k) = Some r" for ty k r
    proof -
      obtain v g where r: "mget (rz_generations st) (ty, k) = Some (v, g)" using k same by (cases r) auto
      then obtain i where "restoredIntent ty k = Some i" using row by blast
      with R(2) r have "mget (rz_registry ?st) k = Some (restoredEntry now ty k v i)" by blast
      then show ?thesis by (simp add: restoredEntry_def)
    qed
  qed
qed

section \<open>Announced identifiers\<close>

text \<open>Allocations keep the identifiers that are already known.\<close>

lemma sid_step_keeps:
  "sid_step s s' \<Longrightarrow> mget (sd_tenant s) key = Some a \<Longrightarrow> mget (sd_tenant s') key = Some a"
proof (induction rule: sid_step.induct)
  case (sid_get s commit l tid ty)
  show ?case
  proof (cases "mget (sd_tenant s) (tenantMapKey l tid ty)")
    case None
    obtain res s' where g: "sidLoop commit MaxSIDCollisionChecks l tid ty s = (res, s')" by force
    then have "getOrGenerateSID commit l tid ty s = (res, s')" using None by (simp add: getOrGenerateSID_def)
    then show ?thesis using sidLoop_spec [OF None g] sid_get None by auto
  qed (use sid_get in \<open>simp add: getOrGenerateSID_def\<close>)
qed

lemma sid_run_keeps:
  "sid_run s s' \<Longrightarrow> mget (sd_tenant s) key = Some a \<Longrightarrow> mget (sd_tenant s') key = Some a"
  by (induction rule: rtranclp_induct) (auto intro: sid_step_keeps)

lemma getOrGenerateSID_known:
  assumes "getOrGenerateSID commit l tid ty s = (Inr a, s')"
  shows "mget (sd_tenant s') (tenantMapKey l tid ty) = Some a"
proof (cases "mget (sd_tenant s) (tenantMapKey l tid ty)")
  case None
  then have "sidLoop commit MaxSIDCollisionChecks l tid ty s = (Inr a, s')"
    using assms by (simp add: getOrGenerateSID_def)
  from sidLoop_spec [OF None this] show ?thesis by auto
qed (use assms in \<open>auto simp: getOrGenerateSID_def\<close>)

definition pe_sids :: "prefix \<Rightarrow> intent \<Rightarrow> sid_state \<Rightarrow> bool" where
  "pe_sids l i s \<longleftrightarrow> (\<forall>pe tid t. i = PEIntent pe \<longrightarrow> mget (pt_Tenants pe) tid = Some t \<longrightarrow>
     mget (sd_tenant s) (tenantMapKey l tid EncapTypeDT46) = Some (ti_DT46SID t))"

lemma pe_sids_run: "pe_sids l i s \<Longrightarrow> sid_run s s' \<Longrightarrow> pe_sids l i s'"
  unfolding pe_sids_def using sid_run_keeps by blast

lemma withTenant_sids:
  assumes "pe_sids l (PEIntent pe) s" and "withTenant tx k tid l f pe s = (err, pe', s')"
    and f: "\<And>t. ti_DT46SID (f t) = ti_DT46SID t"
  shows "pe_sids l (PEIntent pe') s'"
proof (cases "mget (pt_Tenants pe) tid")
  case (Some t)
  then show ?thesis
    using assms(1,2) f by (auto simp: withTenant_def getOrCreateTenantIntentForPE_def pe_sids_def split: if_splits)
next
  case None
  obtain res s1 where g: "getOrGenerateSID (tx (tenantMapKey l tid EncapTypeDT46)) l tid EncapTypeDT46 s = (res, s1)"
    by force
  have run: "pe_sids l (PEIntent pe) s1" by (rule pe_sids_run [OF assms(1) sid_run_get [OF g]])
  show ?thesis
  proof (cases res)
    case (Inl e)
    then show ?thesis
      using assms(2) None g run by (auto simp: withTenant_def getOrCreateTenantIntentForPE_def)
  next
    case (Inr a)
    then show ?thesis
      using assms(2) None g run f getOrGenerateSID_known [of _ l tid EncapTypeDT46 s a s1]
      by (auto simp: withTenant_def getOrCreateTenantIntentForPE_def pe_sids_def Let_def split: if_splits)
  qed
qed

lemma mutatePEIntent_sids:
  assumes "pe_sids l (PEIntent pe) s" "mut_at l m" "mutatePEIntent tx k m pe s = (err, pe', s')"
  shows "pe_sids l (PEIntent pe') s'"
proof (cases m)
  case (SetSegs tid locator paths)
  then show ?thesis using assms by (auto intro: withTenant_sids)
next
  case (SetPortal tid pid portal locator)
  then show ?thesis using assms by (auto intro: withTenant_sids)
qed (use assms in \<open>auto simp: pe_sids_def\<close>)

lemma applyMutations_sids:
  "pe_sids l i s \<Longrightarrow> \<forall>m \<in> set ms. mut_at l (pm_Mutate m) \<Longrightarrow> applyMutations tx k ms i s = (errs, i', s') \<Longrightarrow>
   pe_sids l i' s'"
proof (induction ms arbitrary: i s errs)
  case (Cons m ms)
  obtain err i1 s1 where 1: "applyMutation tx k (pm_Mutate m) i s = (err, i1, s1)"
    by (metis prod_cases3)
  obtain errs2 where 2: "applyMutations tx k ms i1 s1 = (errs2, i', s')"
    using Cons.prems 1 by (auto split: prod.splits)
  have "pe_sids l i1 s1"
  proof (cases i)
    case (PEIntent pe)
    obtain err pe' s2 where m: "mutatePEIntent tx k (pm_Mutate m) pe s = (err, pe', s2)" by (metis prod_cases3)
    then have "i1 = PEIntent pe'" "s1 = s2" using 1 PEIntent by (simp_all add: applyMutation_def)
    then show ?thesis using mutatePEIntent_sids [OF _ _ m] Cons.prems PEIntent by auto
  next
    case (CPEIntent c)
    then show ?thesis using 1 by (auto simp: applyMutation_def pe_sids_def)
  qed
  then show ?case using Cons.IH [OF _ _ 2] Cons.prems by simp
qed simp

definition sids_announced :: "(string \<Rightarrow> prefix) \<Rightarrow> registry_state \<Rightarrow> bool" where
  "sids_announced loc st \<longleftrightarrow>
     (\<forall>k e. mget (rz_registry st) k = Some e \<longrightarrow> pe_sids (loc k) (ni_Intent e) (rz_sids st))"

lemma committed_sids:
  assumes ann: "sids_announced loc st" and at: "\<forall>m \<in> set ms. mut_at (loc k) (pm_Mutate m)"
    and c: "committed w st k ms e errs final"
  shows "pe_sids (loc k) (ni_Intent e) final"
proof -
  let ?b = "baseEntry (wo_now w) k st"
  obtain i s s' errs1 where e: "e = commitOf w k i ?b" and run: "sid_run (rz_sids st) s" "sid_run s' final"
    and app: "applyMutations (wo_sidTx w) k ms (ni_Intent ?b) s = (errs1, i, s')"
    using c unfolding committed_def by blast
  have "pe_sids (loc k) (ni_Intent ?b) (rz_sids st)"
    using ann by (auto simp: sids_announced_def baseEntry_def newPE_def pe_sids_def split: option.splits)
  from applyMutations_sids [OF pe_sids_run [OF this run(1)] at app] show ?thesis
    using pe_sids_run run(2) by (simp add: e) 
qed

lemma step_sids:
  assumes inv: "reg_inv st" and ann: "sids_announced loc st" and step: "reg_step loc st st'"
  shows "sids_announced loc st'"
  using step
proof cases
  case (step_commit tx w)
  obtain errs where c: "Commit w tx st = (errs, st')" using step_commit by (metis prod.collapse)
  note E = Commit_effect [OF inv step_commit(2) c]
  have "pe_sids (loc k) (ni_Intent e) (rz_sids st')" if k: "mget (rz_registry st') k = Some e" for k e
  proof (cases "mget tx k")
    case None
    then have "pe_sids (loc k) (ni_Intent e) (rz_sids st)" using E(1) k ann by (simp add: sids_announced_def)
    then show ?thesis using E(8) by (rule pe_sids_run)
  next
    case (Some ms)
    then have "\<forall>m \<in> set ms. mut_at (loc k) (pm_Mutate m)" using step_commit by (simp add: tx_at_def)
    moreover have "committed w st k ms e errs (rz_sids st')" using E(2) [OF Some] k by auto
    ultimately show ?thesis by (rule committed_sids [OF ann])
  qed
  then show ?thesis unfolding sids_announced_def by blast
next
  case (step_cpe cpe portalID w)
  obtain err where u: "UpsertCPEIntentForSite w portalID cpe st = (err, st')" using step_cpe by (metis prod.collapse)
  have wf: "mwf (rz_registry st)" "mwf (rz_generations st)" using inv by (simp_all add: reg_inv_def)
  note E = UpsertCPE_effect [OF wf u]
  have "pe_sids (loc k) (ni_Intent (cpeEntry w k cpe st)) s" for k s
    by (simp add: pe_sids_def cpeEntry_def Let_def)
  then show ?thesis using ann unfolding sids_announced_def E(1,6) by (auto split: if_splits)
next
  case (step_portal cpe now portalID)
  then show ?thesis using ann by (auto simp: sids_announced_def registerPortal_def pe_sids_def split: option.splits if_splits)
next
  case (step_sid commit l tid ty)
  have "sid_run (rz_sids st) (snd (getOrGenerateSID commit l tid ty (rz_sids st)))"
    by (rule sid_run_get) (rule prod.collapse [symmetric])
  then show ?thesis using ann pe_sids_run unfolding step_sid sids_announced_def by simp blast
next
  case (step_restore ensure publish)
  have "rz_registry st' = rz_registry st \<and> rz_sids st' = rz_sids st"
    using step_restore restoreLoop_spec [OF prod.collapse [symmetric]] by (auto simp: Restore_def)
  then show ?thesis using ann by (simp add: sids_announced_def)
next
  case step_lost
  then show ?thesis using ann by (simp add: sids_announced_def)
next
  case (step_restart now)
  have "pe_sids l i s" if "restoredIntent ty k = Some i" for l i s ty k
    using that by (auto simp: restoredIntent_def pe_sids_def split: node_type.splits)
  then show ?thesis using restored_registry(2) [OF inv] unfolding step_restart(1) sids_announced_def
    by (auto simp: restoredEntry_def)
qed

lemma step_reg:
  assumes inv: "reg_inv st" and "reg_step loc st st'"
  shows "reg_inv st' \<and> advances st st'"
  using assms(2)
proof cases
  case (step_sid commit l tid ty)
  then show ?thesis using inv by (simp add: reg_inv_def advances_def pub_ok_def newest_def)
next
  case step_lost
  then show ?thesis using inv by (simp add: reg_inv_def advances_def pub_ok_def newest_def)
next
  case (step_commit tx w)
  show ?thesis unfolding step_commit(1) by (rule step_commit_ok [OF inv step_commit(2,4,5)])
next
  case (step_cpe cpe portalID w)
  show ?thesis unfolding step_cpe(1) by (rule step_cpe_ok [OF inv step_cpe(2,4,5,3)])
next
  case (step_portal cpe now portalID)
  show ?thesis unfolding step_portal(1) by (rule step_portal_ok [OF inv step_portal(2)])
next
  case (step_restore ensure publish)
  show ?thesis unfolding step_restore by (rule step_restore_ok [OF inv])
next
  case (step_restart now)
  show ?thesis unfolding step_restart(1) by (rule step_restart_ok [OF inv step_restart(2)])
qed

interpretation registry_run: invariant_of reg_start "reg_step loc" "\<lambda>st. reg_inv st \<and> sids_announced loc st" for loc
proof unfold_locales
  show "reg_inv st \<and> sids_announced loc st" if "reg_start st" for st
    using that by (auto simp: reg_start_def reg_inv_def sids_announced_def pub_ok_def gm.wf_empty)
  show "reg_inv st' \<and> sids_announced loc st'" if "reg_inv st \<and> sids_announced loc st" "reg_step loc st st'" for st st'
    using that step_reg step_sids by blast
qed

end
