(* ===== verification/Controller_Correct.thy ===== *)
theory Controller_Correct
  imports Controller Cspf_Correct Registry_Correct "HOL-Library.Sublist"
begin

text \<open>
  The segment lists follow the computed paths, every ingress node gets the routes of its paths
  and nothing else, the last segment of a route is the identifier that the egress node serves,
  and the tunnel updates reach the nodes.
\<close>

section \<open>Segment lists\<close>

text \<open>
  The End.X identifier of an edge that is one link, and the segment of the transit node at a
  position of a path.
\<close>

definition linkEndX :: "pce_graph \<Rightarrow> pce_edge_id \<Rightarrow> addr" where
  "linkEndX g i =
     (case mget (pg_edges g) i of
        None \<Rightarrow> AddrZero
      | Some e \<Rightarrow>
          if pid_Kind (pe_ID e) = PCEEdgeBundle then AddrZero
          else case pe_RealEdges e of [l] \<Rightarrow> ed_EndX l | _ \<Rightarrow> AddrZero)"

definition segmentAt :: "pce_graph \<Rightarrow> path \<Rightarrow> nat \<Rightarrow> addr" where
  "segmentAt g p i =
     (if linkEndX g (p_Edges p ! i) \<noteq> AddrZero then linkEndX g (p_Edges p ! i)
      else prefix_addr (nd_Locator (the (mget (pg_nodes g) (p_Nodes p ! i)))))"

lemma endXOf_eq: "endXOf g i = (linkEndX g i, linkEndX g i \<noteq> AddrZero)"
  by (auto simp: linkEndX_def endXOf_def IsBundle_def addr_is_valid_def length_Suc_conv Let_def
      split: option.splits list.splits)

lemma transitLoop_eq:
  "transitLoop g p is =
     (if \<forall>i \<in> set is. mget (pg_nodes g) (p_Nodes p ! i) \<noteq> None then Inr (map (segmentAt g p) is)
      else Inl (ErrTransitNode (p_Nodes p ! hd (filter (\<lambda>i. mget (pg_nodes g) (p_Nodes p ! i) = None) is))))"
proof (induction "is")
  case (Cons i "is")
  show ?case
  proof (cases "mget (pg_nodes g) (p_Nodes p ! i)")
    case (Some n)
    then show ?thesis using Cons by (auto simp: endXOf_eq segmentAt_def Let_def)
  qed auto
qed simp

lemma transitSegments_eq:
  assumes "length (p_Nodes p) = Suc (length (p_Edges p))"
    and "\<forall>i \<in> {1..<length (p_Edges p)}. mget (pg_nodes g) (p_Nodes p ! i) \<noteq> None"
  shows "transitSegments g p = Inr (map (segmentAt g p) [1..<length (p_Edges p)])"
  using assms by (simp add: transitSegments_def transitLoop_eq)

lemma edge_walk_nodes:
  "edge_walk g u is v \<Longrightarrow> i < length is \<Longrightarrow> mget (pg_nodes g) (map (edge_to g) is ! i) \<noteq> None"
  by (induction g u "is" v arbitrary: i rule: edge_walk.induct)
    (auto simp: edge_to_def nth_Cons split: option.splits nat.splits)

section \<open>Routes of the ingress nodes\<close>

text \<open>The routes that one path gives to its ingress node.\<close>

definition routesOfKey :: "inventory \<Rightarrow> tenant_repo \<Rightarrow> path_set \<Rightarrow> NodeID \<Rightarrow> TenantID \<Rightarrow> path_key \<Rightarrow> remote_route list" where
  "routesOfKey iv repo paths n tid key =
     (if pk_From key = n \<and> pk_Tenant key = tid \<and> pk_To key \<noteq> n \<and> mget (iv_byID iv) n \<noteq> None then
        (case (mget (re_byID repo) tid, mget paths key) of
           (Some t, Some p) \<Rightarrow>
             map (\<lambda>s. \<lparr>rr_Remote = s, rr_Path = p\<rparr>) (filter (\<lambda>s. si_Attach s = pk_To key) (tn_Sites t))
         | _ \<Rightarrow> [])
      else [])"

definition routesOf :: "inventory \<Rightarrow> tenant_repo \<Rightarrow> path_set \<Rightarrow> NodeID \<Rightarrow> TenantID \<Rightarrow> remote_route list" where
  "routesOf iv repo paths n tid =
     concat (map (routesOfKey iv repo paths n tid) (sort_key pathKeyOrder (map fst paths)))"

lemma addRemoteSites_spec:
  "(mwf m \<longrightarrow> mwf (addRemoteSites key p sites m)) \<and>
   mget0 [] (addRemoteSites key p sites m) tid = mget0 [] m tid @
     (if tid = pk_Tenant key then map (\<lambda>s. \<lparr>rr_Remote = s, rr_Path = p\<rparr>) (filter (\<lambda>s. si_Attach s = pk_To key) sites)
      else []) \<and>
   ((\<forall>t. mget m t \<noteq> Some []) \<longrightarrow> (\<forall>t. mget (addRemoteSites key p sites m) t \<noteq> Some []))"
  unfolding addRemoteSites_def
  by (induction sites arbitrary: m) (auto simp: gm.wf_put)

text \<open>No list of routes is stored empty.\<close>

definition routes_ok :: "(NodeID, (TenantID, remote_route list) gomap) gomap \<Rightarrow> bool" where
  "routes_ok m \<longleftrightarrow> mwf m \<and> (\<forall>n b. mget m n = Some b \<longrightarrow> mwf b \<and> (\<forall>t. mget b t \<noteq> Some []))"

lemma addPathRoutes_spec:
  assumes ok: "routes_ok m"
  shows "routes_ok (addPathRoutes iv repo paths key m) \<and>
    mget0 [] (mget0 [] (addPathRoutes iv repo paths key m) n) tid =
      mget0 [] (mget0 [] m n) tid @ routesOfKey iv repo paths n tid key"
proof (cases "pk_From key = pk_To key \<or> mget paths key = None \<or> mget (iv_byID iv) (pk_From key) = None \<or>
    mget (re_byID repo) (pk_Tenant key) = None")
  case True
  then show ?thesis
    using ok by (auto simp: addPathRoutes_def routesOfKey_def split: option.splits)
next
  case False
  then obtain p t where p: "mget paths key = Some p" "mget (re_byID repo) (pk_Tenant key) = Some t"
    "mget (iv_byID iv) (pk_From key) \<noteq> None" "pk_From key \<noteq> pk_To key" by auto
  let ?b = "mget0 [] m (pk_From key)"
  have b: "mwf ?b \<and> (\<forall>t. mget ?b t \<noteq> Some [])"
    using ok by (auto simp: routes_ok_def mget0_def gm.wf_empty split: option.splits)
  have eq: "addPathRoutes iv repo paths key m = mput (pk_From key) (addRemoteSites key p (tn_Sites t) ?b) m"
    using p by (auto simp: addPathRoutes_def)
  have "routes_ok (addPathRoutes iv repo paths key m)"
    unfolding eq using ok b addRemoteSites_spec [of ?b key p "tn_Sites t"]
    by (auto simp: routes_ok_def gm.wf_put)
  moreover have "mget0 [] (mget0 [] (addPathRoutes iv repo paths key m) n) tid =
      mget0 [] (mget0 [] m n) tid @ routesOfKey iv repo paths n tid key"
    unfolding eq using p addRemoteSites_spec [of ?b key p "tn_Sites t" tid]
    by (auto simp: routesOfKey_def)
  ultimately show ?thesis by blast
qed

lemma remoteRoutes_spec:
  "routes_ok (remoteRoutes iv repo paths) \<and>
   mget0 [] (mget0 [] (remoteRoutes iv repo paths) n) tid = routesOf iv repo paths n tid"
proof -
  have "routes_ok (fold (addPathRoutes iv repo paths) keys m) \<and>
    mget0 [] (mget0 [] (fold (addPathRoutes iv repo paths) keys m) n) tid =
      mget0 [] (mget0 [] m n) tid @ concat (map (routesOfKey iv repo paths n tid) keys)" if "routes_ok m" for keys m
    using that
  proof (induction keys arbitrary: m)
    case (Cons key keys)
    show ?case
      using Cons.IH [of "addPathRoutes iv repo paths key m"] addPathRoutes_spec [OF Cons.prems] by simp
  qed simp
  from this [of "[]"] show ?thesis
    unfolding remoteRoutes_def routesOf_def by (simp add: routes_ok_def gm.wf_empty mget0_def)
qed

section \<open>Staged routes\<close>

definition dt46Key :: "graph \<Rightarrow> TenantID \<Rightarrow> remote_route \<Rightarrow> string" where
  "dt46Key g tid r = tenantMapKey (nd_Locator (the (mget (gr_nodes g) (si_Attach (rr_Remote r))))) (show_int tid) EncapTypeDT46"

text \<open>The intent of a route, with the identifier of the egress node from the table \<open>sids\<close>.\<close>

definition installOf :: "graph \<Rightarrow> sid_state \<Rightarrow> TenantID \<Rightarrow> remote_route \<Rightarrow> install_intent" where
  "installOf g sids tid r =
     \<lparr>io_TenantID = show_int tid, io_PrefixRoutes = [si_Prefix (rr_Remote r)],
      io_Segments = projr (transitSegments (NewPCEGraph g) (rr_Path r)) @
        [the (mget (sd_tenant sids) (dt46Key g tid r))],
      io_Color = p_Label (rr_Path r)\<rparr>"

definition buildable :: "graph \<Rightarrow> remote_route \<Rightarrow> bool" where
  "buildable g r \<longleftrightarrow> mget (gr_nodes g) (si_Attach (rr_Remote r)) \<noteq> None \<and>
     \<not> isl (transitSegments (NewPCEGraph g) (rr_Path r))"

text \<open>
  The intents \<open>is\<close> built for the routes \<open>rs\<close>: those of some of the routes, in order, and of all
  routes that can be built and whose identifier was known before.
\<close>

definition built :: "graph \<Rightarrow> TenantID \<Rightarrow> remote_route list \<Rightarrow> sid_state \<Rightarrow> sid_state \<Rightarrow> install_intent list \<Rightarrow> bool" where
  "built g tid rs before after is \<longleftrightarrow>
     (\<exists>rs'. subseq rs' rs \<and> is = map (installOf g after tid) rs' \<and>
        (\<forall>r \<in> set rs'. buildable g r \<and> mget (sd_tenant after) (dt46Key g tid r) \<noteq> None) \<and>
        (\<forall>r \<in> set rs. buildable g r \<and> mget (sd_tenant before) (dt46Key g tid r) \<noteq> None \<longrightarrow> r \<in> set rs'))"

lemma installOf_run:
  assumes "mget (sd_tenant s) (dt46Key g tid r) \<noteq> None" and "sid_run s s'"
  shows "installOf g s' tid r = installOf g s tid r" and "mget (sd_tenant s') (dt46Key g tid r) \<noteq> None"
  using assms sid_run_keeps by (auto simp: installOf_def)

lemma built_run:
  assumes b: "built g tid rs s0 s is" and "sid_run s s'" and "sid_run s00 s0"
  shows "built g tid rs s00 s' is"
proof -
  obtain rs' where rs': "subseq rs' rs" "is = map (installOf g s tid) rs'"
    "\<forall>r \<in> set rs'. buildable g r \<and> mget (sd_tenant s) (dt46Key g tid r) \<noteq> None"
    "\<forall>r \<in> set rs. buildable g r \<and> mget (sd_tenant s0) (dt46Key g tid r) \<noteq> None \<longrightarrow> r \<in> set rs'"
    using b unfolding built_def by blast
  have "is = map (installOf g s' tid) rs'" using rs'(2,3) installOf_run(1) [OF _ assms(2)] by auto
  moreover have "\<forall>r \<in> set rs'. buildable g r \<and> mget (sd_tenant s') (dt46Key g tid r) \<noteq> None"
    using rs'(3) installOf_run(2) [OF _ assms(2)] by blast
  moreover have "\<forall>r \<in> set rs. buildable g r \<and> mget (sd_tenant s00) (dt46Key g tid r) \<noteq> None \<longrightarrow> r \<in> set rs'"
    using rs'(4) sid_run_keeps [OF assms(3)] by fastforce
  ultimately show ?thesis using rs'(1) unfolding built_def by blast
qed

lemma built_skip:
  assumes "built g tid rs s0 s is" and "\<not> (buildable g r \<and> mget (sd_tenant s0) (dt46Key g tid r) \<noteq> None)"
  shows "built g tid (r # rs) s0 s is"
proof -
  obtain rs' where "subseq rs' rs" "is = map (installOf g s tid) rs'"
    "\<forall>r \<in> set rs'. buildable g r \<and> mget (sd_tenant s) (dt46Key g tid r) \<noteq> None"
    "\<forall>r \<in> set rs. buildable g r \<and> mget (sd_tenant s0) (dt46Key g tid r) \<noteq> None \<longrightarrow> r \<in> set rs'"
    using assms(1) unfolding built_def by blast
  then show ?thesis
    using assms(2) unfolding built_def by (intro exI [of _ rs']) (simp only: list_emb_Cons list.set, blast)
qed

lemma built_Cons:
  assumes "built g tid rs s0 s is" and "buildable g r" and "mget (sd_tenant s) (dt46Key g tid r) \<noteq> None"
  shows "built g tid (r # rs) s0 s (installOf g s tid r # is)"
proof -
  obtain rs' where "subseq rs' rs" "is = map (installOf g s tid) rs'"
    "\<forall>r \<in> set rs'. buildable g r \<and> mget (sd_tenant s) (dt46Key g tid r) \<noteq> None"
    "\<forall>r \<in> set rs. buildable g r \<and> mget (sd_tenant s0) (dt46Key g tid r) \<noteq> None \<longrightarrow> r \<in> set rs'"
    using assms(1) unfolding built_def by blast
  then show ?thesis using assms(2,3) unfolding built_def by (intro exI [of _ "r # rs'"]) auto
qed

lemma installIntents_built:
  assumes "installIntents sidTx g (NewPCEGraph g) tid rs s = (is, s')"
  shows "sid_run s s' \<and> built g tid rs s s' is"
  using assms
proof (induction rs arbitrary: s "is")
  case Nil
  then show ?case by (simp add: built_def)
next
  case (Cons r rs)
  have skip: "sid_run s s' \<and> built g tid (r # rs) s s' is"
    if "sid_run s s1" "installIntents sidTx g (NewPCEGraph g) tid rs s1 = (is, s')"
      "\<not> (buildable g r \<and> mget (sd_tenant s) (dt46Key g tid r) \<noteq> None)" for s1
    using Cons.IH [OF that(2)] rtranclp_trans [OF that(1)]
      built_skip [OF built_run [OF _ rtranclp.rtrancl_refl that(1)] that(3)] by blast
  show ?case
  proof (cases "mget (gr_nodes g) (si_Attach (rr_Remote r))")
    case None
    then show ?thesis using Cons.prems by (intro skip) (simp_all add: buildable_def)
  next
    case (Some n)
    let ?key = "tenantMapKey (nd_Locator n) (show_int tid) EncapTypeDT46"
    have key: "dt46Key g tid r = ?key" by (simp add: dt46Key_def Some)
    obtain res s1 where g: "getOrGenerateSID (sidTx ?key) (nd_Locator n) (show_int tid) EncapTypeDT46 s = (res, s1)"
      by force
    note run = sid_run_get [OF g]
    show ?thesis
    proof (cases "(res, transitSegments (NewPCEGraph g) (rr_Path r))" rule: prod.exhaust)
      case (Pair _ segs)
      consider e where "res = Inl e" | a e where "res = Inr a" "segs = Inl e" | a l where "res = Inr a" "segs = Inr l"
        by (metis sum.exhaust)
      then show ?thesis
      proof cases
        case 1
        then have "mget (sd_tenant s) ?key = None"
          using g by (auto simp: getOrGenerateSID_def split: option.splits)
        then show ?thesis using Cons.prems Some g 1 by (intro skip [OF run]) (simp_all add: key)
      next
        case 2
        then show ?thesis using Cons.prems Some g Pair by (intro skip [OF run]) (simp_all add: buildable_def)
      next
        case 3
        obtain is2 where is2: "installIntents sidTx g (NewPCEGraph g) tid rs s1 = (is2, s')"
          and i: "is = \<lparr>io_TenantID = show_int tid, io_PrefixRoutes = [si_Prefix (rr_Remote r)],
                          io_Segments = l @ [a], io_Color = p_Label (rr_Path r)\<rparr> # is2"
          using Cons.prems Some g 3 Pair by (auto split: prod.splits)
        note IH = Cons.IH [OF is2]
        have a: "mget (sd_tenant s') ?key = Some a"
          using sid_run_keeps [OF _ getOrGenerateSID_known [OF g [unfolded 3]]] IH by blast
        have "installOf g s' tid r # is2 = is" using a 3 Pair by (simp add: i installOf_def key)
        moreover have "buildable g r" using 3 Pair Some by (simp add: buildable_def)
        ultimately show ?thesis
          using IH rtranclp_trans [OF run] built_Cons [OF built_run [OF _ rtranclp.rtrancl_refl run], of g tid rs s' is2 r] a
          by (auto simp: key)
      qed
    qed
  qed
qed

text \<open>The change that is staged for one tenant of a node.\<close>

definition staged :: "graph \<Rightarrow> prefix \<Rightarrow> sid_state \<Rightarrow> sid_state \<Rightarrow> TenantID \<times> remote_route list \<Rightarrow> pending_mutation \<Rightarrow> bool" where
  "staged g l before after x m \<longleftrightarrow>
     (\<exists>is. pm_Mutate m = SetSegs (show_int (fst x)) l is \<and> built g (fst x) (snd x) before after is)"

lemma staged_run:
  "sid_run s00 s0 \<Longrightarrow> sid_run s s' \<Longrightarrow> list_all2 (staged g l s0 s) bt ms \<Longrightarrow> list_all2 (staged g l s00 s') bt ms"
  by (erule list_all2_mono) (auto simp: staged_def intro: built_run)

lemma stage_tenants:
  assumes "fold (stageTenantRoutes sidTx g (NewPCEGraph g) n nd) bt (tx, s) = (tx', s')"
  shows "sid_run s s' \<and> (tx_ok tx \<longrightarrow> tx_ok tx') \<and> (\<forall>k. k \<noteq> n \<longrightarrow> mget tx' k = mget tx k) \<and>
    (\<exists>ms. mget0 [] tx' n = mget0 [] tx n @ ms \<and> list_all2 (staged g (nd_Locator nd) s s') bt ms)"
  using assms
proof (induction bt arbitrary: tx s)
  case (Cons x bt)
  obtain tid rs where x: "x = (tid, rs)" by force
  obtain "is" s1 where i: "installIntents sidTx g (NewPCEGraph g) tid rs s = (is, s1)" by force
  let ?tx1 = "StageSIDSegsForTenantOnNode tx (show_int tid) n (nd_Locator nd) is"
  have "stageTenantRoutes sidTx g (NewPCEGraph g) n nd x (tx, s) = (?tx1, s1)"
    by (simp add: x stageTenantRoutes_def i)
  then have "fold (stageTenantRoutes sidTx g (NewPCEGraph g) n nd) bt (?tx1, s1) = (tx', s')"
    using Cons.prems by simp
  note IH = Cons.IH [OF this] and I = installIntents_built [OF i]
  let ?m = "\<lparr>pm_NodeType = NodeTypePE, pm_EntryKey = n, pm_Mutate = SetSegs (show_int tid) (nd_Locator nd) is\<rparr>"
  have tx1: "mget0 [] ?tx1 n = mget0 [] tx n @ [?m]" "\<forall>k. k \<noteq> n \<longrightarrow> mget ?tx1 k = mget tx k" "tx_ok tx \<longrightarrow> tx_ok ?tx1"
    by (auto simp: StageSIDSegsForTenantOnNode_def MutatePE_def intro: tx_ok_MutatePE [unfolded MutatePE_def])
  obtain ms where ms: "mget0 [] tx' n = mget0 [] ?tx1 n @ ms" "list_all2 (staged g (nd_Locator nd) s1 s') bt ms"
    using IH by blast
  have "staged g (nd_Locator nd) s s' x ?m"
    using built_run [OF conjunct2 [OF I] _ rtranclp.rtrancl_refl] IH by (auto simp: staged_def x)
  then have "list_all2 (staged g (nd_Locator nd) s s') (x # bt) (?m # ms)"
    using staged_run [OF _ rtranclp.rtrancl_refl ms(2)] I by simp
  moreover have "mget0 [] tx' n = mget0 [] tx n @ ?m # ms" using ms(1) tx1(1) by simp
  moreover have "\<forall>k. k \<noteq> n \<longrightarrow> mget tx' k = mget tx k" "tx_ok tx \<longrightarrow> tx_ok tx'" using IH tx1(2,3) by simp_all
  moreover have "sid_run s s'" using IH I by (blast intro: rtranclp_trans)
  ultimately show ?case by blast
qed simp

lemma stage_nodes:
  assumes "fold (stageNodeRoutes sidTx g (NewPCEGraph g)) l (tx, s) = (tx', s')" and "mwf l"
  shows "sid_run s s' \<and> (tx_ok tx \<longrightarrow> tx_ok tx') \<and> (\<forall>k. k \<notin> fst ` set l \<longrightarrow> mget tx' k = mget tx k) \<and>
    (\<forall>n bt nd. (n, bt) \<in> set l \<longrightarrow> mget (gr_nodes g) n = Some nd \<longrightarrow>
       (\<exists>ms. mget0 [] tx' n = mget0 [] tx n @ ms \<and> list_all2 (staged g (nd_Locator nd) s s') bt ms))"
  using assms
proof (induction l arbitrary: tx s)
  case (Cons x l)
  obtain n bt where x: "x = (n, bt)" by force
  have l: "mwf l" "n \<notin> fst ` set l" using Cons.prems(2) by (simp_all add: x mwf_Cons)
  obtain tx1 s1 where 1: "stageNodeRoutes sidTx g (NewPCEGraph g) x (tx, s) = (tx1, s1)" by force
  have "fold (stageNodeRoutes sidTx g (NewPCEGraph g)) l (tx1, s1) = (tx', s')" using Cons.prems(1) 1 by simp
  note IH = Cons.IH [OF this l(1)]
  have step: "sid_run s s1 \<and> (tx_ok tx \<longrightarrow> tx_ok tx1) \<and> (\<forall>k. k \<noteq> n \<longrightarrow> mget tx1 k = mget tx k) \<and>
    (\<forall>nd. mget (gr_nodes g) n = Some nd \<longrightarrow>
      (\<exists>ms. mget0 [] tx1 n = mget0 [] tx n @ ms \<and> list_all2 (staged g (nd_Locator nd) s s1) bt ms))"
  proof (cases "mget (gr_nodes g) n")
    case None
    then show ?thesis using 1 by (simp add: stageNodeRoutes_def x)
  next
    case (Some nd)
    then show ?thesis using 1 stage_tenants [of sidTx g n nd bt tx s tx1 s1] by (simp add: stageNodeRoutes_def x)
  qed
  have runs: "sid_run s s1" "sid_run s1 s'" using step IH by blast+
  have "\<exists>ms. mget0 [] tx' k = mget0 [] tx k @ ms \<and> list_all2 (staged g (nd_Locator nd) s s') b ms"
    if k: "(k, b) \<in> set (x # l)" "mget (gr_nodes g) k = Some nd" for k b nd
  proof (cases "k = n")
    case True
    then have b: "b = bt" using k(1) l(2) x by (auto simp: image_iff)
    have "mget0 [] tx' n = mget0 [] tx1 n" using IH l(2) by (simp add: mget0_def)
    then show ?thesis using step k(2) staged_run [OF rtranclp.rtrancl_refl runs(2)] unfolding True b by metis
  next
    case False
    then have "(k, b) \<in> set l" "mget0 [] tx1 k = mget0 [] tx k" using k(1) step by (simp_all add: x mget0_def)
    then show ?thesis using IH k(2) staged_run [OF runs(1) rtranclp.rtrancl_refl] by metis
  qed
  moreover have "\<forall>k. k \<notin> fst ` set (x # l) \<longrightarrow> mget tx' k = mget tx k" using IH step by (simp add: x)
  ultimately show ?case using step IH rtranclp_trans [OF runs] by blast
qed simp

text \<open>Changes of the paths of distinct tenants that all succeed.\<close>

fun segsTenant :: "mutation \<Rightarrow> string" where
  "segsTenant (SetSegs tid l is) = tid"
| "segsTenant _ = []"

lemma withTenant_ok:
  assumes "withTenant sidTx k tid l f pe s = (None, pe', s')"
  shows "\<exists>t. mget (pt_Tenants pe') tid = Some (f t) \<and> (\<forall>tid'. tid' \<noteq> tid \<longrightarrow> mget (pt_Tenants pe') tid' = mget (pt_Tenants pe) tid')"
  using assms
  by (auto simp: withTenant_def getOrCreateTenantIntentForPE_def Let_def split: option.splits prod.splits sum.splits)

lemma applyMutations_segs:
  assumes "applyMutations sidTx k ms (PEIntent pe) s = ([], i, s')"
    and "\<forall>m \<in> set ms. \<exists>tid l is. pm_Mutate m = SetSegs tid l is"
    and "distinct (map (segsTenant \<circ> pm_Mutate) ms)"
  shows "\<exists>pe'. i = PEIntent pe' \<and>
    (\<forall>m \<in> set ms. \<forall>tid l is. pm_Mutate m = SetSegs tid l is \<longrightarrow>
       (\<exists>t. mget (pt_Tenants pe') tid = Some t \<and> ti_InstallPaths t = is)) \<and>
    (\<forall>tid. tid \<notin> (segsTenant \<circ> pm_Mutate) ` set ms \<longrightarrow> mget (pt_Tenants pe') tid = mget (pt_Tenants pe) tid)"
  using assms
proof (induction ms arbitrary: pe s)
  case (Cons m ms)
  obtain tid l "is" where m: "pm_Mutate m = SetSegs tid l is" using Cons.prems(2) by auto
  obtain err pe1 s1 where w: "withTenant sidTx k tid l (\<lambda>t. t\<lparr>ti_InstallPaths := is\<rparr>) pe s = (err, pe1, s1)"
    by (metis prod_cases3)
  have err: "err = None" and rest: "applyMutations sidTx k ms (PEIntent pe1) s1 = ([], i, s')"
    using Cons.prems(1) w by (auto simp: m applyMutation_def split: prod.splits option.splits)
  obtain t where t: "mget (pt_Tenants pe1) tid = Some (t\<lparr>ti_InstallPaths := is\<rparr>)"
    and others: "\<And>tid'. tid' \<noteq> tid \<Longrightarrow> mget (pt_Tenants pe1) tid' = mget (pt_Tenants pe) tid'"
    using withTenant_ok [OF w [unfolded err]] by blast
  have new: "tid \<notin> (segsTenant \<circ> pm_Mutate) ` set ms" using Cons.prems(3) m by auto
  have "\<forall>m \<in> set ms. \<exists>tid l is. pm_Mutate m = SetSegs tid l is" "distinct (map (segsTenant \<circ> pm_Mutate) ms)"
    using Cons.prems(2,3) by (simp_all add: comp_def)
  from Cons.IH [OF rest this] obtain pe' where pe': "i = PEIntent pe'"
    "\<And>m tid l is. m \<in> set ms \<Longrightarrow> pm_Mutate m = SetSegs tid l is \<Longrightarrow>
       \<exists>t. mget (pt_Tenants pe') tid = Some t \<and> ti_InstallPaths t = is"
    "\<And>tid. tid \<notin> (segsTenant \<circ> pm_Mutate) ` set ms \<Longrightarrow> mget (pt_Tenants pe') tid = mget (pt_Tenants pe1) tid"
    by blast
  have "mget (pt_Tenants pe') tid = Some (t\<lparr>ti_InstallPaths := is\<rparr>)" using pe'(3) [OF new] t by simp
  then have "\<exists>t. mget (pt_Tenants pe') tid' = Some t \<and> ti_InstallPaths t = is'"
    if "m' \<in> set (m # ms)" "pm_Mutate m' = SetSegs tid' l' is'" for m' tid' l' is'
    using that m pe'(2) by (cases "m' = m") auto
  moreover have "mget (pt_Tenants pe') tid' = mget (pt_Tenants pe) tid'"
    if "tid' \<notin> (segsTenant \<circ> pm_Mutate) ` set (m # ms)" for tid'
    using that m pe'(3) others by simp
  ultimately show ?case using pe'(1) by blast
qed auto

lemma staged_apply:
  assumes st: "list_all2 (staged g l s0 s) bt ms" and wf: "mwf bt" and bt: "mget bt tid = Some rs"
    and app: "applyMutations sidTx n ms (PEIntent pe) s1 = ([], i, s2)"
  shows "\<exists>pe' t is. i = PEIntent pe' \<and> mget (pt_Tenants pe') (show_int tid) = Some t \<and> ti_InstallPaths t = is \<and>
    built g tid rs s0 s is"
proof -
  have "map (segsTenant \<circ> pm_Mutate) ms = map (show_int \<circ> fst) bt"
    using st by (induction rule: list_all2_induct) (auto simp: staged_def)
  moreover have "distinct (map (show_int \<circ> fst) bt)"
    using wf by (auto simp: mwf_def distinct_map inj_on_def)
  ultimately have dist: "distinct (map (segsTenant \<circ> pm_Mutate) ms)" by simp
  have segs: "\<forall>m \<in> set ms. \<exists>tid l is. pm_Mutate m = SetSegs tid l is"
    using st by (induction rule: list_all2_induct) (auto simp: staged_def)
  obtain m where m: "m \<in> set ms" "staged g l s0 s (tid, rs) m"
    using mget_in_set [OF bt] st by (metis in_set_conv_nth list_all2_conv_all_nth)
  then obtain "is" where bis: "pm_Mutate m = SetSegs (show_int tid) l is" "built g tid rs s0 s is"
    by (auto simp: staged_def)
  then show ?thesis using applyMutations_segs [OF app segs dist] m(1) by blast
qed

lemma reg_inv_sids [simp]: "reg_inv (st\<lparr>rz_sids := s\<rparr>) = reg_inv st"
  by (simp add: reg_inv_def pub_ok_def newest_def)

lemma baseEntry_sids [simp]: "baseEntry now k (st\<lparr>rz_sids := s\<rparr>) = baseEntry now k st"
  by (simp add: baseEntry_def)

section \<open>Peers and traffic classes\<close>

definition node_ids :: "(NodeID, node) gomap \<Rightarrow> bool" where
  "node_ids nodes \<longleftrightarrow> (\<forall>k n. mget nodes k = Some n \<longrightarrow> nd_ID n = k)"

lemma node_ids_put: "node_ids m \<Longrightarrow> nd_ID n = k \<Longrightarrow> node_ids (mput k n m)"
  by (simp add: node_ids_def)

lemma graphNodes_ids: "graphNodes parsePrefix ps nodes = Inr nodes' \<Longrightarrow> node_ids nodes \<Longrightarrow> node_ids nodes'"
  by (induction parsePrefix ps nodes rule: graphNodes.induct) (auto split: option.splits simp: node_ids_put)

lemma addLink_nodes: "gr_nodes (fold addLink ls g) = gr_nodes g"
  by (induction ls arbitrary: g) (auto simp: addLink_def Let_def)

lemma generated_node_ids:
  assumes "generateGraphFromRawTopology parsePrefix raw = Inr g"
  shows "node_ids (gr_nodes g)"
proof -
  have "graphNodes parsePrefix (rt_pops raw) [] = Inr (gr_nodes g)"
    using assms by (auto simp: generateGraphFromRawTopology_def bind_result_eq_Inr addLink_nodes)
  from graphNodes_ids [OF this] show ?thesis by (simp add: node_ids_def)
qed

lemma directedEdges_key:
  "e \<in> set (directedEdges ls) \<Longrightarrow> ed_ID e = telemetryKey (ed_Local e) (ed_LocalIface e) (ed_Remote e) (ed_RemoteIface e)"
  by (induction ls) (auto simp: edgeOf_def edgeIdOf_def telemetryKey_def split: if_splits)

text \<open>Staging one change for every element of a list of nodes.\<close>

lemma stage_each:
  assumes "distinct (map key xs)"
  shows "(tx_ok tx \<longrightarrow> tx_ok (fold (\<lambda>x. MutatePE (key x) (mu x)) xs tx)) \<and>
    (\<forall>x \<in> set xs. mget0 [] (fold (\<lambda>x. MutatePE (key x) (mu x)) xs tx) (key x) =
       mget0 [] tx (key x) @ [\<lparr>pm_NodeType = NodeTypePE, pm_EntryKey = key x, pm_Mutate = mu x\<rparr>]) \<and>
    (\<forall>k. k \<notin> key ` set xs \<longrightarrow> mget (fold (\<lambda>x. MutatePE (key x) (mu x)) xs tx) k = mget tx k)"
  using assms
proof (induction xs arbitrary: tx)
  case (Cons x xs)
  have d: "distinct (map key xs)" "key x \<notin> key ` set xs" using Cons.prems by auto
  let ?tx = "MutatePE (key x) (mu x) tx"
  have x: "mget0 [] ?tx k = mget0 [] tx k @ (if k = key x then
      [\<lparr>pm_NodeType = NodeTypePE, pm_EntryKey = key x, pm_Mutate = mu x\<rparr>] else [])"
    "k \<noteq> key x \<Longrightarrow> mget ?tx k = mget tx k" for k
    by (simp_all add: MutatePE_def)
  have "mget0 [] (fold (\<lambda>x. MutatePE (key x) (mu x)) xs ?tx) (key x) = mget0 [] ?tx (key x)"
    using Cons.IH [OF d(1), of ?tx] d(2) by (simp add: mget0_def)
  moreover have "key y \<noteq> key x" if "y \<in> set xs" for y using that d(2) by (metis image_eqI)
  ultimately show ?case
    using Cons.IH [OF d(1), of ?tx] x tx_ok_MutatePE by auto
qed simp

lemma fold_addPeer:
  defines "intent \<equiv> \<lambda>g n e rn px. \<lparr>pr_PeerID = ed_Remote e, pr_PeerLoopback = nd_Loopback rn,
      pr_LocalLoopback = nd_Loopback n, pr_PeerAddress = prefix_addr px,
      pr_PeerInterface = ed_RemoteIface e, pr_LocalInterface = ed_LocalIface e,
      pr_TelemetryKey = telemetryKey (nd_ID n) (ed_LocalIface e) (nd_ID rn) (ed_RemoteIface e)\<rparr>"
  shows "mget (fold (addPeer parsePrefix g n) es m) iface = Some peer \<Longrightarrow>
     mget m iface = Some peer \<or> (\<exists>e \<in> set es. \<exists>rn px. ed_Local e = nd_ID n \<and> ed_LocalIface e = iface \<and>
       mget (gr_nodes g) (ed_Remote e) = Some rn \<and> parsePrefix (ed_RemoteAddr e) = Some px \<and> peer = intent g n e rn px)"
    and "mget m iface \<noteq> None \<or> (\<exists>e \<in> set es. ed_Local e = nd_ID n \<and> ed_LocalIface e = iface \<and>
       mget (gr_nodes g) (ed_Remote e) \<noteq> None \<and> parsePrefix (ed_RemoteAddr e) \<noteq> None) \<Longrightarrow>
     mget (fold (addPeer parsePrefix g n) es m) iface \<noteq> None"
proof (induction es arbitrary: m)
  case (Cons e es)
  {
    case 1
    have "mget (fold (addPeer parsePrefix g n) es (addPeer parsePrefix g n e m)) iface = Some peer" using 1 by simp
    from Cons.IH(1) [OF this] show ?case
      by (auto simp: addPeer_def intent_def split: if_splits option.splits)
  next
    case 2
    then have "mget (addPeer parsePrefix g n e m) iface \<noteq> None \<or> (\<exists>e \<in> set es. ed_Local e = nd_ID n \<and> ed_LocalIface e = iface \<and>
       mget (gr_nodes g) (ed_Remote e) \<noteq> None \<and> parsePrefix (ed_RemoteAddr e) \<noteq> None)"
      by (auto simp: addPeer_def split: if_splits option.splits)
    from Cons.IH(2) [OF this] show ?case by simp
  }
qed auto

lemma startTx:
  fixes parsePrefix :: "string \<Rightarrow> prefix option" and repo :: tenant_repo
  assumes node_ids: "node_ids (gr_nodes g)" and wf: "mwf (gr_nodes g)"
    and n: "mget (gr_nodes g) k = Some n"
  defines "tx \<equiv> stageTrafficClassMapping repo g (stagePeerIntents parsePrefix g BeginTx)"
  shows "tx_ok tx"
    and "mget tx k = Some [\<lparr>pm_NodeType = NodeTypePE, pm_EntryKey = k,
        pm_Mutate = SetPeers (fold (addPeer parsePrefix g n) (map snd (gr_edges g)) [])\<rparr>,
      \<lparr>pm_NodeType = NodeTypePE, pm_EntryKey = k,
        pm_Mutate = SetClasses (map (\<lambda>c. \<lparr>cl_Color = tc_Label c, cl_DSCP = tc_DSCP c\<rparr>) (repo_Classes repo))\<rparr>]"
proof -
  let ?ns = "map snd (gr_nodes g)" and ?ks = "map fst (gr_nodes g)"
  have ids: "nd_ID n = k" if "mget (gr_nodes g) k = Some n" for k n
    using that node_ids unfolding node_ids_def by blast
  let ?peers = "\<lambda>n. SetPeers (fold (addPeer parsePrefix g n) (map snd (gr_edges g)) [])"
  let ?classes = "\<lambda>k :: NodeID. SetClasses (map (\<lambda>c. \<lparr>cl_Color = tc_Label c, cl_DSCP = tc_DSCP c\<rparr>) (repo_Classes repo))"
  have eq: "map nd_ID ?ns = ?ks"
    using ids in_set_mget [OF wf] by auto
  have d: "distinct (map nd_ID ?ns)" "distinct (map (\<lambda>k. k) ?ks)"
    unfolding eq list.map_ident using wf by (simp_all only: mwf_def)
  have tx: "tx = fold (\<lambda>k. MutatePE k (?classes k)) ?ks (fold (\<lambda>n. MutatePE (nd_ID n) (?peers n)) ?ns BeginTx)"
    by (simp add: tx_def stageTrafficClassMapping_def stagePeerIntents_def StagePeersForPE_def
        StageTrafficClassMappingForPE_def Let_def)
  note S1 = stage_each [OF d(1), of BeginTx ?peers]
    and S2 = stage_each [OF d(2), of "fold (\<lambda>n. MutatePE (nd_ID n) (?peers n)) ?ns BeginTx" ?classes]
  show "tx_ok tx" using S1 S2 by (simp add: tx)
  have kn: "n \<in> set ?ns" "nd_ID n = k" "k \<in> set ?ks"
    using mget_in_set [OF n] ids [OF n] mget_in_fst [OF n] by (auto simp: image_iff intro: bexI [rotated])
  from S1 kn(1) have "mget0 [] (fold (\<lambda>n. MutatePE (nd_ID n) (?peers n)) ?ns BeginTx) (nd_ID n) =
      mget0 [] BeginTx (nd_ID n) @ [\<lparr>pm_NodeType = NodeTypePE, pm_EntryKey = nd_ID n, pm_Mutate = ?peers n\<rparr>]" by blast
  moreover from S2 kn(3) have "mget0 [] tx k = mget0 [] (fold (\<lambda>n. MutatePE (nd_ID n) (?peers n)) ?ns BeginTx) k @
      [\<lparr>pm_NodeType = NodeTypePE, pm_EntryKey = k, pm_Mutate = ?classes k\<rparr>]" unfolding tx by blast
  ultimately have "mget0 [] tx k = [\<lparr>pm_NodeType = NodeTypePE, pm_EntryKey = k, pm_Mutate = ?peers n\<rparr>,
      \<lparr>pm_NodeType = NodeTypePE, pm_EntryKey = k, pm_Mutate = ?classes k\<rparr>]"
    using kn(2) by (simp add: BeginTx_def mget0_def)
  then show "mget tx k = Some [\<lparr>pm_NodeType = NodeTypePE, pm_EntryKey = k, pm_Mutate = ?peers n\<rparr>,
      \<lparr>pm_NodeType = NodeTypePE, pm_EntryKey = k, pm_Mutate = ?classes k\<rparr>]"
    by (auto simp: mget0_def split: option.splits)
qed

end
