(* ===== verification/Registry_Run.thy ===== *)
theory Registry_Run
  imports Registry_Correct
begin

text \<open>
  The promises of the service registry to the nodes, over all sequences of commits, tunnel
  updates, reconnects and restarts, with examples; and two ways in which a commit can leave the
  bucket behind the registry.
\<close>

section \<open>An example\<close>

definition demo_world :: world where
  "demo_world = \<lparr>wo_now = 5, wo_sidTx = (\<lambda>_. True), wo_upsert = (\<lambda>_. True), wo_publish = (\<lambda>_. True)\<rparr>"

definition demo_registry :: registry_state where
  "demo_registry = \<lparr>rz_registry = [], rz_sids = newSIDs 0, rz_generations = [], rz_published = []\<rparr>"

definition demo_tx :: registry_tx where
  "demo_tx = StageTrafficClassMappingForPE (StagePeersForPE BeginTx ''a'' []) ''a'' []"


lemma demo_registry_reachable: "reachable reg_start (reg_step loc) demo_registry"
  by (rule reachable_start) (auto simp: reg_start_def demo_registry_def)

lemma demo_tx_ok: "tx_ok demo_tx"
  unfolding demo_tx_def StageTrafficClassMappingForPE_def StagePeersForPE_def
  by (intro tx_ok_MutatePE tx_ok_BeginTx)


definition demo_registry1 :: registry_state where
  "demo_registry1 = snd (Commit demo_world demo_tx demo_registry)"



section \<open>Properties\<close>

text \<open>C12. A commit in which every write succeeds gives each staged node exactly one new generation,
  however many changes were staged for it: its entry holds all staged changes applied in order
  to the old intent, with the same version and the next generation; exactly this entry is
  published under the key of the node and its generation is stored. Nodes outside the
  transaction keep their entry, their published intent and their stored generation.\<close>

theorem Commit_one_generation:
  assumes "reachable reg_start (reg_step loc) st" and "tx_ok tx"
    and "\<forall>t. wo_upsert w t \<and> wo_publish w t" and c: "Commit w tx st = (errs, st')"
  shows "(\<forall>k. mget tx k = None \<longrightarrow> mget (rz_registry st') k = mget (rz_registry st) k \<and>
      (\<forall>ty t. publishTarget ty k = Some t \<longrightarrow> mget (rz_published st') t = mget (rz_published st) t \<and>
         mget (rz_generations st') (ty, k) = mget (rz_generations st) (ty, k))) \<and>
    (\<forall>k ms. mget tx k = Some ms \<longrightarrow>
      (\<exists>e t i s s' errs1. mget (rz_registry st') k = Some e \<and> publishTarget (ni_NodeType e) k = Some t \<and>
         e = (baseEntry (wo_now w) k st)\<lparr>ni_Intent := i, ni_Timestamp := wo_now w,
                ni_Generation := ni_Generation (baseEntry (wo_now w) k st) + 1\<rparr> \<and>
         applyMutations (wo_sidTx w) k ms (ni_Intent (baseEntry (wo_now w) k st)) s = (errs1, i, s') \<and>
         mget (rz_published st') t = Some e \<and> mget (rz_generations st') (ni_NodeType e, k) = Some (stamp e)))"
proof (intro conjI allI impI)
  have inv: "reg_inv st" using registry_run.inv_reachable [OF assms(1)] by blast
  note E = Commit_effect [OF inv assms(2) c]
  fix k
  show "mget (rz_registry st') k = mget (rz_registry st) k" if "mget tx k = None" using E(1) that by blast
  show "mget (rz_published st') t = mget (rz_published st) t"
    "mget (rz_generations st') (ty, k) = mget (rz_generations st) (ty, k)"
    if "mget tx k = None" "publishTarget ty k = Some t" for ty t
    using E(3,4) [OF that(2)] that(1) by (simp_all add: touches_def)
  fix ms assume k: "mget tx k = Some ms"
  obtain e where e: "mget (rz_registry st') k = Some e" and "committed w st k ms e errs (rz_sids st')"
    using E(2) [OF k] by blast
  then obtain i s s' errs2 where i: "e = commitOf w k i (baseEntry (wo_now w) k st)"
    "applyMutations (wo_sidTx w) k ms (ni_Intent (baseEntry (wo_now w) k st)) s = (errs2, i, s')"
    and "typed k e"
    using committed_typed [OF inv] unfolding committed_def by blast
  moreover obtain t where t: "publishTarget (ni_NodeType e) k = Some t"
    using known_target [OF typed_known [OF \<open>typed k e\<close>]] by blast
  moreover have "touches tx st' (ni_NodeType e) k" using k e by (simp add: touches_def)
  ultimately show "\<exists>e t i s s' errs1. mget (rz_registry st') k = Some e \<and> publishTarget (ni_NodeType e) k = Some t \<and>
         e = (baseEntry (wo_now w) k st)\<lparr>ni_Intent := i, ni_Timestamp := wo_now w,
                ni_Generation := ni_Generation (baseEntry (wo_now w) k st) + 1\<rparr> \<and>
         applyMutations (wo_sidTx w) k ms (ni_Intent (baseEntry (wo_now w) k st)) s = (errs1, i, s') \<and>
         mget (rz_published st') t = Some e \<and> mget (rz_generations st') (ni_NodeType e, k) = Some (stamp e)"
    using E(3,4) [OF t] e assms(3) unfolding commitOf_def by auto
qed

theorem Commit_one_generation_witness:
  "\<exists>e. mget (rz_registry demo_registry1) ''a'' = Some e \<and> ni_Generation e = 2 \<and>
     mget (rz_generations demo_registry1) (ni_NodeType e, ''a'') = Some (1, 2)"
proof -
  obtain errs where c: "Commit demo_world demo_tx demo_registry = (errs, demo_registry1)"
    by (metis demo_registry1_def prod.collapse)
  have "mget demo_tx ''a'' \<noteq> None" by code_simp
  moreover have "\<forall>t. wo_upsert demo_world t \<and> wo_publish demo_world t" by (simp add: demo_world_def)
  moreover have "baseEntry 5 ''a'' demo_registry = newPE 5 ''a''" by (simp add: baseEntry_def demo_registry_def)
  ultimately obtain e i where "mget (rz_registry demo_registry1) ''a'' = Some e"
    "mget (rz_generations demo_registry1) (ni_NodeType e, ''a'') = Some (stamp e)"
    "e = (newPE 5 ''a'')\<lparr>ni_Intent := i, ni_Timestamp := 5, ni_Generation := ni_Generation (newPE 5 ''a'') + 1\<rparr>"
    using Commit_one_generation [OF demo_registry_reachable demo_tx_ok _ c] by (fastforce simp: demo_world_def)
  then show ?thesis by (simp add: stamp_def newPE_def)
qed



text \<open>C13. The End.DT46 identifier that a node is told to install for a tenant is the one that the
  allocation returns for the node's locator and the tenant, so the last segment of the paths
  towards the node, which the dispatcher takes from the allocation, is one that the node
  serves. This holds in every reachable state, also after failed allocations and restarts.\<close>

theorem announced_SID_is_allocated:
  assumes "reachable reg_start (reg_step loc) st" and "mget (rz_registry st) k = Some e"
    and "ni_Intent e = PEIntent pe" and "mget (pt_Tenants pe) tid = Some t"
  shows "fst (getOrGenerateSID commit (loc k) tid EncapTypeDT46 (rz_sids st)) = Inr (ti_DT46SID t)"
proof -
  have "mget (sd_tenant (rz_sids st)) (tenantMapKey (loc k) tid EncapTypeDT46) = Some (ti_DT46SID t)"
    using registry_run.inv_reachable [OF assms(1)] assms(2-4) unfolding sids_announced_def pe_sids_def by blast
  then show ?thesis by (simp add: getOrGenerateSID_def)
qed

theorem announced_SID_is_allocated_witness:
  "fst (getOrGenerateSID False demo_locator ''1'' EncapTypeDT46 (rz_sids (snd (Commit demo_world
      (StageSIDSegsForTenantOnNode BeginTx ''1'' ''a'' demo_locator []) demo_registry)))) =
    Inr (withHextets demo_locator 48 (permute 0))"
proof -
  let ?tx = "StageSIDSegsForTenantOnNode BeginTx ''1'' ''a'' demo_locator []"
  let ?st = "snd (Commit demo_world ?tx demo_registry)"
  have "reg_step (\<lambda>_. demo_locator) demo_registry ?st"
  proof (rule step_commit)
    show "tx_ok ?tx" unfolding StageSIDSegsForTenantOnNode_def by (intro tx_ok_MutatePE tx_ok_BeginTx)
    show "tx_at (\<lambda>_. demo_locator) ?tx"
      by (simp add: tx_at_def StageSIDSegsForTenantOnNode_def MutatePE_def BeginTx_def mget0_def)
  qed (simp_all add: demo_world_def no_wrap_def demo_registry_def)
  note r = reachable_step [OF demo_registry_reachable this]
  have tx: "?tx = [(''a'', [\<lparr>pm_NodeType = NodeTypePE, pm_EntryKey = ''a'', pm_Mutate = SetSegs ''1'' demo_locator []\<rparr>])]"
    by (simp add: StageSIDSegsForTenantOnNode_def MutatePE_def BeginTx_def mget0_def mput_def)
  have "mget (rz_registry ?st) ''a'' = Some (commitOf demo_world ''a''
      (PEIntent \<lparr>pt_NodeID = ''a'', pt_Tenants = [(''1'', \<lparr>ti_PortalIntents = [],
         ti_DT46SID = withHextets demo_locator 48 (permute 0), ti_InstallPaths = []\<rparr>)], pt_Peers = [],
         pt_TrafficClassIntent = []\<rparr>) (newPE 5 ''a''))"
    unfolding tx
    by (simp add: Commit_def commitLocked_def commitEntry_def entryFor_def getOrCreateRegistryEntryForPE_def
        demo_registry_def demo_world_def applyMutation_def withTenant_def getOrCreateTenantIntentForPE_def
        first_SID publishTarget_def publishAll_def publishSnapshot_def upsertGeneration_def publishIntent_def
        newPE_def commitOf_def mput_def mget_def Let_def)
  from announced_SID_is_allocated [OF r this, of _ "''1''" _ False] show ?thesis
    by (simp add: mget_def)
qed

section \<open>Where the bucket falls behind\<close>

text \<open>C32. When the table of generations cannot be written, a commit still changes the entry of the
  node and counts its generation, publishes nothing and reports no error: the caller takes the
  new intent as delivered, while the bucket keeps the old one.\<close>

theorem Commit_store_failure_silent:
  assumes "reachable reg_start (reg_step loc) st" and "\<forall>t. \<not> wo_upsert w t"
    and pe: "ni_Intent (baseEntry (wo_now w) k st) = PEIntent pe"
  shows "\<exists>e. Commit w (StagePeersForPE BeginTx k peers) st =
        ([], snd (Commit w (StagePeersForPE BeginTx k peers) st)) \<and>
      mget (rz_registry (snd (Commit w (StagePeersForPE BeginTx k peers) st))) k = Some e \<and>
      ni_Intent e = PEIntent (pe\<lparr>pt_Peers := peers\<rparr>) \<and>
      ni_Generation e = ni_Generation (baseEntry (wo_now w) k st) + 1 \<and>
      rz_published (snd (Commit w (StagePeersForPE BeginTx k peers) st)) = rz_published st"
proof -
  let ?m = "\<lparr>pm_NodeType = NodeTypePE, pm_EntryKey = k, pm_Mutate = SetPeers peers\<rparr>"
  let ?b = "baseEntry (wo_now w) k st" and ?i = "PEIntent (pe\<lparr>pt_Peers := peers\<rparr>)"
  have inv: "reg_inv st" using registry_run.inv_reachable [OF assms(1)] by blast
  obtain t where t: "publishTarget (ni_NodeType ?b) k = Some t"
    using known_target known_base [OF inv_known [OF inv]] by blast
  have app: "applyMutations (wo_sidTx w) k [?m] (ni_Intent ?b) (rz_sids st) = ([], ?i, rz_sids st)"
    by (simp add: pe applyMutation_def)
  have "[?m] \<noteq> []" "\<forall>m \<in> set [?m]. pm_NodeType m = NodeTypePE" by simp_all
  then obtain st1 where 1: "commitEntry w (k, [?m]) (st, [], []) = (st1, mput t (commitOf w k ?i ?b) [], [] @ [])"
    and reg: "\<And>k'. mget (rz_registry st1) k' = (if k' = k then Some (commitOf w k ?i ?b) else mget (rz_registry st) k')"
    and pub: "rz_published st1 = rz_published st"
    using commitEntry_spec [OF _ _ inv_known [OF inv] app t, of "[]" "[]"] by blast
  have tx: "StagePeersForPE BeginTx k peers = [(k, [?m])]"
    by (simp add: StagePeersForPE_def MutatePE_def BeginTx_def mget0_def mput_def)
  have "Commit w (StagePeersForPE BeginTx k peers) st = ([], st1)"
    using assms(2) by (simp add: tx Commit_def commitLocked_def 1 publishAll_def publishSnapshot_def mput_def)
  then show ?thesis using reg pub by simp
qed

theorem Commit_store_failure_silent_witness:
  "\<exists>e. mget (rz_registry (snd (Commit (demo_world\<lparr>wo_upsert := \<lambda>_. False\<rparr>) (StagePeersForPE BeginTx ''a'' []) demo_registry)))
     ''a'' = Some e \<and> ni_Generation e = 2"
  using Commit_store_failure_silent [OF demo_registry_reachable, of "demo_world\<lparr>wo_upsert := \<lambda>_. False\<rparr>" "''a''" _ "[]"]
  by (simp add: baseEntry_def demo_registry_def newPE_def) blast

text \<open>
  The lock is given back before the publication. When two commits overlap and the first one
  publishes last, the bucket keeps the older generation, although the registry holds the newer.
\<close>

lemma late_publication_goes_back:
  "(case commitLocked demo_world demo_tx demo_registry of (st1, sn1, errs1) \<Rightarrow>
      (case commitLocked demo_world demo_tx st1 of (st2, sn2, errs2) \<Rightarrow>
         (case publishAll demo_world sn2 (st2, errs2) of (st3, _) \<Rightarrow>
            (case publishAll demo_world sn1 (st3, errs1) of (st4, _) \<Rightarrow>
               (map_option ni_Generation (mget (rz_registry st4) ''a''),
                map_option ni_Generation (mget (rz_published st4) ''pop.a.intent'')))))) = (Some 3, Some 2)"
  by code_simp

text \<open>
  A portal that has asked for its identity has an entry without the name of the portal. A
  reconnect publishes it under the key with an empty name, where no portal looks for it.
\<close>

lemma registered_portal_restored_elsewhere:
  assumes "mget (rz_registry st) portalID = None" and "ct_PortalID cpe = []"
  shows "\<exists>e. mget (rz_registry (registerPortal now portalID cpe st)) portalID = Some e \<and>
    restoreTarget e = ''cpe..intent''"
  using assms by (simp add: registerPortal_def restoreTarget_def nodesync_Key_def PrefixCPE_def LaneIntent_def)

end
