(* ===== verification/Controller_Run.thy ===== *)
theory Controller_Run
  imports Controller_Correct Registry_Run
begin

text \<open>
  What the controller promises, from the computed paths and the tunnel updates to the intents of
  the nodes, with an example.
\<close>

section \<open>An example\<close>



definition demo_remote :: site where
  "demo_remote =
     \<lparr>si_TenantID = 1, si_CPE = ''cpe2'', si_PortalID = ''p2'', si_Node = ''n2'', si_Prefix = Prefix (Addr6 9) 64,
      si_Attach = ''c'', si_AttachNode = ''c'', si_IfID = 2, si_Identity = ''i2'', si_ReservationMbps = Fin 1,
      si_ClassMbps = []\<rparr>"

definition demo_tenants :: tenant_repo where
  "demo_tenants =
     \<lparr>re_classes = [], re_byID = [(1, \<lparr>tn_ID = 1, tn_Allocation = Prefix (Addr6 9) 48, tn_Tier = [],
        tn_TierIndex = 0, tn_VRFTable = 0, tn_Sites = [demo_remote]\<rparr>)],
      re_byIdentity = [], re_byPortalID = [(''p2'', demo_remote)], re_byPop = []\<rparr>"


text \<open>The locator that all nodes of the example have, and the registry with its identifier.\<close>

definition demo_loc :: prefix where
  "demo_loc = Prefix (Addr6 2) 64"






lemma demo_node: "map_option nd_Locator (mget (gr_nodes demo_graph) ''a'') = Some demo_loc"
  "map_option nd_Locator (mget (gr_nodes demo_graph) ''c'') = Some demo_loc"
  by code_simp+




section \<open>Tunnel updates\<close>



text \<open>
  The update of a portal is not guarded like its identity request: an attachment node without an
  access side makes the handler dereference a nil pointer.
\<close>

lemma CPE_update_panics:
  assumes "repo_SiteByPortalID repo (tr_PortalID req) = Some s" and "mget (re_byID repo) (si_TenantID s) = Some t"
    and "mget (iv_byID iv) (si_Attach s) = Some nd" and "\<not> HasAccessSide nd"
  shows "handleCPETunnelUpdate w iv repo (Some req) st = (Some PanicNilAccess, st)"
    and "portalAuth now respond iv repo (Some (tr_PortalID req)) st = (None, st)"
  using assms by (simp_all add: handleCPETunnelUpdate_def portalAuth_def HasAccessSide_def)

section \<open>Properties\<close>




text \<open>C14. A path that the search has found always has a segment list, also on a graph of the same
  nodes in which links have changed since: one segment for every transit node, which is the
  End.X identifier of the link that the path takes out of the node if the link is still there
  and has one, and otherwise the address of the node's own locator.\<close>

theorem computed_paths_have_segments:
  assumes "rounding_mode r" and "pce_wf g" and "weights_ok g (weight_of obj costs)"
    and "mget (pg_nodes g) src \<noteq> None" and "mget (pg_nodes g) dst \<noteq> None"
    and c: "computePath r (Some g) costs src dst (Some obj) = Some (Inr p)" and g': "pg_nodes g' = pg_nodes g"
  shows "\<exists>segs. transitSegments g' p = Inr segs \<and> length segs = length (p_Nodes p) - 2 \<and>
    (\<forall>i < length segs. \<exists>nd. mget (pg_nodes g') (p_Nodes p ! (i + 1)) = Some nd \<and>
       segs ! i = (if linkEndX g' (p_Edges p ! (i + 1)) \<noteq> AddrZero then linkEndX g' (p_Edges p ! (i + 1))
                   else prefix_addr (nd_Locator nd)))"
proof -
  have p: "edge_walk g src (p_Edges p) dst" "p_Nodes p = src # map (edge_to g) (p_Edges p)"
    using computePath_cases [OF assms(1-5)] c by (auto simp: valid_path_def)
  have nodes: "mget (pg_nodes g') (p_Nodes p ! i) \<noteq> None" if "i \<le> length (p_Edges p)" for i
    using that edge_walk_nodes [OF p(1)] assms(4) unfolding p(2) g' by (cases i) auto
  have "transitSegments g' p = Inr (map (segmentAt g' p) [1..<length (p_Edges p)])"
    by (rule transitSegments_eq) (simp add: p(2), use nodes in force)
  moreover have "\<exists>nd. mget (pg_nodes g') (p_Nodes p ! (i + 1)) = Some nd \<and> map (segmentAt g' p) [1..<length (p_Edges p)] ! i =
      (if linkEndX g' (p_Edges p ! (i + 1)) \<noteq> AddrZero then linkEndX g' (p_Edges p ! (i + 1)) else prefix_addr (nd_Locator nd))"
    if i: "i < length (p_Edges p) - 1" for i
  proof -
    have "i + 1 \<le> length (p_Edges p)" using i by simp
    from nodes [OF this] obtain nd where "mget (pg_nodes g') (p_Nodes p ! (i + 1)) = Some nd" by blast
    then show ?thesis using i by (simp add: segmentAt_def)
  qed
  ultimately show ?thesis using p(2) by auto
qed

theorem computed_paths_have_segments_witness:
  "\<exists>p segs. computePath Fin (Some demo_pce) demo_costs ''a'' ''c'' (Some (WeightedCost Fin demo_weights)) = Some (Inr p) \<and>
     transitSegments (NewPCEGraph demo_graph) p = Inr segs \<and> length segs = length (p_Nodes p) - 2"
proof -
  have n: "mget (pg_nodes demo_pce) ''a'' \<noteq> None" "mget (pg_nodes demo_pce) ''c'' \<noteq> None" by code_simp+
  have "\<exists>p. computePath Fin (Some demo_pce) demo_costs ''a'' ''c'' (Some (WeightedCost Fin demo_weights)) = Some (Inr p)"
    by (rule exI [of _ "the (map_option projr (computePath Fin (Some demo_pce) demo_costs ''a'' ''c''
      (Some (WeightedCost Fin demo_weights))))"]) code_simp
  moreover have "pg_nodes (NewPCEGraph demo_graph) = pg_nodes demo_pce" by code_simp
  ultimately show ?thesis
    using computed_paths_have_segments [OF exact.rounding_mode_axioms demo_pce_wf demo_weights_ok n] by blast
qed

text \<open>C25. After the first commit of the controller every node of the generated topology has a
  published intent with all traffic classes and with one peer for each interface that has a link
  whose remote address can be read. The telemetry key of a peer is the identifier of the link in
  the topology, so measurements that come back under the key are those of the link.\<close>

theorem start_announces_links:
  assumes "reachable reg_start (reg_step loc) st" and g: "generateGraphFromRawTopology parsePrefix raw = Inr g"
    and ids: "distinct (map ed_ID (directedEdges (rt_links raw)))"
    and c: "startIntents w parsePrefix repo g st = (errs, st')" and w: "\<forall>t. wo_upsert w t \<and> wo_publish w t"
    and n: "mget (gr_nodes g) k = Some n" and pe: "ni_Intent (baseEntry (wo_now w) k st) = PEIntent pe"
  shows "\<exists>e pe'. mget (rz_published st') (nodesync_Key PrefixPE k LaneIntent) = Some e \<and> ni_Intent e = PEIntent pe' \<and>
    pt_TrafficClassIntent pe' = map (\<lambda>c. \<lparr>cl_Color = tc_Label c, cl_DSCP = tc_DSCP c\<rparr>) (repo_Classes repo) \<and>
    (\<forall>iface peer. mget (pt_Peers pe') iface = Some peer \<longrightarrow>
       (\<exists>edge. mget (gr_edges g) (pr_TelemetryKey peer) = Some edge \<and> ed_Local edge = k \<and> ed_LocalIface edge = iface \<and>
          ed_Remote edge = pr_PeerID peer)) \<and>
    (\<forall>i edge. mget (gr_edges g) i = Some edge \<and> ed_Local edge = k \<and> mget (gr_nodes g) (ed_Remote edge) \<noteq> None \<and>
       parsePrefix (ed_RemoteAddr edge) \<noteq> None \<longrightarrow> mget (pt_Peers pe') (ed_LocalIface edge) \<noteq> None)"
proof -
  have inv: "reg_inv st" using registry_run.inv_reachable [OF assms(1)] by blast
  have wf: "mwf (gr_nodes g)" and edges: "gr_edges g = map (\<lambda>e. (ed_ID e, e)) (directedEdges (rt_links raw))"
    using generated_graph [OF g ids] by blast+
  have nid: "nd_ID n' = k'" if "mget (gr_nodes g) k' = Some n'" for k' n'
    using that generated_node_ids [OF g] unfolding node_ids_def by blast
  let ?peers = "fold (addPeer parsePrefix g n) (map snd (gr_edges g)) []"
  let ?classes = "map (\<lambda>c. \<lparr>cl_Color = tc_Label c, cl_DSCP = tc_DSCP c\<rparr>) (repo_Classes repo)"
  note T = startTx [OF generated_node_ids [OF g] wf n, of repo parsePrefix]
  note E = Commit_effect [OF inv T(1) c [unfolded startIntents_def]]
  let ?ms = "[\<lparr>pm_NodeType = NodeTypePE, pm_EntryKey = k, pm_Mutate = SetPeers ?peers\<rparr>,
      \<lparr>pm_NodeType = NodeTypePE, pm_EntryKey = k, pm_Mutate = SetClasses ?classes\<rparr>]"
  obtain e where e: "mget (rz_registry st') k = Some e" and com: "committed w st k ?ms e errs (rz_sids st')"
    using E(2) [OF T(2)] by blast
  have app: "applyMutations (wo_sidTx w) k ?ms (ni_Intent (baseEntry (wo_now w) k st)) s1 =
      ([], PEIntent (pe\<lparr>pt_Peers := ?peers, pt_TrafficClassIntent := ?classes\<rparr>), s1)" for s1
    by (simp add: pe applyMutation_def)
  have i: "ni_Intent e = PEIntent (pe\<lparr>pt_Peers := ?peers, pt_TrafficClassIntent := ?classes\<rparr>)"
    using com unfolding committed_def app by auto
  have "typed k e" using committed_typed [OF inv com] by blast
  with i have ty: "ni_NodeType e = NodeTypePE" by (simp add: typed_def)
  have "publishTarget NodeTypePE k = Some (nodesync_Key PrefixPE k LaneIntent)" by (simp add: publishTarget_def)
  from E(3) [OF this] have pub: "mget (rz_published st') (nodesync_Key PrefixPE k LaneIntent) = Some e"
    using w T(2) e ty by (simp add: touches_def)
  have filed: "mget (gr_edges g) (ed_ID x) = Some x" if "x \<in> set (directedEdges (rt_links raw))" for x
    using that ids unfolding edges mget_def by (intro map_of_is_SomeI) (simp_all add: comp_def)
  have peer: "\<exists>edge. mget (gr_edges g) (pr_TelemetryKey peer) = Some edge \<and> ed_Local edge = k \<and> ed_LocalIface edge = iface \<and>
      ed_Remote edge = pr_PeerID peer" if "mget ?peers iface = Some peer" for iface peer
    using fold_addPeer(1) [OF that] filed directedEdges_key nid nid [OF n] by (fastforce simp: edges comp_def)
  have all: "mget ?peers (ed_LocalIface edge) \<noteq> None" if "mget (gr_edges g) i = Some edge" "ed_Local edge = k"
    "mget (gr_nodes g) (ed_Remote edge) \<noteq> None" "parsePrefix (ed_RemoteAddr edge) \<noteq> None" for i edge
    using that mget_in_set [OF that(1)] nid [OF n] by (intro fold_addPeer(2)) force
  show ?thesis using pub i peer all by auto
qed

theorem start_announces_links_witness:
  "\<exists>e pe. mget (rz_published (snd (startIntents demo_world demo_parse demo_tenants demo_graph demo_registry))) ''pop.a.intent'' = Some e \<and>
     ni_Intent e = PEIntent pe \<and> mget (pt_Peers pe) ''b'' \<noteq> None"
proof -
  let ?s = "startIntents demo_world demo_parse demo_tenants demo_graph demo_registry"
  have d: "distinct (map ed_ID (directedEdges (rt_links demo_raw)))" by code_simp
  have s: "?s = (fst ?s, snd ?s)" by simp
  obtain n where n: "mget (gr_nodes demo_graph) ''a'' = Some n" using demo_node(1) by auto
  have pe: "ni_Intent (baseEntry (wo_now demo_world) ''a'' demo_registry) =
      PEIntent \<lparr>pt_NodeID = ''a'', pt_Tenants = [], pt_Peers = [], pt_TrafficClassIntent = []\<rparr>"
    by (simp add: baseEntry_def demo_registry_def newPE_def)
  have w: "\<forall>t. wo_upsert demo_world t \<and> wo_publish demo_world t" by (simp add: demo_world_def)
  have e: "\<exists>edge. mget (gr_edges demo_graph) ''a:b-b:a'' = Some edge \<and> ed_Local edge = ''a'' \<and> ed_LocalIface edge = ''b'' \<and>
      mget (gr_nodes demo_graph) (ed_Remote edge) \<noteq> None \<and> demo_parse (ed_RemoteAddr edge) \<noteq> None"
    by (rule exI [of _ "the (mget (gr_edges demo_graph) ''a:b-b:a'')"]) code_simp
  have key: "nodesync_Key PrefixPE ''a'' LaneIntent = ''pop.a.intent''"
    by (simp add: nodesync_Key_def PrefixPE_def LaneIntent_def)
  from start_announces_links [OF demo_registry_reachable demo_graph_eq d s w n pe, unfolded key] e show ?thesis
    by metis
qed





end
