(* ===== verification/Dataplane.thy ===== *)
theory Dataplane
  imports Intents
begin

unbundle bit_operations_syntax

text \<open>
  The resources of the node's dataplane (\<^verbatim>\<open>libs/dataplane\<close>): the seven kinds of kernel
  objects, their keys, how an intent and the observed kernel state are rendered into them,
  and the difference of two rendered states.

  A Go \<^verbatim>\<open>int\<close> that carries a routing table or a mark is a 64 bit word, printed as a signed
  number. A nil \<^verbatim>\<open>*net.IPNet\<close> is None; reading through it panics, which is the error
  \<open>ErrNilNet\<close> of the model.
\<close>

section \<open>Resources\<close>

datatype resource_kind =
  KindVRF | KindRule | KindXFRM | KindRoute | KindSID | KindSRRoute | KindClassification

fun kind_string :: "resource_kind \<Rightarrow> string" where
  "kind_string KindVRF = ''vrf''"
| "kind_string KindRule = ''rule''"
| "kind_string KindXFRM = ''xfrm''"
| "kind_string KindRoute = ''route''"
| "kind_string KindSID = ''sid''"
| "kind_string KindSRRoute = ''sr_route''"
| "kind_string KindClassification = ''classification''"

datatype resource_action =
  ActionCreate | ActionUpdate | ActionReplace | ActionDelete | ActionNone

record vrf_res =
  vrf_Name :: string
  vrf_TableID :: "32 word"
  vrf_Index :: int

record xfrm_res =
  xfrm_Name :: string
  xfrm_IfID :: "32 word"
  xfrm_Parent :: string
  xfrm_MasterVRF :: string
  xfrm_Index :: int

record route_res =
  route_Table :: "64 word"
  route_Dst :: prefix
  route_Dev :: string
  route_Via :: addr
  route_Metric :: int

record rule_res =
  rule_Priority :: int
  rule_Src :: "prefix option"
  rule_Table :: "64 word"
  rule_Mark :: "64 word"
  rule_Iif :: string

record sid_res =
  sid_SIDType :: string
  sid_SID :: addr
  sid_TableID :: "64 word"
  sid_Metric :: int
  sid_VrfTableID :: "64 word"

record sr_route_res =
  srr_Prefix :: prefix
  srr_Segments :: "addr list"
  srr_Table :: "64 word"
  srr_Color :: "64 word"

record class_res =
  class_Classifier :: "32 word"
  class_Mark :: "32 word"

datatype resource =
  VRF vrf_res | XFRM xfrm_res | Route route_res | Rule rule_res | SID sid_res
  | SRRoute sr_route_res | Classification class_res

fun kind_of :: "resource \<Rightarrow> resource_kind" where
  "kind_of (VRF v) = KindVRF"
| "kind_of (XFRM x) = KindXFRM"
| "kind_of (Route r) = KindRoute"
| "kind_of (Rule r) = KindRule"
| "kind_of (SID s) = KindSID"
| "kind_of (SRRoute s) = KindSRRoute"
| "kind_of (Classification c) = KindClassification"

definition show_word :: "64 word \<Rightarrow> string" where
  "show_word w = show_int (sint w)"

definition vrf_key :: "vrf_res \<Rightarrow> string" where
  "vrf_key v = kind_string KindVRF @ '':'' @ vrf_Name v"

definition xfrm_key :: "xfrm_res \<Rightarrow> string" where
  "xfrm_key x = kind_string KindXFRM @ '':'' @ xfrm_Name x @ ''.'' @ show_nat (unat (xfrm_IfID x))"

definition route_key :: "route_res \<Rightarrow> string" where
  "route_key r = kind_string KindRoute @ '':'' @ show_word (route_Table r) @ ''.''
     @ prefix_string (route_Dst r) @ ''.'' @ route_Dev r"

definition rule_key :: "rule_res \<Rightarrow> string" where
  "rule_key r =
     (let src = (case rule_Src r of None \<Rightarrow> '''' | Some p \<Rightarrow> prefix_string p)
      in kind_string KindRule @ '':'' @ show_int (rule_Priority r) @ ''.'' @ src @ ''.''
           @ show_word (rule_Table r) @ ''.'' @ show_word (rule_Mark r))"

definition sid_res_key :: "sid_res \<Rightarrow> string" where
  "sid_res_key s = kind_string KindSID @ '':'' @ sid_SIDType s @ ''.'' @ addr_string (sid_SID s)
     @ ''.'' @ show_word (sid_VrfTableID s)"

definition sr_route_key :: "sr_route_res \<Rightarrow> string" where
  "sr_route_key s = kind_string KindSRRoute @ '':'' @ show_word (srr_Table s) @ ''.''
     @ prefix_string (srr_Prefix s) @ ''.'' @ concat (map addr_string (srr_Segments s))"

definition class_key :: "class_res \<Rightarrow> string" where
  "class_key c = kind_string KindClassification @ '':'' @ show_nat (unat (class_Classifier c))
     @ ''.'' @ show_nat (unat (class_Mark c))"

fun resource_key :: "resource \<Rightarrow> string" where
  "resource_key (VRF v) = vrf_key v"
| "resource_key (XFRM x) = xfrm_key x"
| "resource_key (Route r) = route_key r"
| "resource_key (Rule r) = rule_key r"
| "resource_key (SID s) = sid_res_key s"
| "resource_key (SRRoute s) = sr_route_key s"
| "resource_key (Classification c) = class_key c"

text \<open>
  \<^verbatim>\<open>CompareTo\<close> of each kind, against nothing or another resource. The comparison of two
  rules compares the pointers to their source prefixes: \<open>same_src\<close> says whether they are the
  same pointer.
\<close>

fun vrf_CompareTo :: "vrf_res \<Rightarrow> resource option \<Rightarrow> resource_action" where
  "vrf_CompareTo v None = ActionCreate"
| "vrf_CompareTo v (Some (VRF a)) =
     (if vrf_Name v \<noteq> vrf_Name a \<or> vrf_TableID v \<noteq> vrf_TableID a then ActionReplace else ActionNone)"
| "vrf_CompareTo v (Some _) = ActionReplace"

fun xfrm_CompareTo :: "xfrm_res \<Rightarrow> resource option \<Rightarrow> resource_action" where
  "xfrm_CompareTo x None = ActionCreate"
| "xfrm_CompareTo x (Some (XFRM a)) =
     (if xfrm_Name x \<noteq> xfrm_Name a \<or> xfrm_IfID x \<noteq> xfrm_IfID a \<or> xfrm_Parent x \<noteq> xfrm_Parent a
        \<or> xfrm_MasterVRF x \<noteq> xfrm_MasterVRF a then ActionReplace else ActionNone)"
| "xfrm_CompareTo x (Some _) = ActionReplace"

fun route_CompareTo :: "route_res \<Rightarrow> resource option \<Rightarrow> resource_action" where
  "route_CompareTo r None = ActionCreate"
| "route_CompareTo r (Some (Route a)) =
     (if route_Table r \<noteq> route_Table a \<or> route_Dst r \<noteq> route_Dst a \<or> route_Dev r \<noteq> route_Dev a
        \<or> route_Via r \<noteq> route_Via a \<or> route_Metric r \<noteq> route_Metric a
      then ActionReplace else ActionNone)"
| "route_CompareTo r (Some _) = ActionReplace"

fun rule_CompareTo :: "bool \<Rightarrow> rule_res \<Rightarrow> resource option \<Rightarrow> resource_action" where
  "rule_CompareTo same_src r (Some (Rule a)) =
     (if rule_Priority r \<noteq> rule_Priority a \<or> \<not> same_src \<or> rule_Table r \<noteq> rule_Table a
      then ActionReplace else ActionNone)"
| "rule_CompareTo same_src r _ = ActionReplace"

fun sid_CompareTo :: "sid_res \<Rightarrow> resource option \<Rightarrow> resource_action" where
  "sid_CompareTo s None = ActionCreate"
| "sid_CompareTo s (Some (SID a)) =
     (if sid_SIDType s \<noteq> sid_SIDType a \<or> sid_SID s \<noteq> sid_SID a then ActionReplace else ActionNone)"
| "sid_CompareTo s (Some _) = ActionReplace"

fun sr_route_CompareTo :: "sr_route_res \<Rightarrow> resource option \<Rightarrow> resource_action" where
  "sr_route_CompareTo s None = ActionCreate"
| "sr_route_CompareTo s (Some (SRRoute a)) =
     (if srr_Table a \<noteq> srr_Table s then ActionReplace
      else if length (srr_Segments s) \<noteq> length (srr_Segments a) then ActionReplace
      else if list_ex (\<lambda>(x, y). x \<noteq> y) (zip (srr_Segments s) (srr_Segments a)) then ActionReplace
      else ActionNone)"
| "sr_route_CompareTo s (Some _) = ActionReplace"

definition class_CompareTo :: "class_res \<Rightarrow> resource option \<Rightarrow> resource_action" where
  "class_CompareTo c a = ActionNone"

section \<open>The observed kernel state\<close>

text \<open>\<^verbatim>\<open>net.IPNet\<close>: the bytes of the address and the length of the mask.\<close>

record ip_net =
  net_IP :: "8 word list"
  net_ones :: int

definition bytes_word :: "8 word list \<Rightarrow> 'a::len word" where
  "bytes_word bs = foldl (\<lambda>w b. push_bit 8 w OR ucast b) 0 bs"

definition word_bytes :: "nat \<Rightarrow> 'a::len word \<Rightarrow> 8 word list" where
  "word_bytes n w = map (\<lambda>i. ucast (drop_bit (8 * (n - 1 - i)) w)) [0..<n]"

text \<open>\<^verbatim>\<open>netip.AddrFromSlice\<close> and \<^verbatim>\<open>Addr.AsSlice\<close>.\<close>

definition addr_from_slice :: "8 word list \<Rightarrow> addr" where
  "addr_from_slice bs =
     (if length bs = 4 then Addr4 (bytes_word bs)
      else if length bs = 16 then Addr6 (bytes_word bs) else AddrZero)"

definition addr_as_slice :: "addr \<Rightarrow> 8 word list" where
  "addr_as_slice a =
     (case a of AddrZero \<Rightarrow> [] | Addr4 w \<Rightarrow> word_bytes 4 w | Addr6 w \<Rightarrow> word_bytes 16 w)"

definition net_prefix :: "ip_net \<Rightarrow> prefix" where
  "net_prefix n = prefix_from (addr_from_slice (net_IP n)) (net_ones n)"

record dp_vrf =
  dvrf_Name :: string
  dvrf_Index :: int
  dvrf_TableID :: "32 word"

record dp_xfrm =
  dxfrm_Name :: string
  dxfrm_Index :: int
  dxfrm_ParentName :: string
  dxfrm_MasterName :: string
  dxfrm_IfID :: "32 word"

datatype dp_link = LinkVRF dp_vrf | LinkXFRM dp_xfrm

record dp_route =
  droute_Dev :: string
  droute_Dst :: "ip_net option"
  droute_Table :: "64 word"
  droute_Via :: "8 word list"

record dp_sid =
  dsid_Dev :: string
  dsid_Dst :: "ip_net option"
  dsid_Table :: "64 word"
  dsid_EncapType :: string
  dsid_VrfTableID :: "64 word"

record dp_sr_route =
  dsrr_Dst :: "ip_net option"
  dsrr_Table :: "64 word"
  dsrr_Color :: "64 word"
  dsrr_Segments :: "addr list"

record dp_rule =
  drule_Priority :: int
  drule_Src :: "prefix option"
  drule_Table :: "64 word"
  drule_Mark :: "64 word"
  drule_Iif :: string

record dp_class =
  dclass_Classifier :: "32 word"
  dclass_Mark :: "32 word"

section \<open>Rendering\<close>

type_synonym resources = "(string, resource) gomap"

datatype render_error = ErrNoSitePrefix | ErrDSCP int | ErrNilNet

definition put_res :: "resource \<Rightarrow> resources \<Rightarrow> resources" where
  "put_res r m = mput (resource_key r) r m"

definition CPETunnelTable :: "64 word" where "CPETunnelTable = 100"
definition CPERulePriority :: int where "CPERulePriority = 100"

definition RenderCPEIntent :: "cpe_intent \<Rightarrow> (render_error, resources) result" where
  "RenderCPEIntent cpe =
     (if ct_TunnelInterfaceID cpe = 0 then Inr []
      else if \<not> prefix_is_valid (ct_SitePrefix cpe) then Inl ErrNoSitePrefix
      else let name = ''xfrm-tenant-'' @ ct_TenantID cpe;
               xfrm = \<lparr> xfrm_Name = name, xfrm_IfID = ct_TunnelInterfaceID cpe, xfrm_Parent = ''lo'',
                        xfrm_MasterVRF = '''', xfrm_Index = 0 \<rparr>;
               route = \<lparr> route_Table = CPETunnelTable, route_Dst = prefix_from ipv6_unspecified 0,
                         route_Dev = name, route_Via = AddrZero, route_Metric = 0 \<rparr>;
               rule = \<lparr> rule_Priority = CPERulePriority, rule_Src = Some (ct_SitePrefix cpe),
                        rule_Table = CPETunnelTable, rule_Mark = 0, rule_Iif = '''' \<rparr>
           in Inr (put_res (Rule rule) (put_res (Route route) (put_res (XFRM xfrm) []))))"

definition vrfTableBits :: nat where "vrfTableBits = 24"
definition colorBits :: nat where "colorBits = 8"

text \<open>\<^verbatim>\<open>hash/fnv\<close>, 64 bit FNV-1a.\<close>

definition fnv64a :: "string \<Rightarrow> 64 word" where
  "fnv64a s = foldl (\<lambda>h c. (h XOR word_of_nat (of_char c)) * 1099511628211) 14695981039346656037 s"

definition StringToID :: "string \<Rightarrow> 32 word" where
  "StringToID s =
     (let minVal = 300; span = 2 ^ vrfTableBits - minVal
      in ucast (minVal + fnv64a s mod span :: 64 word))"

definition ColorTableID :: "64 word \<Rightarrow> 64 word \<Rightarrow> 64 word" where
  "ColorTableID vrfTable color = push_bit vrfTableBits color OR vrfTable"

fun renderDSCP :: "64 word \<Rightarrow> int list \<Rightarrow> resources \<Rightarrow> (render_error, resources) result" where
  "renderDSCP color [] m = Inr m"
| "renderDSCP color (dscp # ds) m =
     (if dscp \<ge> 255 then Inl (ErrDSCP dscp)
      else renderDSCP color ds
             (put_res (Classification \<lparr> class_Classifier = word_of_int dscp, class_Mark = ucast color \<rparr>) m))"

fun renderClasses :: "class_intent list \<Rightarrow> resources \<Rightarrow> (render_error, resources) result" where
  "renderClasses [] m = Inr m"
| "renderClasses (c # cs) m = bind_result (renderDSCP (cl_Color c) (cl_DSCP c) m) (renderClasses cs)"

definition vrfName :: "string \<Rightarrow> string" where
  "vrfName tenantID = ''maeto-vrf-'' @ tenantID"

definition tunName :: "string \<Rightarrow> portal_intent \<Rightarrow> string" where
  "tunName tenantID p =
     ''maeto-tun-'' @ tenantID @ ''-'' @ show_nat (unat (po_TunnelInterfaceID p))"

definition portal_xfrm :: "string \<Rightarrow> portal_intent \<Rightarrow> xfrm_res" where
  "portal_xfrm tenantID p =
     \<lparr> xfrm_Name = tunName tenantID p, xfrm_IfID = po_TunnelInterfaceID p,
       xfrm_Parent = po_HostFacingInterface p, xfrm_MasterVRF = vrfName tenantID, xfrm_Index = 0 \<rparr>"

definition portal_route :: "string \<Rightarrow> portal_intent \<Rightarrow> route_res" where
  "portal_route tenantID p =
     \<lparr> route_Table = ucast (StringToID tenantID), route_Dst = po_SitePrefix p,
       route_Dev = tunName tenantID p, route_Via = AddrZero, route_Metric = 0 \<rparr>"

definition renderPortal :: "string \<Rightarrow> portal_intent \<Rightarrow> resources \<Rightarrow> resources" where
  "renderPortal tenantID p m =
     put_res (Route (portal_route tenantID p)) (put_res (XFRM (portal_xfrm tenantID p)) m)"

text \<open>
  The state of the loop over the install paths of a tenant: the resources, the colours seen
  and the tenant that owns each routing table.
\<close>

record path_state =
  ps_resources :: resources
  ps_colors :: "(64 word, unit) gomap"
  ps_collision :: "(64 word, string) gomap"

definition path_srroute :: "string \<Rightarrow> install_intent \<Rightarrow> prefix \<Rightarrow> sr_route_res" where
  "path_srroute tenantID path prefix =
     \<lparr> srr_Prefix = prefix, srr_Segments = rev (io_Segments path),
       srr_Table = ColorTableID (ucast (StringToID tenantID)) (io_Color path),
       srr_Color = io_Color path \<rparr>"

definition renderPrefix :: "string \<Rightarrow> install_intent \<Rightarrow> prefix \<Rightarrow> path_state \<Rightarrow> path_state" where
  "renderPrefix tenantID path prefix st =
     (let table = ColorTableID (ucast (StringToID tenantID)) (io_Color path);
          st = st \<lparr> ps_colors := mput (io_Color path) () (ps_colors st) \<rparr>;
          collides = (case mget (ps_collision st) table of
                        None \<Rightarrow> False | Some owner \<Rightarrow> owner \<noteq> io_TenantID path)
      in if collides then st
         else st \<lparr> ps_resources := put_res (SRRoute (path_srroute tenantID path prefix)) (ps_resources st),
                   ps_collision := mput table (io_TenantID path) (ps_collision st) \<rparr>)"

definition renderPath :: "string \<Rightarrow> install_intent \<Rightarrow> path_state \<Rightarrow> path_state" where
  "renderPath tenantID path st = fold (renderPrefix tenantID path) (io_PrefixRoutes path) st"

definition color_rule :: "string \<Rightarrow> 64 word \<Rightarrow> rule_res" where
  "color_rule tenantID color =
     \<lparr> rule_Priority = 80, rule_Src = None,
       rule_Table = ColorTableID (ucast (StringToID tenantID)) color,
       rule_Mark = color, rule_Iif = vrfName tenantID \<rparr>"

definition tenant_vrf :: "string \<Rightarrow> vrf_res" where
  "tenant_vrf tenantID =
     \<lparr> vrf_Name = vrfName tenantID, vrf_TableID = StringToID tenantID, vrf_Index = 0 \<rparr>"

definition SIDDT46 :: string where "SIDDT46 = ''dt46''"

definition tenant_sid :: "string \<Rightarrow> tenant_intent \<Rightarrow> sid_res" where
  "tenant_sid tenantID t =
     \<lparr> sid_SIDType = SIDDT46, sid_SID = ti_DT46SID t, sid_TableID = ucast (StringToID tenantID),
       sid_Metric = 0, sid_VrfTableID = 0 \<rparr>"

definition renderTenant :: "string \<times> tenant_intent \<Rightarrow> resources \<times> (64 word, string) gomap \<Rightarrow>
    resources \<times> (64 word, string) gomap" where
  "renderTenant tt rc =
     (let (tenantID, t) = tt; (m, coll) = rc;
          m = put_res (VRF (tenant_vrf tenantID)) m;
          m = (if addr_is_valid (ti_DT46SID t) then put_res (SID (tenant_sid tenantID t)) m else m);
          m = fold (renderPortal tenantID) (map snd (ti_PortalIntents t)) m;
          st = fold (renderPath tenantID) (ti_InstallPaths t)
                 \<lparr> ps_resources = m, ps_colors = [], ps_collision = coll \<rparr>;
          m = fold (\<lambda>color. put_res (Rule (color_rule tenantID color)))
                (map fst (ps_colors st)) (ps_resources st)
      in (m, ps_collision st))"

definition RenderPEIntent :: "pe_intent \<Rightarrow> (render_error, resources) result" where
  "RenderPEIntent pe =
     bind_result (renderClasses (pt_TrafficClassIntent pe) [])
       (\<lambda>m. Inr (fst (fold renderTenant (pt_Tenants pe) (m, []))))"

subsection \<open>Rendering the observed state\<close>

definition fib_class :: "dp_class \<Rightarrow> resource" where
  "fib_class c =
     Classification \<lparr> class_Classifier = dclass_Classifier c, class_Mark = dclass_Mark c \<rparr>"

definition fib_vrf :: "dp_vrf \<Rightarrow> resource" where
  "fib_vrf l = VRF \<lparr> vrf_Name = dvrf_Name l, vrf_TableID = dvrf_TableID l, vrf_Index = dvrf_Index l \<rparr>"

definition fib_xfrm :: "dp_xfrm \<Rightarrow> resource" where
  "fib_xfrm l =
     XFRM \<lparr> xfrm_Name = dxfrm_Name l, xfrm_IfID = dxfrm_IfID l, xfrm_Parent = dxfrm_ParentName l,
            xfrm_MasterVRF = dxfrm_MasterName l, xfrm_Index = dxfrm_Index l \<rparr>"

definition fib_route :: "dp_route \<Rightarrow> (render_error, resource) result" where
  "fib_route r =
     (case droute_Dst r of None \<Rightarrow> Inl ErrNilNet
      | Some dst \<Rightarrow>
          Inr (Route \<lparr> route_Table = droute_Table r, route_Dst = net_prefix dst, route_Dev = droute_Dev r,
                       route_Via = addr_from_slice (droute_Via r), route_Metric = 0 \<rparr>))"

definition fib_rule :: "dp_rule \<Rightarrow> resource" where
  "fib_rule r =
     Rule \<lparr> rule_Priority = drule_Priority r, rule_Src = drule_Src r, rule_Table = drule_Table r,
            rule_Mark = drule_Mark r, rule_Iif = drule_Iif r \<rparr>"

definition fib_sid :: "dp_sid \<Rightarrow> (render_error, resource) result" where
  "fib_sid s =
     (case dsid_Dst s of None \<Rightarrow> Inl ErrNilNet
      | Some dst \<Rightarrow>
          Inr (SID \<lparr> sid_SIDType = dsid_EncapType s, sid_SID = addr_from_slice (net_IP dst),
                     sid_TableID = dsid_VrfTableID s, sid_Metric = 0, sid_VrfTableID = 0 \<rparr>))"

definition fib_sr_route :: "dp_sr_route \<Rightarrow> (render_error, resource) result" where
  "fib_sr_route r =
     (case dsrr_Dst r of None \<Rightarrow> Inl ErrNilNet
      | Some dst \<Rightarrow>
          Inr (SRRoute \<lparr> srr_Prefix = net_prefix dst, srr_Segments = dsrr_Segments r,
                         srr_Table = dsrr_Table r, srr_Color = dsrr_Color r \<rparr>))"

fun putAll :: "('a \<Rightarrow> (render_error, resource) result) \<Rightarrow> 'a list \<Rightarrow> resources \<Rightarrow>
    (render_error, resources) result" where
  "putAll f [] m = Inr m"
| "putAll f (x # xs) m = bind_result (f x) (\<lambda>r. putAll f xs (put_res r m))"

definition RenderFIB :: "dp_vrf list \<Rightarrow> dp_xfrm list \<Rightarrow> dp_route list \<Rightarrow> dp_sid list \<Rightarrow>
    dp_rule list \<Rightarrow> dp_sr_route list \<Rightarrow> dp_class list \<Rightarrow> (render_error, resources) result" where
  "RenderFIB vrfLinks xfrmLinks routes sids rules srRoutes classifications =
     (let m = fold (\<lambda>c. put_res (fib_class c)) classifications [];
          m = fold (\<lambda>l. put_res (fib_vrf l)) vrfLinks m;
          m = fold (\<lambda>l. put_res (fib_xfrm l)) xfrmLinks m
      in bind_result (putAll fib_route routes m)
           (\<lambda>m. bind_result (putAll fib_sid sids (fold (\<lambda>r. put_res (fib_rule r)) rules m))
             (\<lambda>m. putAll fib_sr_route srRoutes m)))"

section \<open>Difference\<close>

record diff_result =
  df_Remove :: "resource list"
  df_Add :: "resource list"

definition keyDifference :: "('k, 'v) gomap \<Rightarrow> ('k, 'w) gomap \<Rightarrow> 'k list" where
  "keyDifference m1 m2 = filter (\<lambda>k. mget m2 k = None) (map fst m1)"

definition Diff :: "resources \<Rightarrow> resources \<Rightarrow> diff_result" where
  "Diff cur desired =
     \<lparr> df_Remove = map (\<lambda>k. the (mget cur k)) (keyDifference cur desired),
       df_Add = map (\<lambda>k. the (mget desired k)) (keyDifference desired cur) \<rparr>"

end
