(* ===== verification/Reconciler.thy ===== *)
theory Reconciler
  imports Dataplane "HOL-Library.Product_Lexorder"
begin

text \<open>
  The reconciler of a node (\<^verbatim>\<open>libs/dataplane/reconciler*.go\<close>): it plans (renders the kernel
  state and the intent), takes the difference, applies it, and repeats until the two agree,
  at most three times; then it reports what it saw.

  The dataplane is an interface of the code: a record of operations on a state of any type.
  Every operation, reads included, returns the state it leaves behind, so the kernel may
  change between two calls. The encoding of a resource as JSON and the clock are parameters.
\<close>

section \<open>The dataplane interface\<close>

type_synonym dp_error = string
type_synonym ('s, 'a) dp_read = "'s \<Rightarrow> (dp_error, 'a) result \<times> 's"
type_synonym 's dp_write = "'s \<Rightarrow> dp_error option \<times> 's"

record 's dataplane =
  dp_UpsertVRF :: "string \<Rightarrow> 64 word \<Rightarrow> 's dp_write"
  dp_RemoveVRF :: "int \<Rightarrow> 's dp_write"
  dp_GetLinksByType :: "string \<Rightarrow> ('s, dp_link list) dp_read"
  dp_InsertXFRMInterface :: "string \<Rightarrow> string \<Rightarrow> 32 word \<Rightarrow> string option \<Rightarrow> 's dp_write"
  dp_RemoveXFRMInterface :: "int \<Rightarrow> 's dp_write"
  dp_UpsertRule :: "int \<Rightarrow> prefix option \<Rightarrow> 64 word \<Rightarrow> 64 word \<Rightarrow> string \<Rightarrow> 's dp_write"
  dp_RemoveRule :: "int \<Rightarrow> prefix option \<Rightarrow> 64 word \<Rightarrow> 64 word \<Rightarrow> string \<Rightarrow> 's dp_write"
  dp_GetRules :: "('s, dp_rule list) dp_read"
  dp_InsertPrefixRoute :: "string \<Rightarrow> 64 word \<Rightarrow> prefix \<Rightarrow> addr \<Rightarrow> 's dp_write"
  dp_RemovePrefixRoute :: "prefix \<Rightarrow> 64 word \<Rightarrow> 's dp_write"
  dp_GetPrefixRoutes :: "('s, dp_route list) dp_read"
  dp_InsertSRRouteForPrefix :: "prefix \<Rightarrow> 64 word \<Rightarrow> addr list \<Rightarrow> 's dp_write"
  dp_GetSRRoutes :: "('s, dp_sr_route list) dp_read"
  dp_RemoveSRRouteForPrefix :: "prefix \<Rightarrow> 64 word \<Rightarrow> 's dp_write"
  dp_UpsertDT46SID :: "addr \<Rightarrow> 64 word \<Rightarrow> 's dp_write"
  dp_RemoveSID :: "addr \<Rightarrow> 's dp_write"
  dp_GetSIDs :: "string option \<Rightarrow> int option \<Rightarrow> ('s, dp_sid list) dp_read"
  dp_EnsureClassificationBase :: "'s dp_write"
  dp_InsertClassification :: "32 word \<Rightarrow> 32 word \<Rightarrow> 's dp_write"
  dp_GetClassifications :: "('s, dp_class list) dp_read"
  dp_RemoveClassification :: "32 word \<Rightarrow> 's dp_write"

section \<open>Planning\<close>

datatype reconcile_error =
  ErrNodeType node_type node_type
  | ErrStale "32 word" "32 word" "32 word" "32 word"
  | ErrRead string
  | ErrLinkType string
  | ErrRenderIntent render_error
  | ErrDataplane dp_error
  | ErrNotConverged nat
  | PlanPanic

text \<open>\<open>then_do\<close> is the sequencing of fallible reads, each followed by its early return.\<close>

definition then_do :: "('s \<Rightarrow> ('e, 'a) result \<times> 's) \<Rightarrow> ('a \<Rightarrow> 's \<Rightarrow> ('e, 'b) result \<times> 's) \<Rightarrow>
    's \<Rightarrow> ('e, 'b) result \<times> 's" where
  "then_do m f s = (case m s of (Inl e, t) \<Rightarrow> (Inl e, t) | (Inr x, t) \<Rightarrow> f x t)"

definition reading :: "string \<Rightarrow> ('s, 'a) dp_read \<Rightarrow> 's \<Rightarrow> (reconcile_error, 'a) result \<times> 's" where
  "reading what m s = (case m s of (Inl e, t) \<Rightarrow> (Inl (ErrRead what), t) | (Inr x, t) \<Rightarrow> (Inr x, t))"

fun vrfLinks :: "dp_link list \<Rightarrow> (reconcile_error, dp_vrf list) result" where
  "vrfLinks [] = Inr []"
| "vrfLinks (LinkVRF v # ls) = bind_result (vrfLinks ls) (\<lambda>vs. Inr (v # vs))"
| "vrfLinks (LinkXFRM x # ls) = Inl (ErrLinkType ''DataplaneVRF'')"

fun xfrmLinks :: "dp_link list \<Rightarrow> (reconcile_error, dp_xfrm list) result" where
  "xfrmLinks [] = Inr []"
| "xfrmLinks (LinkXFRM x # ls) = bind_result (xfrmLinks ls) (\<lambda>xs. Inr (x # xs))"
| "xfrmLinks (LinkVRF v # ls) = Inl (ErrLinkType ''DataplaneXFRM'')"

text \<open>The reads of \<^verbatim>\<open>Plan\<close> and the rendering of what they returned.\<close>

definition readFIB :: "'s dataplane \<Rightarrow> 's \<Rightarrow> (reconcile_error, resources) result \<times> 's" where
  "readFIB dp =
     then_do (reading ''vrf links'' (dp_GetLinksByType dp ''vrf'')) (\<lambda>rVrfs.
     then_do (Pair (vrfLinks rVrfs)) (\<lambda>vrfs.
     then_do (reading ''xfrm links'' (dp_GetLinksByType dp ''xfrm'')) (\<lambda>rXfrms.
     then_do (Pair (xfrmLinks rXfrms)) (\<lambda>xfrms.
     then_do (reading ''prefix routes'' (dp_GetPrefixRoutes dp)) (\<lambda>routes.
     then_do (reading ''rules'' (dp_GetRules dp)) (\<lambda>rules.
     then_do (reading ''sids'' (dp_GetSIDs dp None None)) (\<lambda>sids.
     then_do (reading ''sr routes'' (dp_GetSRRoutes dp)) (\<lambda>srRoutes.
     then_do (reading ''classifications'' (dp_GetClassifications dp)) (\<lambda>classifications.
     Pair (case RenderFIB vrfs xfrms routes sids rules srRoutes classifications of
             Inl e \<Rightarrow> Inl PlanPanic | Inr m \<Rightarrow> Inr m))))))))))"

record reconciler =
  rcn_nodeType :: node_type
  rcn_current :: "node_intent option"
  rcn_reporter :: bool
  rcn_lastCurrent :: "resources option"
  rcn_lastDesired :: "resources option"

definition NewReconciler :: "node_type \<Rightarrow> reconciler" where
  "NewReconciler nodeType =
     \<lparr> rcn_nodeType = nodeType, rcn_current = None, rcn_reporter = False,
       rcn_lastCurrent = None, rcn_lastDesired = None \<rparr>"

definition SetStateReporter :: "reconciler \<Rightarrow> reconciler" where
  "SetStateReporter r = r \<lparr> rcn_reporter := True \<rparr>"

definition stale :: "node_intent \<Rightarrow> node_intent \<Rightarrow> bool" where
  "stale cur desired \<longleftrightarrow> ni_Version desired < ni_Version cur \<or>
     ni_Version desired = ni_Version cur \<and> ni_Generation desired < ni_Generation cur"

definition renderIntent :: "intent \<Rightarrow> (reconcile_error, resources) result" where
  "renderIntent i =
     (case (case i of CPEIntent c \<Rightarrow> RenderCPEIntent c | PEIntent p \<Rightarrow> RenderPEIntent p) of
        Inl e \<Rightarrow> Inl (ErrRenderIntent e) | Inr m \<Rightarrow> Inr m)"

definition admit :: "reconciler \<Rightarrow> node_intent \<Rightarrow> (reconcile_error, unit) result" where
  "admit r desired =
     (if ni_NodeType desired \<noteq> rcn_nodeType r
      then Inl (ErrNodeType (ni_NodeType desired) (rcn_nodeType r))
      else case rcn_current r of
          None \<Rightarrow> Inr ()
        | Some cur \<Rightarrow>
            if stale cur desired
            then Inl (ErrStale (ni_Version cur) (ni_Generation cur) (ni_Version desired)
                        (ni_Generation desired))
            else Inr ())"

definition Plan :: "'s dataplane \<Rightarrow> reconciler \<Rightarrow> node_intent \<Rightarrow> 's \<Rightarrow>
    (reconcile_error, resources \<times> resources) result \<times> 's" where
  "Plan dp r desired =
     then_do (Pair (admit r desired)) (\<lambda>_.
     then_do (readFIB dp) (\<lambda>currentResources.
     Pair (bind_result (renderIntent (ni_Intent desired))
       (\<lambda>desiredResources. Inr (currentResources, desiredResources)))))"

section \<open>Applying\<close>

definition removeOrder :: "resource_kind list" where
  "removeOrder = [KindClassification, KindRule, KindSRRoute, KindSID, KindRoute, KindXFRM, KindVRF]"

definition addOrder :: "resource_kind list" where
  "addOrder = [KindVRF, KindXFRM, KindRoute, KindSID, KindSRRoute, KindRule, KindClassification]"

fun removeResource :: "'s dataplane \<Rightarrow> resource \<Rightarrow> 's dp_write" where
  "removeResource dp (Route r) = dp_RemovePrefixRoute dp (route_Dst r) (route_Table r)"
| "removeResource dp (XFRM x) = dp_RemoveXFRMInterface dp (xfrm_Index x)"
| "removeResource dp (VRF v) = dp_RemoveVRF dp (vrf_Index v)"
| "removeResource dp (Rule r) =
     dp_RemoveRule dp (rule_Priority r) (rule_Src r) (rule_Table r) (rule_Mark r) (rule_Iif r)"
| "removeResource dp (SID s) = dp_RemoveSID dp (sid_SID s)"
| "removeResource dp (SRRoute s) = dp_RemoveSRRouteForPrefix dp (srr_Prefix s) (srr_Table s)"
| "removeResource dp (Classification c) = dp_RemoveClassification dp (class_Classifier c)"

fun addResource :: "'s dataplane \<Rightarrow> resource \<Rightarrow> 's dp_write" where
  "addResource dp (VRF v) = dp_UpsertVRF dp (vrf_Name v) (ucast (vrf_TableID v))"
| "addResource dp (XFRM x) =
     (let mVRF = (if xfrm_MasterVRF x \<noteq> '''' then Some (xfrm_MasterVRF x) else None);
          parent = (if xfrm_Parent x = '''' then ''lo'' else xfrm_Parent x)
      in dp_InsertXFRMInterface dp (xfrm_Name x) parent (xfrm_IfID x) mVRF)"
| "addResource dp (Route r) =
     dp_InsertPrefixRoute dp (route_Dev r) (route_Table r) (route_Dst r) (route_Via r)"
| "addResource dp (SRRoute s) =
     dp_InsertSRRouteForPrefix dp (srr_Prefix s) (srr_Table s) (srr_Segments s)"
| "addResource dp (Rule r) =
     dp_UpsertRule dp (rule_Priority r) (rule_Src r) (rule_Table r) (rule_Mark r) (rule_Iif r)"
| "addResource dp (SID s) = dp_UpsertDT46SID dp (sid_SID s) (sid_TableID s)"
| "addResource dp (Classification c) =
     dp_InsertClassification dp (class_Classifier c) (class_Mark c)"

text \<open>The two nested loops: every kind in its order, the resources of that kind; errors are only logged.\<close>

definition inOrder :: "(resource \<Rightarrow> 's dp_write) \<Rightarrow> resource_kind list \<Rightarrow> resource list \<Rightarrow> 's \<Rightarrow> 's" where
  "inOrder act kinds rs s =
     fold (\<lambda>kind. fold (\<lambda>res s. if kind_of res \<noteq> kind then s else snd (act res s)) rs) kinds s"

definition Apply :: "'s dataplane \<Rightarrow> diff_result \<Rightarrow> 's dp_write" where
  "Apply dp diff s =
     (case dp_EnsureClassificationBase dp s of
        (Some e, s) \<Rightarrow> (Some e, s)
      | (None, s) \<Rightarrow>
          (None, inOrder (addResource dp) addOrder (df_Add diff)
                   (inOrder (removeResource dp) removeOrder (df_Remove diff) s)))"

section \<open>Reconciling\<close>

definition maxPasses :: nat where "maxPasses = 3"

text \<open>The variables of \<^verbatim>\<open>Reconcile\<close> that the deferred report reads.\<close>

record pass_vars =
  pv_current :: "resources option"
  pv_desired :: "resources option"
  pv_result :: diff_result
  pv_converged :: bool
  pv_passes :: nat
  pv_err :: "reconcile_error option"
  pv_panic :: bool

definition pass_start :: pass_vars where
  "pass_start =
     \<lparr> pv_current = None, pv_desired = None, pv_result = \<lparr> df_Remove = [], df_Add = [] \<rparr>,
       pv_converged = False, pv_passes = 0, pv_err = None, pv_panic = False \<rparr>"

text \<open>
  The loop, by the number of passes left. A panic of \<^verbatim>\<open>Plan\<close> leaves the variables as they were.
\<close>

fun reconcileLoop :: "'s dataplane \<Rightarrow> node_intent \<Rightarrow> nat \<Rightarrow> reconciler \<Rightarrow> pass_vars \<Rightarrow> 's \<Rightarrow>
    pass_vars \<times> reconciler \<times> 's" where
  "reconcileLoop dp ni 0 r v s = (v \<lparr> pv_err := Some (ErrNotConverged maxPasses) \<rparr>, r, s)"
| "reconcileLoop dp ni (Suc left) r v s =
     (let v = v \<lparr> pv_passes := Suc (pv_passes v) \<rparr>
      in case Plan dp r ni s of
           (Inl e, s) \<Rightarrow>
             if e = PlanPanic then (v \<lparr> pv_panic := True \<rparr>, r, s)
             else (v \<lparr> pv_current := None, pv_desired := None, pv_err := Some e \<rparr>, r, s)
         | (Inr (cur, des), s) \<Rightarrow>
             let v = v \<lparr> pv_current := Some cur, pv_desired := Some des, pv_result := Diff cur des \<rparr>
             in if df_Add (pv_result v) = [] \<and> df_Remove (pv_result v) = []
                then (v \<lparr> pv_converged := True \<rparr>, r \<lparr> rcn_current := Some ni \<rparr>, s)
                else case Apply dp (pv_result v) s of
                       (Some e, s) \<Rightarrow> (v \<lparr> pv_err := Some (ErrDataplane e) \<rparr>, r, s)
                     | (None, s) \<Rightarrow> reconcileLoop dp ni left r v s)"

subsection \<open>The report\<close>

record 'j resource_state =
  rst_Kind :: resource_kind
  rst_Key :: string
  rst_Spec :: 'j

record 'j node_state =
  nst_NodeID :: string
  nst_NodeType :: node_type
  nst_ReportedAt :: int
  nst_Generation :: "32 word"
  nst_Observed :: bool
  nst_Converged :: bool
  nst_Passes :: nat
  nst_Error :: "reconcile_error option"
  nst_Current :: "'j resource_state list"
  nst_Desired :: "'j resource_state list"
  nst_Add :: "'j resource_state list"
  nst_Remove :: "'j resource_state list"

definition NewResourceState :: "(resource \<Rightarrow> ('x, 'j) result) \<Rightarrow> resource \<Rightarrow>
    ('x, 'j resource_state) result" where
  "NewResourceState marshal res =
     bind_result (marshal res)
       (\<lambda>spec. Inr \<lparr> rst_Kind = kind_of res, rst_Key = resource_key res, rst_Spec = spec \<rparr>)"

definition sortResourceStates :: "'j resource_state list \<Rightarrow> 'j resource_state list" where
  "sortResourceStates = sort_key (\<lambda>s. (kind_string (rst_Kind s), rst_Key s))"

fun encodeStates :: "(resource \<Rightarrow> ('x, 'j) result) \<Rightarrow> resource list \<Rightarrow>
    ('x, 'j resource_state list) result" where
  "encodeStates marshal [] = Inr []"
| "encodeStates marshal (res # rs) =
     bind_result (NewResourceState marshal res)
       (\<lambda>st. bind_result (encodeStates marshal rs) (\<lambda>sts. Inr (st # sts)))"

definition ResourceStates :: "(resource \<Rightarrow> ('x, 'j) result) \<Rightarrow> resource list \<Rightarrow>
    ('x, 'j resource_state list) result" where
  "ResourceStates marshal rs =
     bind_result (encodeStates marshal rs) (\<lambda>out. Inr (sortResourceStates out))"

definition ResourceStatesFromMap :: "(resource \<Rightarrow> ('x, 'j) result) \<Rightarrow> resources option \<Rightarrow>
    ('x, 'j resource_state list) result" where
  "ResourceStatesFromMap marshal m =
     ResourceStates marshal (case m of None \<Rightarrow> [] | Some m \<Rightarrow> map snd m)"

definition intentNodeID :: "node_intent \<Rightarrow> string" where
  "intentNodeID ni =
     (case ni_Intent ni of PEIntent p \<Rightarrow> pt_NodeID p | CPEIntent c \<Rightarrow> ct_PortalID c)"

text \<open>\<^verbatim>\<open>report\<close>: the reconciler after it, and the state handed to the reporter, if any.\<close>

definition report :: "(resource \<Rightarrow> ('x, 'j) result) \<Rightarrow> int \<Rightarrow> node_intent \<Rightarrow> pass_vars \<Rightarrow> reconciler \<Rightarrow>
    reconciler \<times> 'j node_state option" where
  "report marshal now ni v r =
     (if \<not> rcn_reporter r then (r, None)
      else let observed = (pv_current v \<noteq> None);
               r = (if observed
                    then r \<lparr> rcn_lastCurrent := pv_current v, rcn_lastDesired := pv_desired v \<rparr> else r)
           in case bind_result (ResourceStatesFromMap marshal (rcn_lastCurrent r)) (\<lambda>cur.
                bind_result (ResourceStatesFromMap marshal (rcn_lastDesired r)) (\<lambda>des.
                bind_result (ResourceStates marshal (df_Add (pv_result v))) (\<lambda>add.
                bind_result (ResourceStates marshal (df_Remove (pv_result v))) (\<lambda>rem.
                Inr \<lparr> nst_NodeID = intentNodeID ni, nst_NodeType = rcn_nodeType r,
                      nst_ReportedAt = now, nst_Generation = ni_Generation ni,
                      nst_Observed = observed, nst_Converged = pv_converged v,
                      nst_Passes = pv_passes v, nst_Error = pv_err v,
                      nst_Current = cur, nst_Desired = des, nst_Add = add, nst_Remove = rem \<rparr>)))) of
                Inl _ \<Rightarrow> (r, None)
              | Inr state \<Rightarrow> (r, Some state))"

record ('s, 'j) outcome =
  oc_vars :: pass_vars
  oc_reconciler :: reconciler
  oc_state :: 's
  oc_report :: "'j node_state option"

definition Reconcile :: "'s dataplane \<Rightarrow> (resource \<Rightarrow> ('x, 'j) result) \<Rightarrow> int \<Rightarrow> node_intent \<Rightarrow>
    reconciler \<Rightarrow> 's \<Rightarrow> ('s, 'j) outcome" where
  "Reconcile dp marshal now ni r s =
     (let (v, r, s) = reconcileLoop dp ni maxPasses r pass_start s;
          (r, state) = report marshal now ni v r
      in \<lparr> oc_vars = v, oc_reconciler = r, oc_state = s, oc_report = state \<rparr>)"

text \<open>
  \<^verbatim>\<open>Start\<close>: the classification base, then the intents of the feed one after the other, at the
  times they arrive. A failed reconcile is logged and the loop goes on; a panic ends it.
\<close>

fun serveFeed :: "'s dataplane \<Rightarrow> (resource \<Rightarrow> ('x, 'j) result) \<Rightarrow> (int \<times> node_intent) list \<Rightarrow>
    reconciler \<Rightarrow> 's \<Rightarrow> reconciler \<times> 's" where
  "serveFeed dp marshal [] r s = (r, s)"
| "serveFeed dp marshal ((now, ni) # feed) r s =
     (let out = Reconcile dp marshal now ni r s
      in if pv_panic (oc_vars out) then (oc_reconciler out, oc_state out)
         else serveFeed dp marshal feed (oc_reconciler out) (oc_state out))"

definition reconciler_Start :: "'s dataplane \<Rightarrow> (resource \<Rightarrow> ('x, 'j) result) \<Rightarrow>
    (int \<times> node_intent) list \<Rightarrow> reconciler \<Rightarrow> 's \<Rightarrow> (dp_error, reconciler \<times> 's) result" where
  "reconciler_Start dp marshal feed r s =
     (case dp_EnsureClassificationBase dp s of
        (Some e, s) \<Rightarrow> Inl e
      | (None, s) \<Rightarrow> Inr (serveFeed dp marshal feed r s))"

end
