(* ===== verification/Dataplane_Correct.thy ===== *)
theory Dataplane_Correct
  imports Dataplane
begin

unbundle bit_operations_syntax

text \<open>
  The correctness of rendering and of the difference: every rendered map is filed under the
  keys of its resources, the difference leads from the keys of one map to those of the other,
  and the routing tables of tenants and colours are told apart.
\<close>

section \<open>Rendered maps\<close>

definition rkeys :: "resources \<Rightarrow> string set" where
  "rkeys m = fst ` set m"

definition keyed :: "resources \<Rightarrow> bool" where
  "keyed m \<longleftrightarrow> mwf m \<and> list_all (\<lambda>(k, r). k = resource_key r) m"

lemma keyed_Nil [simp, intro]: "keyed []"
  by (simp add: keyed_def gm.wf_empty)

lemma keyed_mget: "keyed m \<Longrightarrow> mget m k = Some r \<Longrightarrow> resource_key r = k"
  by (auto simp: keyed_def list_all_iff dest!: mget_in_set)

lemma set_update_subset: "set (AList.update k v m) \<subseteq> insert (k, v) (set m)"
  by (induction m) auto

lemma keyed_put_res [simp, intro]: "keyed m \<Longrightarrow> keyed (put_res r m)"
  using set_update_subset [of "resource_key r" r m] gm.wf_put [of m "resource_key r" r]
  by (auto simp: keyed_def put_res_def list_all_iff mput_def)

lemma keyed_the:
  "keyed m \<Longrightarrow> k \<in> rkeys m \<Longrightarrow> mget m (resource_key (the (mget m k))) = Some (the (mget m k))"
  using mget_None_fst [of m k] by (auto simp: rkeys_def dest: keyed_mget)

lemma rkeys_Nil [simp]: "rkeys [] = {}"
  by (simp add: rkeys_def)

lemma rkeys_put_res [simp]: "rkeys (put_res r m) = insert (resource_key r) (rkeys m)"
  by (simp add: rkeys_def put_res_def keys_mput)

lemma rkeys_mget: "k \<in> rkeys m \<longleftrightarrow> (\<exists>r. mget m k = Some r)"
  using mget_None_fst [of m k] by (auto simp: rkeys_def)

lemma fold_put_res:
  "keyed m \<Longrightarrow> keyed (fold (\<lambda>x. put_res (f x)) xs m)"
  "rkeys (fold (\<lambda>x. put_res (f x)) xs m) = (\<lambda>x. resource_key (f x)) ` set xs \<union> rkeys m"
  by (induction xs arbitrary: m) auto

lemma putAll_keyed: "putAll f xs m = Inr m' \<Longrightarrow> keyed m \<Longrightarrow> keyed m'"
  by (induction xs arbitrary: m) (auto simp: bind_result_eq_Inr)

theorem RenderFIB_keyed: "RenderFIB vs xs rs ss us srs cs = Inr m \<Longrightarrow> keyed m"
  by (auto simp: RenderFIB_def Let_def bind_result_eq_Inr
      dest!: putAll_keyed intro!: fold_put_res(1))

lemma RenderCPE_keyed: "RenderCPEIntent c = Inr m \<Longrightarrow> keyed m"
  by (auto simp: RenderCPEIntent_def Let_def split: if_splits)

lemma renderDSCP_keyed: "renderDSCP c ds m = Inr m' \<Longrightarrow> keyed m \<Longrightarrow> keyed m'"
  by (induction c ds m rule: renderDSCP.induct) (auto split: if_splits)

lemma renderClasses_keyed: "renderClasses cs m = Inr m' \<Longrightarrow> keyed m \<Longrightarrow> keyed m'"
  by (induction cs arbitrary: m) (auto simp: bind_result_eq_Inr dest: renderDSCP_keyed)

lemma renderPaths_keyed:
  "keyed (ps_resources st) \<Longrightarrow> keyed (ps_resources (fold (renderPath t) ps st))"
proof (induction ps arbitrary: st)
  case (Cons p ps)
  have "keyed (ps_resources (fold (renderPrefix t p) xs st))" for xs
    using Cons.prems by (induction xs arbitrary: st) (auto simp: renderPrefix_def Let_def)
  then show ?case
    using Cons.IH by (simp add: renderPath_def)
qed simp

lemma renderPortals_keyed: "keyed m \<Longrightarrow> keyed (fold (renderPortal t) ps m)"
  by (induction ps arbitrary: m) (auto simp: renderPortal_def)

lemma renderTenant_keyed: "keyed (fst mc) \<Longrightarrow> keyed (fst (renderTenant tt mc))"
  by (cases tt; cases mc)
    (auto simp: renderTenant_def Let_def
      intro!: fold_put_res(1) renderPaths_keyed renderPortals_keyed)

lemma RenderPE_keyed: "RenderPEIntent p = Inr m \<Longrightarrow> keyed m"
proof -
  have "keyed (fst mc) \<Longrightarrow> keyed (fst (fold renderTenant ts mc))" for ts mc
  proof (induction ts arbitrary: mc)
    case (Cons tt ts)
    then show ?case
      using Cons.IH [OF renderTenant_keyed [OF Cons.prems, of tt]] by simp
  qed simp
  then show "RenderPEIntent p = Inr m \<Longrightarrow> keyed m"
    by (auto simp: RenderPEIntent_def bind_result_eq_Inr dest!: renderClasses_keyed)
qed

section \<open>Difference\<close>

lemma keyDifference_set: "set (keyDifference m n) = fst ` set m - fst ` set n"
  by (auto simp: keyDifference_def mget_None_fst)

lemma keyDifference_distinct: "mwf m \<Longrightarrow> distinct (keyDifference m n)"
  by (simp add: keyDifference_def mwf_def)

lemma map_key_the:
  assumes "keyed m" and "set ks \<subseteq> rkeys m"
  shows "map (\<lambda>k. resource_key (the (mget m k))) ks = ks"
proof (rule map_idI)
  fix k assume "k \<in> set ks"
  then obtain r where "mget m k = Some r"
    using assms(2) rkeys_mget by blast
  then show "resource_key (the (mget m k)) = k"
    using keyed_mget [OF assms(1)] by simp
qed

lemma Diff_keys:
  assumes "keyed cur" and "keyed des"
  shows "map resource_key (df_Remove (Diff cur des)) = keyDifference cur des"
    and "map resource_key (df_Add (Diff cur des)) = keyDifference des cur"
  using map_key_the [OF assms(1), of "keyDifference cur des"]
    map_key_the [OF assms(2), of "keyDifference des cur"]
  by (auto simp: Diff_def comp_def keyDifference_set rkeys_def)

lemma Diff_sets:
  assumes "keyed cur" and "keyed des"
  shows "resource_key ` set (df_Remove (Diff cur des)) = rkeys cur - rkeys des"
    and "resource_key ` set (df_Add (Diff cur des)) = rkeys des - rkeys cur"
  using arg_cong [OF Diff_keys(1) [OF assms], of set] arg_cong [OF Diff_keys(2) [OF assms], of set]
  by (simp_all add: keyDifference_set rkeys_def)

lemma Diff_members:
  assumes "keyed cur" and "keyed des"
  shows "r \<in> set (df_Remove (Diff cur des)) \<Longrightarrow> mget cur (resource_key r) = Some r"
    and "r \<in> set (df_Add (Diff cur des)) \<Longrightarrow> mget des (resource_key r) = Some r"
  using keyed_the [OF assms(1)] keyed_the [OF assms(2)]
  by (auto simp: Diff_def keyDifference_set rkeys_def)

lemma Diff_empty_iff:
  assumes "keyed cur" and "keyed des"
  shows "df_Add (Diff cur des) = [] \<and> df_Remove (Diff cur des) = [] \<longleftrightarrow> rkeys cur = rkeys des"
  using Diff_sets [OF assms] by (metis Diff_eq_empty_iff image_is_empty set_empty subset_antisym
      equalityD1 equalityD2)

section \<open>Routing tables\<close>

lemma unat_StringToID:
  "unat (StringToID s) = 300 + unat (fnv64a s) mod (2 ^ 24 - 300)"
proof -
  let ?h = "unat (fnv64a s) mod (2 ^ 24 - 300)"
  have span: "unat (2 ^ vrfTableBits - 300 :: 64 word) = 2 ^ 24 - 300"
    by (simp add: vrfTableBits_def)
  have small: "300 + ?h < 2 ^ 24"
    using mod_less_divisor [of "2 ^ 24 - 300" "unat (fnv64a s)"] by simp
  have "unat (300 + fnv64a s mod (2 ^ vrfTableBits - 300)) = 300 + ?h"
    using small unfolding span [symmetric]
    by (subst unat_add_lem [THEN iffD1]) (simp_all add: unat_mod span)
  then show ?thesis
    using small
    by (simp add: StringToID_def Let_def unsigned_ucast_eq unsigned_take_bit_eq take_bit_nat_eq_self)
qed

lemma StringToID_bounds: "300 \<le> unat (StringToID s)" "unat (StringToID s) < 2 ^ 24"
  using mod_less_divisor [of "2 ^ 24 - 300" "unat (fnv64a s)"]
  by (simp_all add: unat_StringToID)

lemma unat_ColorTableID:
  assumes "unat v < 2 ^ 24" and "unat c < 2 ^ 40"
  shows "unat (ColorTableID v c) = unat c * 2 ^ 24 + unat v"
proof -
  have "push_bit 24 c AND v = 0"
  proof (rule bit_word_eqI)
    fix n
    have "\<not> bit v n" if "24 \<le> n"
    proof -
      have "unat v < 2 ^ n"
        using assms(1) power_increasing [OF that, of "2 :: nat"] by simp
      then have "\<not> bit (unat v) n"
        by (simp add: bit_iff_odd)
      then show ?thesis
        by (simp add: bit_unsigned_iff)
    qed
    then show "bit (push_bit 24 c AND v) n = bit (0 :: 64 word) n"
      by (auto simp: bit_and_iff bit_push_bit_iff)
  qed
  then have "ColorTableID v c = push_bit 24 c + v"
    by (simp add: ColorTableID_def vrfTableBits_def disjunctive_add_eq_or)
  moreover have "unat (push_bit 24 c) = unat c * 2 ^ 24"
    using assms(2) unat_mult_lem [of c "2 ^ 24"] by (simp add: push_bit_eq_mult)
  ultimately show ?thesis
    using assms unat_add_lem [of "push_bit 24 c" v] by simp
qed


lemma two_digits_inj:
  fixes a b n v w :: nat
  assumes "a * n + v = b * n + w" and "v < n" and "w < n"
  shows "a = b \<and> v = w"
proof -
  have "a = (a * n + v) div n" "b = (b * n + w) div n"
    using assms(2,3) by simp_all
  then show ?thesis
    using assms(1) by simp
qed

lemma unat_table: "unat (ucast (StringToID s) :: 64 word) = unat (StringToID s)"
  using StringToID_bounds(2) [of s]
  by (simp add: unsigned_ucast_eq unsigned_take_bit_eq take_bit_nat_eq_self)

lemma ColorTableID_inj:
  assumes "unat c < 2 ^ 40" and "unat c' < 2 ^ 40"
    and eq: "ColorTableID (ucast (StringToID t)) c = ColorTableID (ucast (StringToID t')) c'"
  shows "StringToID t = StringToID t' \<and> c = c'"
proof -
  let ?v = "unat (StringToID t)" and ?v' = "unat (StringToID t')"
  have "unat c * 2 ^ 24 + ?v = unat c' * 2 ^ 24 + ?v'"
    using arg_cong [OF eq, of unat] unat_ColorTableID [OF _ assms(1)] unat_ColorTableID [OF _ assms(2)]
      StringToID_bounds(2) by (simp add: unat_table)
  then have "unat c = unat c' \<and> ?v = ?v'"
    by (rule two_digits_inj [OF _ StringToID_bounds(2) StringToID_bounds(2)])
  then show ?thesis
    by (simp add: word_unat_eq_iff)
qed

section \<open>What an intent renders to\<close>

text \<open>A map renders a set of resources: filed under their keys, every key of the set, nothing else.\<close>

definition renders :: "resource set \<Rightarrow> resources \<Rightarrow> bool" where
  "renders W m \<longleftrightarrow> keyed m \<and> rkeys m = resource_key ` W \<and> snd ` set m \<subseteq> W"

lemma renders_Nil [simp]: "renders {} []"
  by (simp add: renders_def)

lemma renders_put: "renders W m \<Longrightarrow> renders (insert r W) (put_res r m)"
proof -
  assume m: "renders W m"
  have "snd ` set (put_res r m) \<subseteq> insert r (snd ` set m)"
    using set_update_subset [of "resource_key r" r m] by (force simp: put_res_def mput_def)
  also have "\<dots> \<subseteq> insert r W"
    using m by (simp add: renders_def subset_insertI2)
  finally show ?thesis
    using m by (simp add: renders_def)
qed

lemma renders_fold:
  "renders W m \<Longrightarrow> renders (W \<union> f ` set xs) (fold (\<lambda>x. put_res (f x)) xs m)"
proof (induction xs arbitrary: W m)
  case (Cons x xs)
  then show ?case
    using Cons.IH [OF renders_put [OF Cons.prems]] by simp
qed simp

lemma renders_mget: "renders W m \<Longrightarrow> r \<in> W \<Longrightarrow> \<exists>r'\<in>W. mget m (resource_key r) = Some r'"
proof -
  assume W: "renders W m" and "r \<in> W"
  then obtain r' where r': "mget m (resource_key r) = Some r'"
    using rkeys_mget [of "resource_key r" m] by (auto simp: renders_def)
  then have "r' \<in> W"
    using W mget_in_set [OF r'] by (force simp: renders_def)
  with r' show ?thesis by blast
qed

definition class_wanted :: "class_intent list \<Rightarrow> resource set" where
  "class_wanted cs =
     {Classification \<lparr> class_Classifier = word_of_int d, class_Mark = ucast (cl_Color c) \<rparr> | c d.
        c \<in> set cs \<and> d \<in> set (cl_DSCP c)}"

definition paths_wanted :: "string \<Rightarrow> install_intent list \<Rightarrow> resource set" where
  "paths_wanted t ps =
     {SRRoute (path_srroute t p x) | p x. p \<in> set ps \<and> x \<in> set (io_PrefixRoutes p)}"

definition tenant_wanted :: "string \<times> tenant_intent \<Rightarrow> resource set" where
  "tenant_wanted tt =
     (let (t, ti) = tt
      in {VRF (tenant_vrf t)}
         \<union> (if addr_is_valid (ti_DT46SID ti) then {SID (tenant_sid t ti)} else {})
         \<union> (\<lambda>p. XFRM (portal_xfrm t p)) ` snd ` set (ti_PortalIntents ti)
         \<union> (\<lambda>p. Route (portal_route t p)) ` snd ` set (ti_PortalIntents ti)
         \<union> paths_wanted t (ti_InstallPaths ti)
         \<union> {Rule (color_rule t (io_Color p)) | p. p \<in> set (ti_InstallPaths ti) \<and> io_PrefixRoutes p \<noteq> []})"

definition pe_wanted :: "pe_intent \<Rightarrow> resource set" where
  "pe_wanted pe = class_wanted (pt_TrafficClassIntent pe) \<union> (\<Union>tt\<in>set (pt_Tenants pe). tenant_wanted tt)"

lemma renderDSCP_renders:
  assumes "\<forall>d\<in>set ds. d < 255" and "renders W m"
  shows "\<exists>m'. renderDSCP c ds m = Inr m' \<and>
    renders (W \<union> (\<lambda>d. Classification \<lparr> class_Classifier = word_of_int d, class_Mark = ucast c \<rparr>) ` set ds) m'"
  using assms
proof (induction ds arbitrary: W m)
  case (Cons d ds)
  then show ?case
    using Cons.IH [OF _ renders_put [OF Cons.prems(2)]] by fastforce
qed simp

lemma class_wanted_Cons:
  "class_wanted (c # cs) =
     (\<lambda>d. Classification \<lparr> class_Classifier = word_of_int d, class_Mark = ucast (cl_Color c) \<rparr>)
       ` set (cl_DSCP c) \<union> class_wanted cs"
  by (auto simp: class_wanted_def)

lemma renderClasses_renders:
  assumes "\<forall>c\<in>set cs. \<forall>d\<in>set (cl_DSCP c). d < 255" and "renders W m"
  shows "\<exists>m'. renderClasses cs m = Inr m' \<and> renders (W \<union> class_wanted cs) m'"
  using assms
proof (induction cs arbitrary: W m)
  case Nil
  then show ?case by (simp add: class_wanted_def)
next
  case (Cons c cs)
  obtain m1 where m1: "renderDSCP (cl_Color c) (cl_DSCP c) m = Inr m1"
    "renders (W \<union> (\<lambda>d. Classification \<lparr> class_Classifier = word_of_int d,
       class_Mark = ucast (cl_Color c) \<rparr>) ` set (cl_DSCP c)) m1"
    using renderDSCP_renders [OF _ Cons.prems(2), of "cl_DSCP c" "cl_Color c"] Cons.prems(1) by auto
  then show ?case
    using Cons.IH [OF _ m1(2)] Cons.prems(1) by (simp add: class_wanted_Cons Un_assoc)
qed

text \<open>Every routing table in use belongs to one of the tenants: no path is refused.\<close>

definition tables_of :: "string set \<Rightarrow> (64 word, string) gomap \<Rightarrow> bool" where
  "tables_of T coll \<longleftrightarrow> (\<forall>table owner. mget coll table = Some owner \<longrightarrow>
     owner \<in> T \<and> (\<exists>c. unat c < 2 ^ 40 \<and> table = ColorTableID (ucast (StringToID owner)) c))"

definition good_path :: "string \<Rightarrow> install_intent \<Rightarrow> bool" where
  "good_path t p \<longleftrightarrow> io_TenantID p = t \<and> unat (io_Color p) < 2 ^ 40"

lemma tables_of_mget:
  assumes "tables_of T coll" and "inj_on StringToID T" and "t \<in> T" and "unat c < 2 ^ 40"
    and "mget coll (ColorTableID (ucast (StringToID t)) c) = Some owner"
  shows "owner = t"
proof -
  obtain c' where "owner \<in> T" "unat c' < 2 ^ 40"
    "ColorTableID (ucast (StringToID t)) c = ColorTableID (ucast (StringToID owner)) c'"
    using assms(1,5) unfolding tables_of_def by metis
  then have "StringToID t = StringToID owner"
    using ColorTableID_inj [OF assms(4)] by blast
  then show ?thesis
    using assms(2,3) \<open>owner \<in> T\<close> by (simp add: inj_on_eq_iff)
qed

lemma tables_of_mput:
  assumes "tables_of T coll" and "t \<in> T" and "unat c < 2 ^ 40"
  shows "tables_of T (mput (ColorTableID (ucast (StringToID t)) c) t coll)"
  using assms unfolding tables_of_def by auto

text \<open>
  What the loops over the paths maintain: the resources rendered so far, the colours seen, and
  the owners of the tables.
\<close>

definition path_inv :: "string set \<Rightarrow> resource set \<Rightarrow> 64 word set \<Rightarrow> path_state \<Rightarrow> bool" where
  "path_inv T W C st \<longleftrightarrow>
     renders W (ps_resources st) \<and> fst ` set (ps_colors st) = C \<and> tables_of T (ps_collision st)"

lemma renderPrefix_inv:
  assumes "path_inv T W C st" and "inj_on StringToID T" and "t \<in> T" and "good_path t p"
  shows "path_inv T (insert (SRRoute (path_srroute t p x)) W) (insert (io_Color p) C)
    (renderPrefix t p x st)"
proof -
  have small: "unat (io_Color p) < 2 ^ 40" and own: "io_TenantID p = t"
    using assms(4) by (auto simp: good_path_def)
  have tables: "tables_of T (ps_collision st)"
    using assms(1) by (simp add: path_inv_def)
  have free: "\<not> (case mget (ps_collision st) (ColorTableID (ucast (StringToID t)) (io_Color p)) of
      None \<Rightarrow> False | Some owner \<Rightarrow> owner \<noteq> io_TenantID p)"
    using tables_of_mget [OF tables assms(2,3) small] own by (auto split: option.split)
  show ?thesis
    using assms(1) free own tables_of_mput [OF tables assms(3) small]
    by (simp add: path_inv_def renderPrefix_def Let_def renders_put keys_mput)
qed

lemma renderPath_inv:
  assumes "path_inv T W C st" and "inj_on StringToID T" and "t \<in> T" and "good_path t p"
  shows "path_inv T (W \<union> (\<lambda>x. SRRoute (path_srroute t p x)) ` set (io_PrefixRoutes p))
    (C \<union> (if io_PrefixRoutes p = [] then {} else {io_Color p})) (renderPath t p st)"
proof -
  have "path_inv T (W \<union> (\<lambda>x. SRRoute (path_srroute t p x)) ` set xs)
      (C \<union> (if xs = [] then {} else {io_Color p})) (fold (renderPrefix t p) xs st)" for xs
    using assms(1)
  proof (induction xs arbitrary: W C st)
    case (Cons x xs)
    then show ?case
      using Cons.IH [OF renderPrefix_inv [OF Cons.prems assms(2-4)], of x]
      by (auto split: if_splits)
  qed simp
  then show ?thesis
    by (simp add: renderPath_def)
qed

definition colors_of :: "install_intent list \<Rightarrow> 64 word set" where
  "colors_of ps = {io_Color p | p. p \<in> set ps \<and> io_PrefixRoutes p \<noteq> []}"

lemma paths_wanted_Cons:
  "paths_wanted t (p # ps) =
     (\<lambda>x. SRRoute (path_srroute t p x)) ` set (io_PrefixRoutes p) \<union> paths_wanted t ps"
  "colors_of (p # ps) = (if io_PrefixRoutes p = [] then {} else {io_Color p}) \<union> colors_of ps"
  by (auto simp: paths_wanted_def colors_of_def)

lemma renderPaths_inv:
  assumes "path_inv T W C st" and "inj_on StringToID T" and "t \<in> T"
    and "list_all (good_path t) ps"
  shows "path_inv T (W \<union> paths_wanted t ps) (C \<union> colors_of ps) (fold (renderPath t) ps st)"
  using assms(1,4)
proof (induction ps arbitrary: W C st)
  case Nil
  then show ?case by (simp add: paths_wanted_def colors_of_def)
next
  case (Cons p ps)
  then show ?case
    using Cons.IH [OF renderPath_inv [OF Cons.prems(1) assms(2,3), of p]]
    by (simp add: paths_wanted_Cons Un_assoc)
qed

lemma renderPortals:
  "renders W m \<Longrightarrow>
   renders (W \<union> (\<lambda>p. XFRM (portal_xfrm t p)) ` set ps \<union> (\<lambda>p. Route (portal_route t p)) ` set ps)
     (fold (renderPortal t) ps m)"
proof (induction ps arbitrary: W m)
  case (Cons p ps)
  have "renders (insert (Route (portal_route t p)) (insert (XFRM (portal_xfrm t p)) W))
      (renderPortal t p m)"
    using Cons.prems by (simp add: renderPortal_def renders_put)
  from Cons.IH [OF this] show ?case
    by (simp add: Un_insert_left Un_insert_right insert_commute)
qed simp

definition good_tenant :: "string \<times> tenant_intent \<Rightarrow> bool" where
  "good_tenant tt \<longleftrightarrow> list_all (good_path (fst tt)) (ti_InstallPaths (snd tt))"

lemma tenant_wanted_eq:
  "tenant_wanted (t, ti) =
     ({VRF (tenant_vrf t)}
       \<union> (if addr_is_valid (ti_DT46SID ti) then {SID (tenant_sid t ti)} else {})
       \<union> (\<lambda>p. XFRM (portal_xfrm t p)) ` set (map snd (ti_PortalIntents ti))
       \<union> (\<lambda>p. Route (portal_route t p)) ` set (map snd (ti_PortalIntents ti))
       \<union> paths_wanted t (ti_InstallPaths ti))
       \<union> (\<lambda>c. Rule (color_rule t c)) ` colors_of (ti_InstallPaths ti)"
  by (auto simp: tenant_wanted_def colors_of_def image_iff)

lemma renderTenant_inv:
  assumes "renders W m" and "tables_of T coll" and "inj_on StringToID T" and "fst tt \<in> T"
    and "good_tenant tt"
  shows "renders (W \<union> tenant_wanted tt) (fst (renderTenant tt (m, coll))) \<and>
    tables_of T (snd (renderTenant tt (m, coll)))"
proof (cases tt)
  case (Pair t ti)
  let ?m1 = "put_res (VRF (tenant_vrf t)) m"
  let ?m2 = "if addr_is_valid (ti_DT46SID ti) then put_res (SID (tenant_sid t ti)) ?m1 else ?m1"
  let ?W2 = "W \<union> ({VRF (tenant_vrf t)}
       \<union> (if addr_is_valid (ti_DT46SID ti) then {SID (tenant_sid t ti)} else {}))"
  let ?ps = "map snd (ti_PortalIntents ti)"
  let ?W3 = "?W2 \<union> (\<lambda>p. XFRM (portal_xfrm t p)) ` set ?ps \<union> (\<lambda>p. Route (portal_route t p)) ` set ?ps"
  let ?st = "fold (renderPath t) (ti_InstallPaths ti)
     \<lparr> ps_resources = fold (renderPortal t) ?ps ?m2, ps_colors = [], ps_collision = coll \<rparr>"
  have "renders ?W2 ?m2"
    using renders_put [OF renders_put [OF assms(1)], of "SID (tenant_sid t ti)" "VRF (tenant_vrf t)"]
      renders_put [OF assms(1), of "VRF (tenant_vrf t)"]
    by (simp add: insert_commute)
  then have "renders ?W3 (fold (renderPortal t) ?ps ?m2)"
    by (rule renderPortals)
  then have "path_inv T ?W3 {}
      \<lparr> ps_resources = fold (renderPortal t) ?ps ?m2, ps_colors = [], ps_collision = coll \<rparr>"
    using assms(2) by (simp add: path_inv_def)
  from renderPaths_inv [OF this assms(3), of t "ti_InstallPaths ti"]
  have st: "path_inv T (?W3 \<union> paths_wanted t (ti_InstallPaths ti)) (colors_of (ti_InstallPaths ti)) ?st"
    using assms(4,5) Pair by (simp add: good_tenant_def)
  have "renders (?W3 \<union> paths_wanted t (ti_InstallPaths ti)
        \<union> (\<lambda>c. Rule (color_rule t c)) ` set (map fst (ps_colors ?st)))
      (fold (\<lambda>c. put_res (Rule (color_rule t c))) (map fst (ps_colors ?st)) (ps_resources ?st))"
    using st by (intro renders_fold) (simp add: path_inv_def)
  then show ?thesis
    using st Pair
    by (simp add: renderTenant_def Let_def tenant_wanted_eq path_inv_def Un_assoc)
qed

lemma renderTenants_inv:
  assumes "renders W m" and "tables_of T coll" and "inj_on StringToID T"
    and "fst ` set ts \<subseteq> T" and "list_all good_tenant ts"
  shows "renders (W \<union> (\<Union>tt\<in>set ts. tenant_wanted tt)) (fst (fold renderTenant ts (m, coll)))"
  using assms(1,2,4,5)
proof (induction ts arbitrary: W m coll)
  case (Cons tt ts)
  obtain m1 coll1 where step: "renderTenant tt (m, coll) = (m1, coll1)"
    by fastforce
  then have "renders (W \<union> tenant_wanted tt) m1" "tables_of T coll1"
    using renderTenant_inv [OF Cons.prems(1,2) assms(3), of tt] Cons.prems(3,4) by simp_all
  from Cons.IH [OF this] show ?case
    using Cons.prems(3,4) step by (simp add: Un_assoc)
qed simp

text \<open>
  The intents whose tenants have tables of their own, whose paths are their tenant's, in
  colours that a table number can carry, and whose DSCP values are in range.
\<close>

definition good_pe :: "pe_intent \<Rightarrow> bool" where
  "good_pe pe \<longleftrightarrow> inj_on StringToID (fst ` set (pt_Tenants pe)) \<and> list_all good_tenant (pt_Tenants pe) \<and>
     list_all (\<lambda>c. list_all (\<lambda>d. d < 255) (cl_DSCP c)) (pt_TrafficClassIntent pe)"

lemma RenderPE_renders:
  assumes "good_pe pe"
  shows "\<exists>m. RenderPEIntent pe = Inr m \<and> renders (pe_wanted pe) m"
proof -
  obtain m where m: "renderClasses (pt_TrafficClassIntent pe) [] = Inr m"
    "renders (class_wanted (pt_TrafficClassIntent pe)) m"
    using renderClasses_renders [OF _ renders_Nil, of "pt_TrafficClassIntent pe"] assms
    by (auto simp: good_pe_def list_all_iff)
  have "tables_of (fst ` set (pt_Tenants pe)) []"
    by (simp add: tables_of_def)
  from renderTenants_inv [OF m(2) this]
  have "renders (pe_wanted pe) (fst (fold renderTenant (pt_Tenants pe) (m, [])))"
    using assms by (simp add: good_pe_def pe_wanted_def)
  then show ?thesis
    using m(1) by (simp add: RenderPEIntent_def)
qed

section \<open>Words as octets\<close>

lemma word_bytes_Suc: "word_bytes (Suc n) w = word_bytes n (drop_bit 8 w) @ [ucast w]"
proof -
  have "8 * (Suc n - 1 - i) = 8 * (n - 1 - i) + 8" if "i < n" for i
    using that by simp
  then show ?thesis
    by (auto simp: word_bytes_def add.commute)
qed

lemma bytes_word_snoc: "bytes_word (bs @ [b]) = push_bit 8 (bytes_word bs) OR ucast b"
  by (simp add: bytes_word_def)

lemma bytes_word_bytes: "bytes_word (word_bytes n w) = take_bit (8 * n) (w :: 'a :: len word)"
proof (induction n arbitrary: w)
  case 0
  then show ?case by (simp add: word_bytes_def bytes_word_def)
next
  case (Suc n)
  have "push_bit 8 (take_bit (8 * n) (drop_bit 8 w)) OR ucast (ucast w :: 8 word) =
      take_bit (8 * Suc n) w"
  proof (rule bit_word_eqI)
    fix i
    assume "i < LENGTH('a)"
    then show "bit (push_bit 8 (take_bit (8 * n) (drop_bit 8 w)) OR ucast (ucast w :: 8 word)) i =
        bit (take_bit (8 * Suc n) w) i"
      by (cases "i < 8")
        (auto simp: bit_or_iff bit_push_bit_iff bit_take_bit_iff bit_drop_bit_eq bit_ucast_iff)
  qed
  then show ?case
    by (simp add: word_bytes_Suc bytes_word_snoc Suc)
qed

end
