(* ===== verification/Converge.thy ===== *)
theory Converge
  imports Reconciler_Correct
begin

text \<open>
  The reconciler converges. On a dataplane that keeps the contract below, three passes are
  enough, whatever was installed before: the first removes what is not wanted and installs
  what is missing, in the order that the dependencies need; the second reinstalls the wanted
  routes and SIDs that fell with a removed device; the third finds nothing to do.

  The contract is what the reconciler relies on of the \<^verbatim>\<open>Dataplane\<close> interface: reading shows
  the installed resources; adding a wanted resource shows it, where its place is free and what
  it rests on is there; removing one takes it away together with what rests on it.
\<close>

section \<open>The contract\<close>

text \<open>The fields of a resource that are not only observed, and its place in the kernel.\<close>

fun spec :: "resource \<Rightarrow> resource" where
  "spec (VRF v) = VRF (v \<lparr> vrf_Index := 0 \<rparr>)"
| "spec (XFRM x) = XFRM (x \<lparr> xfrm_Parent := '''', xfrm_Index := 0 \<rparr>)"
| "spec (SRRoute s) = SRRoute (s \<lparr> srr_Color := 0 \<rparr>)"
| "spec r = r"

lemma resource_key_spec [simp]: "resource_key (spec r) = resource_key r"
  by (cases r) (simp_all add: vrf_key_def xfrm_key_def sr_route_key_def)

lemma kind_of_spec [simp]: "kind_of (spec r) = kind_of r"
  by (cases r) simp_all

datatype slot =
  LinkSlot string | RouteSlot "64 word" prefix | SIDSlot addr
  | RuleSlot int "prefix option" "64 word" "64 word" string | ClassSlot "32 word"

fun slot_of :: "resource \<Rightarrow> slot" where
  "slot_of (VRF v) = LinkSlot (vrf_Name v)"
| "slot_of (XFRM x) = LinkSlot (xfrm_Name x)"
| "slot_of (Route r) = RouteSlot (route_Table r) (route_Dst r)"
| "slot_of (SRRoute s) = RouteSlot (srr_Table s) (srr_Prefix s)"
| "slot_of (SID s) = SIDSlot (sid_SID s)"
| "slot_of (Rule r) =
     RuleSlot (rule_Priority r) (rule_Src r) (rule_Table r) (rule_Mark r) (rule_Iif r)"
| "slot_of (Classification c) = ClassSlot (class_Classifier c)"

text \<open>
  What a resource rests on: an enslaved tunnel on its VRF, a route on its device, a SID on the
  VRF of its table.
\<close>

fun rests_on :: "resource \<Rightarrow> resource \<Rightarrow> bool" where
  "rests_on (XFRM x) (VRF v) = (xfrm_MasterVRF x \<noteq> '''' \<and> vrf_Name v = xfrm_MasterVRF x)"
| "rests_on (Route r) (XFRM x) = (xfrm_Name x = route_Dev r)"
| "rests_on (SID s) (VRF v) = (ucast (vrf_TableID v) = sid_TableID s)"
| "rests_on _ _ = False"

fun rests_needed :: "resource \<Rightarrow> bool" where
  "rests_needed (XFRM x) = (xfrm_MasterVRF x \<noteq> '''')"
| "rests_needed (Route r) = True"
| "rests_needed (SID s) = True"
| "rests_needed _ = False"

definition supported :: "resource \<Rightarrow> resource set \<Rightarrow> bool" where
  "supported r V \<longleftrightarrow> (rests_needed r \<longrightarrow> (\<exists>q\<in>V. rests_on r q))"

definition fits :: "resource \<Rightarrow> resource set \<Rightarrow> bool" where
  "fits r V \<longleftrightarrow> (\<forall>q\<in>V. slot_of q \<noteq> slot_of r) \<and> supported r V"

text \<open>A device may be removed unless another device rests on it.\<close>

definition removable :: "resource \<Rightarrow> resource set \<Rightarrow> bool" where
  "removable r V \<longleftrightarrow> (\<forall>q\<in>V. kind_of q = KindXFRM \<longrightarrow> \<not> rests_on q r)"

definition vals :: "resources \<Rightarrow> resource set" where
  "vals m = snd ` set m"

text \<open>The dataplane is in one of its states, and reading it shows the resources, changing nothing.\<close>

definition sees :: "'s dataplane \<Rightarrow> ('s \<Rightarrow> bool) \<Rightarrow> 's \<Rightarrow> resource set \<Rightarrow> bool" where
  "sees dp I s V \<longleftrightarrow> I s \<and> (\<exists>m. readFIB dp s = (Inr m, s) \<and> vals m = V)"

definition dp_contract :: "'s dataplane \<Rightarrow> ('s \<Rightarrow> bool) \<Rightarrow> resource set \<Rightarrow> bool" where
  "dp_contract dp I W \<longleftrightarrow>
     (\<forall>s V. sees dp I s V \<longrightarrow>
        fst (dp_EnsureClassificationBase dp s) = None \<and>
        sees dp I (snd (dp_EnsureClassificationBase dp s)) V) \<and>
     (\<forall>s V r. sees dp I s V \<and> r \<in> W \<and> fits r V \<longrightarrow>
        (\<exists>r'. spec r' = spec r \<and> sees dp I (snd (addResource dp r s)) (insert r' V))) \<and>
     (\<forall>s V r. sees dp I s V \<and> r \<in> V \<and> removable r V \<longrightarrow>
        sees dp I (snd (removeResource dp r s)) {q \<in> V. q \<noteq> r \<and> \<not> rests_on q r})"

lemma contract_base:
  assumes "dp_contract dp I W" and "sees dp I s V"
  obtains t where "dp_EnsureClassificationBase dp s = (None, t)" and "sees dp I t V"
  using assms unfolding dp_contract_def by (metis prod.collapse)

lemma contract_add:
  assumes "dp_contract dp I W" and "sees dp I s V" and "r \<in> W" and "fits r V"
  obtains r' where "spec r' = spec r" and "sees dp I (snd (addResource dp r s)) (insert r' V)"
  using assms unfolding dp_contract_def by metis

lemma contract_remove:
  "dp_contract dp I W \<Longrightarrow> sees dp I s V \<Longrightarrow> r \<in> V \<Longrightarrow> removable r V \<Longrightarrow>
   sees dp I (snd (removeResource dp r s)) {q \<in> V. q \<noteq> r \<and> \<not> rests_on q r}"
  unfolding dp_contract_def by blast

lemma slot_of_spec [simp]: "slot_of (spec r) = slot_of r"
  by (cases r) simp_all

lemma rests_on_spec_left [simp]: "rests_on (spec r) q = rests_on r q"
  by (cases r; cases q) simp_all

lemma rests_on_spec_right [simp]: "rests_on r (spec q) = rests_on r q"
  by (cases r; cases q) simp_all

lemma rests_on_kinds:
  "rests_on r q \<Longrightarrow> (kind_of r, kind_of q) \<in>
     {(KindXFRM, KindVRF), (KindRoute, KindXFRM), (KindSID, KindVRF)}"
  by (cases r; cases q) simp_all

lemma rests_on_needed: "rests_on r q \<Longrightarrow> rests_needed r"
  by (cases r; cases q) simp_all

section \<open>The order of the changes\<close>

definition orderedBy :: "resource_kind list \<Rightarrow> resource list \<Rightarrow> resource list" where
  "orderedBy kinds rs = concat (map (\<lambda>k. filter (\<lambda>r. kind_of r = k) rs) kinds)"

lemma fold_if_filter:
  "fold (\<lambda>res s. if kind_of res \<noteq> k then s else f res s) rs s = fold f (filter (\<lambda>r. kind_of r = k) rs) s"
  by (induction rs arbitrary: s) auto

lemma inOrder_fold: "inOrder act kinds rs s = fold (\<lambda>r s. snd (act r s)) (orderedBy kinds rs) s"
  unfolding inOrder_def orderedBy_def
  by (induction kinds arbitrary: s) (simp_all add: fold_if_filter [simplified])

lemma orderedBy_set: "set (orderedBy kinds rs) = {r \<in> set rs. kind_of r \<in> set kinds}"
  by (auto simp: orderedBy_def)

lemma orderedBy_distinct: "distinct rs \<Longrightarrow> distinct kinds \<Longrightarrow> distinct (orderedBy kinds rs)"
  by (induction kinds) (auto simp: orderedBy_def)

lemma orderedBy_sorted:
  assumes "sorted_wrt R kinds"
  shows "sorted_wrt (\<lambda>a b. kind_of a = kind_of b \<or> R (kind_of a) (kind_of b)) (orderedBy kinds rs)"
  using assms
proof (induction kinds)
  case (Cons k ks)
  have "sorted_wrt (\<lambda>a b. kind_of a = kind_of b \<or> R (kind_of a) (kind_of b))
      (filter (\<lambda>r. kind_of r = k) rs)"
    by (induction rs) auto
  then show ?case
    using Cons by (fastforce simp: orderedBy_def sorted_wrt_append)
qed (simp add: orderedBy_def)

text \<open>In the order of removal nothing comes after what it rests on, in that of addition nothing before.\<close>

definition kind_rests :: "resource_kind \<Rightarrow> resource_kind \<Rightarrow> bool" where
  "kind_rests k k' \<longleftrightarrow> (k, k') \<in> {(KindXFRM, KindVRF), (KindRoute, KindXFRM), (KindSID, KindVRF)}"

lemma remove_sorted: "sorted_wrt (\<lambda>a b. \<not> rests_on b a) (orderedBy removeOrder rs)"
proof -
  have "sorted_wrt (\<lambda>k k'. \<not> kind_rests k' k) removeOrder"
    by (simp add: removeOrder_def kind_rests_def)
  from orderedBy_sorted [OF this, of rs] show ?thesis
    by (rule sorted_wrt_mono_rel [rotated]) (auto simp: kind_rests_def dest!: rests_on_kinds)
qed

lemma add_sorted: "sorted_wrt (\<lambda>a b. \<not> rests_on a b) (orderedBy addOrder rs)"
proof -
  have "sorted_wrt (\<lambda>k k'. \<not> kind_rests k k') addOrder"
    by (simp add: addOrder_def kind_rests_def)
  from orderedBy_sorted [OF this, of rs] show ?thesis
    by (rule sorted_wrt_mono_rel [rotated]) (auto simp: kind_rests_def dest!: rests_on_kinds)
qed

lemma order_all: "set removeOrder = UNIV" "set addOrder = UNIV" "distinct removeOrder" "distinct addOrder"
proof -
  have "k \<in> set removeOrder \<and> k \<in> set addOrder" for k
    by (cases k) (simp_all add: removeOrder_def addOrder_def)
  then show "set removeOrder = UNIV" "set addOrder = UNIV"
    by auto
qed (simp_all add: removeOrder_def addOrder_def)

section \<open>One pass\<close>

text \<open>
  The wanted resources: no two want the same place, each finds what it rests on among them, and
  what is installed under a wanted key is what is wanted there.
\<close>

definition coherent :: "resource set \<Rightarrow> bool" where
  "coherent W \<longleftrightarrow> inj_on resource_key W \<and> inj_on slot_of W \<and> (\<forall>q\<in>W. supported q W)"

definition agrees :: "resource set \<Rightarrow> resource set \<Rightarrow> bool" where
  "agrees V W \<longleftrightarrow> (\<forall>q\<in>V. \<forall>w\<in>W. resource_key q = resource_key w \<longrightarrow> spec q = spec w)"

lemma same_master:
  "kind_of q = KindXFRM \<Longrightarrow> rests_on q r \<Longrightarrow> rests_on q p \<Longrightarrow> resource_key p = resource_key r"
  by (cases q; cases r; cases p) (auto simp: vrf_key_def)

lemma wanted_removable:
  assumes W: "coherent W" and V: "agrees V W" and r: "resource_key r \<notin> resource_key ` W"
    and rest: "\<And>q. q \<in> V \<Longrightarrow> resource_key q \<notin> resource_key ` W \<Longrightarrow> q = r \<or> \<not> rests_on q r"
  shows "removable r V"
  unfolding removable_def
proof (intro ballI impI notI)
  fix q
  assume q: "q \<in> V" "kind_of q = KindXFRM" "rests_on q r"
  then have "q \<noteq> r"
    by (cases q) auto
  with rest q obtain w where w: "w \<in> W" "resource_key q = resource_key w"
    by blast
  then have "spec q = spec w"
    using V q(1) unfolding agrees_def by blast
  then have on: "rests_on w r" and kind: "kind_of w = KindXFRM"
    using q by (metis rests_on_spec_left, metis kind_of_spec)
  then obtain p where "p \<in> W" "rests_on w p"
    using W w(1) rests_on_needed unfolding coherent_def supported_def by blast
  then show False
    using same_master [OF kind on] r by (metis image_eqI)
qed

lemma remove_phase:
  assumes dp: "dp_contract dp I W" and W: "coherent W"
  shows "sees dp I s V \<Longrightarrow> agrees V W \<Longrightarrow> distinct L \<Longrightarrow>
    sorted_wrt (\<lambda>a b. \<not> rests_on b a) L \<Longrightarrow>
    set L = {q \<in> V. resource_key q \<notin> resource_key ` W} \<Longrightarrow>
    \<exists>V'. sees dp I (fold (\<lambda>r s. snd (removeResource dp r s)) L s) V' \<and> V' \<subseteq> V \<and>
      resource_key ` V' \<subseteq> resource_key ` W \<and>
      {q \<in> V. resource_key q \<in> resource_key ` W \<and> kind_of q \<notin> {KindRoute, KindSID}} \<subseteq> V'"
proof (induction L arbitrary: s V)
  case Nil
  then show ?case by auto
next
  case (Cons r L)
  let ?V = "{q \<in> V. q \<noteq> r \<and> \<not> rests_on q r}"
  have r: "r \<in> V" "resource_key r \<notin> resource_key ` W"
    using Cons.prems(5) by auto
  have "removable r V"
    using wanted_removable [OF W Cons.prems(2) r(2)] Cons.prems(4,5) by auto
  then have seen: "sees dp I (snd (removeResource dp r s)) ?V"
    using contract_remove [OF dp Cons.prems(1) r(1)] by blast
  have kept: "q \<in> ?V" if "q \<in> V" "resource_key q \<in> resource_key ` W" "kind_of q \<notin> {KindRoute, KindSID}" for q
    using that r(2) \<open>removable r V\<close> rests_on_kinds [of q r] unfolding removable_def by auto
  have L: "set L = {q \<in> ?V. resource_key q \<notin> resource_key ` W}"
    using Cons.prems(3,4,5) by auto
  have "agrees ?V W"
    using Cons.prems(2) by (auto simp: agrees_def)
  from Cons.IH [OF seen this _ _ L] Cons.prems(3,4) obtain V' where
    V': "sees dp I (fold (\<lambda>r s. snd (removeResource dp r s)) L (snd (removeResource dp r s))) V'"
    "V' \<subseteq> ?V" "resource_key ` V' \<subseteq> resource_key ` W"
    "{q \<in> ?V. resource_key q \<in> resource_key ` W \<and> kind_of q \<notin> {KindRoute, KindSID}} \<subseteq> V'"
    by auto
  have "{q \<in> V. resource_key q \<in> resource_key ` W \<and> kind_of q \<notin> {KindRoute, KindSID}} \<subseteq>
      {q \<in> ?V. resource_key q \<in> resource_key ` W \<and> kind_of q \<notin> {KindRoute, KindSID}}"
    using kept by blast
  from subset_trans [OF this V'(4)] V'(1-3) show ?case
    by (intro exI [of _ V'] conjI) (simp, blast, simp_all)
qed

lemma wanted_fits:
  assumes W: "coherent W" and sub: "spec ` V \<subseteq> spec ` W" and r: "r \<in> W" "spec r \<notin> spec ` V"
    and below: "\<And>q. q \<in> W \<Longrightarrow> rests_on r q \<Longrightarrow> spec q \<in> spec ` V"
  shows "fits r V"
proof -
  have "slot_of q \<noteq> slot_of r" if q: "q \<in> V" for q
  proof
    assume slot: "slot_of q = slot_of r"
    obtain w where w: "w \<in> W" "spec q = spec w"
      using sub q by blast
    then have "slot_of w = slot_of r"
      using slot by (metis slot_of_spec)
    then have "w = r"
      using W w(1) r(1) unfolding coherent_def by (meson inj_onD)
    then show False
      using w r(2) q by (metis image_eqI)
  qed
  moreover have "supported r V"
    unfolding supported_def
  proof
    assume "rests_needed r"
    then obtain q where "q \<in> W" "rests_on r q"
      using W r(1) unfolding coherent_def supported_def by blast
    then obtain p where "p \<in> V" "spec p = spec q"
      using below by fastforce
    then show "\<exists>q\<in>V. rests_on r q"
      using \<open>rests_on r q\<close> by (metis rests_on_spec_right)
  qed
  ultimately show ?thesis
    by (simp add: fits_def)
qed

lemma add_phase:
  assumes dp: "dp_contract dp I W" and W: "coherent W"
  shows "sees dp I s V \<Longrightarrow> spec ` V \<subseteq> spec ` W \<Longrightarrow> set L \<subseteq> W \<Longrightarrow> distinct L \<Longrightarrow>
    spec ` set L \<inter> spec ` V = {} \<Longrightarrow> sorted_wrt (\<lambda>a b. \<not> rests_on a b) L \<Longrightarrow>
    (\<And>q. q \<in> W \<Longrightarrow> kind_of q \<in> {KindVRF, KindXFRM} \<Longrightarrow> spec q \<in> spec ` V \<or> q \<in> set L) \<Longrightarrow>
    \<exists>V'. sees dp I (fold (\<lambda>r s. snd (addResource dp r s)) L s) V' \<and> spec ` V' = spec ` V \<union> spec ` set L"
proof (induction L arbitrary: s V)
  case Nil
  then show ?case by auto
next
  case (Cons r L)
  have "fits r V"
  proof (rule wanted_fits [OF W Cons.prems(2)])
    show "r \<in> W" "spec r \<notin> spec ` V"
      using Cons.prems(3,5) by auto
    show "spec q \<in> spec ` V" if q: "q \<in> W" "rests_on r q" for q
      using Cons.prems(6) Cons.prems(7) [OF q(1)] q(2) rests_on_kinds [OF q(2)] by (cases "q = r") auto
  qed
  moreover have "r \<in> W"
    using Cons.prems(3) by simp
  ultimately obtain r' where
    r': "spec r' = spec r" "sees dp I (snd (addResource dp r s)) (insert r' V)"
    using contract_add [OF dp Cons.prems(1)] by metis
  have apart: "spec q \<noteq> spec r" if "q \<in> set L" for q
  proof
    assume "spec q = spec r"
    then have "resource_key q = resource_key r"
      by (metis resource_key_spec)
    then have "q = r"
      using W Cons.prems(3) that unfolding coherent_def by (meson inj_onD list.set_intros subsetD)
    then show False
      using Cons.prems(4) that by simp
  qed
  have "\<exists>V'. sees dp I (fold (\<lambda>r s. snd (addResource dp r s)) L (snd (addResource dp r s))) V' \<and>
      spec ` V' = spec ` insert r' V \<union> spec ` set L"
  proof (rule Cons.IH [OF r'(2)])
    have "spec r' \<notin> spec ` set L"
      using apart unfolding r'(1) by (metis imageE)
    then show "spec ` set L \<inter> spec ` insert r' V = {}"
      using Cons.prems(5) by auto
    show "spec q \<in> spec ` insert r' V \<or> q \<in> set L" if "q \<in> W" "kind_of q \<in> {KindVRF, KindXFRM}" for q
      using Cons.prems(7) [OF that] r'(1) by auto
  qed (use Cons.prems(2,3,4,6) r'(1) in auto)
  then show ?case
    using r'(1) by simp
qed

lemma keyed_vals:
  assumes "keyed m"
  shows "rkeys m = resource_key ` vals m" and "inj_on resource_key (vals m)"
    and "r \<in> vals m \<longleftrightarrow> mget m (resource_key r) = Some r"
proof -
  show vals: "r \<in> vals m \<longleftrightarrow> mget m (resource_key r) = Some r" for r
  proof
    assume "r \<in> vals m"
    then obtain k where "(k, r) \<in> set m"
      by (auto simp: vals_def)
    then have "mget m k = Some r" "resource_key r = k"
      using assms by (auto simp: keyed_def in_set_mget list_all_iff)
    then show "mget m (resource_key r) = Some r" by simp
  next
    assume "mget m (resource_key r) = Some r"
    then show "r \<in> vals m"
      using mget_in_set by (force simp: vals_def)
  qed
  show "rkeys m = resource_key ` vals m"
  proof (intro set_eqI iffI)
    fix k assume "k \<in> rkeys m"
    then obtain r where r: "mget m k = Some r"
      using rkeys_mget by blast
    then have "resource_key r = k"
      by (rule keyed_mget [OF assms])
    then show "k \<in> resource_key ` vals m"
      using r vals by blast
  next
    fix k assume "k \<in> resource_key ` vals m"
    then show "k \<in> rkeys m"
      using vals rkeys_mget by blast
  qed
  show "inj_on resource_key (vals m)"
    by (intro inj_onI) (metis vals option.inject)
qed

lemma Diff_sets_vals:
  assumes "keyed cur" and "keyed des"
  shows "set (df_Remove (Diff cur des)) = {q \<in> vals cur. resource_key q \<notin> resource_key ` vals des}"
    and "set (df_Add (Diff cur des)) = {q \<in> vals des. resource_key q \<notin> resource_key ` vals cur}"
    and "distinct (df_Remove (Diff cur des))" and "distinct (df_Add (Diff cur des))"
proof -
  have gen: "(\<lambda>k. the (mget m k)) ` set (keyDifference m n) = {q \<in> vals m. resource_key q \<notin> rkeys n}"
    if m: "keyed m" for m n
  proof -
    have keys: "set (keyDifference m n) = rkeys m - rkeys n"
      by (simp add: keyDifference_set rkeys_def)
    show ?thesis
    proof (intro set_eqI iffI)
      fix q assume "q \<in> (\<lambda>k. the (mget m k)) ` set (keyDifference m n)"
      then obtain k where k: "k \<in> rkeys m" "k \<notin> rkeys n" "q = the (mget m k)"
        using keys by blast
      then have "mget m k = Some q"
        using rkeys_mget [of k m] by auto
      then show "q \<in> {q \<in> vals m. resource_key q \<notin> rkeys n}"
        using k(2) keyed_mget [OF m] keyed_vals(3) [OF m, of q] by force
    next
      fix q assume q: "q \<in> {q \<in> vals m. resource_key q \<notin> rkeys n}"
      then have "mget m (resource_key q) = Some q"
        using keyed_vals(3) [OF m, of q] by blast
      then have "resource_key q \<in> set (keyDifference m n)" "q = the (mget m (resource_key q))"
        using q rkeys_mget keys by auto
      then show "q \<in> (\<lambda>k. the (mget m k)) ` set (keyDifference m n)"
        by (rule rev_image_eqI)
    qed
  qed
  show "set (df_Remove (Diff cur des)) = {q \<in> vals cur. resource_key q \<notin> resource_key ` vals des}"
    "set (df_Add (Diff cur des)) = {q \<in> vals des. resource_key q \<notin> resource_key ` vals cur}"
    using gen [OF assms(1), of des] gen [OF assms(2), of cur] keyed_vals(1) assms
    by (simp_all add: Diff_def)
  show "distinct (df_Remove (Diff cur des))" "distinct (df_Add (Diff cur des))"
    using Diff_keys [OF assms] keyDifference_distinct assms
    by (metis distinct_map keyed_def)+
qed

lemma removed:
  assumes dp: "dp_contract dp I W" and W: "coherent W" and seen: "sees dp I s V" and V: "agrees V W"
    and rs: "set rs = {q \<in> V. resource_key q \<notin> resource_key ` W}" "distinct rs"
  obtains V' where "sees dp I (inOrder (removeResource dp) removeOrder rs s) V'" and "V' \<subseteq> V"
    and "resource_key ` V' \<subseteq> resource_key ` W"
    and "\<And>q. q \<in> V \<Longrightarrow> resource_key q \<in> resource_key ` W \<Longrightarrow>
      kind_of q \<notin> {KindRoute, KindSID} \<or> rs = [] \<Longrightarrow> q \<in> V'"
proof (cases rs)
  case Nil
  then have "sees dp I (inOrder (removeResource dp) removeOrder rs s) V"
    using seen by (simp add: inOrder_fold orderedBy_def removeOrder_def)
  then show ?thesis
    by (rule that) (use rs(1) Nil in auto)
next
  case (Cons a list)
  have "set (orderedBy removeOrder rs) = {q \<in> V. resource_key q \<notin> resource_key ` W}"
    using rs(1) by (simp add: orderedBy_set order_all)
  from remove_phase [OF dp W seen V orderedBy_distinct [OF rs(2) order_all(3)] remove_sorted this]
  obtain V' where V': "sees dp I (inOrder (removeResource dp) removeOrder rs s) V'" "V' \<subseteq> V"
    "resource_key ` V' \<subseteq> resource_key ` W"
    "{q \<in> V. resource_key q \<in> resource_key ` W \<and> kind_of q \<notin> {KindRoute, KindSID}} \<subseteq> V'"
    unfolding inOrder_fold by blast
  show ?thesis
    by (rule that [OF V'(1-3)]) (use V'(4) Cons in blast)
qed

lemma agrees_specs: "agrees V W \<Longrightarrow> resource_key ` V \<subseteq> resource_key ` W \<Longrightarrow> spec ` V \<subseteq> spec ` W"
proof
  fix x
  assume a: "agrees V W" "resource_key ` V \<subseteq> resource_key ` W" and "x \<in> spec ` V"
  then obtain q where q: "q \<in> V" "x = spec q"
    by blast
  then obtain w where "w \<in> W" "resource_key q = resource_key w"
    using a(2) by blast
  then show "x \<in> spec ` W"
    using a(1) q unfolding agrees_def by blast
qed

lemma kept_spec:
  assumes V: "agrees V W" and q: "q \<in> W" "resource_key q \<in> resource_key ` V"
    and sub: "\<And>p. p \<in> V \<Longrightarrow> resource_key p \<in> resource_key ` W \<Longrightarrow> kind_of p = kind_of q \<Longrightarrow> p \<in> V'"
  shows "spec q \<in> spec ` V'"
proof -
  obtain p where p: "p \<in> V" "resource_key p = resource_key q"
    using q(2) by force
  then have same: "spec p = spec q"
    using V q(1) unfolding agrees_def by blast
  then have "p \<in> V'"
    using sub [OF p(1)] p(2) q(1) kind_of_spec [of p] kind_of_spec [of q] by simp
  then show ?thesis
    using same by (metis imageI)
qed

lemma new_apart:
  assumes "V \<subseteq> C" and "\<And>q. q \<in> A \<Longrightarrow> resource_key q \<notin> resource_key ` C"
  shows "spec ` A \<inter> spec ` V = {}"
proof -
  have "spec q \<noteq> spec p" if "q \<in> A" "p \<in> V" for p q
  proof
    assume "spec q = spec p"
    then have "resource_key q = resource_key p"
      by (metis resource_key_spec)
    then show False
      using assms that by (metis imageI subsetD)
  qed
  then show ?thesis by blast
qed

text \<open>
  One pass leaves only what is wanted, and of that everything but the routes and SIDs that fell;
  if nothing was removed, nothing fell.
\<close>

lemma pass:
  assumes dp: "dp_contract dp I (vals des)" and W: "coherent (vals des)" and keyed: "keyed cur" "keyed des"
    and seen: "I s" "readFIB dp s = (Inr cur, s)" and V: "agrees (vals cur) (vals des)"
  obtains t V where "Apply dp (Diff cur des) s = (None, t)" and "sees dp I t V"
    and "spec ` V \<subseteq> spec ` vals des"
    and "df_Remove (Diff cur des) = [] \<Longrightarrow> spec ` vals des \<subseteq> spec ` V"
proof -
  let ?W = "vals des"
  have "sees dp I s (vals cur)"
    using seen by (auto simp: sees_def)
  then obtain t0 where t0: "dp_EnsureClassificationBase dp s = (None, t0)" "sees dp I t0 (vals cur)"
    using contract_base [OF dp] by blast
  note sets = Diff_sets_vals [OF keyed]
  obtain V1 where V1: "sees dp I (inOrder (removeResource dp) removeOrder (df_Remove (Diff cur des)) t0) V1"
    "V1 \<subseteq> vals cur" "resource_key ` V1 \<subseteq> resource_key ` ?W"
    "\<And>q. q \<in> vals cur \<Longrightarrow> resource_key q \<in> resource_key ` ?W \<Longrightarrow>
       kind_of q \<notin> {KindRoute, KindSID} \<or> df_Remove (Diff cur des) = [] \<Longrightarrow> q \<in> V1"
    using removed [OF dp W t0(2) V sets(1,3)] by blast
  have "agrees V1 ?W"
    using V V1(2) unfolding agrees_def by blast
  then have sub: "spec ` V1 \<subseteq> spec ` ?W"
    using agrees_specs V1(3) by blast
  have there: "spec q \<in> spec ` V1"
    if "q \<in> ?W" "resource_key q \<in> resource_key ` vals cur"
      "kind_of q \<notin> {KindRoute, KindSID} \<or> df_Remove (Diff cur des) = []" for q
    by (rule kept_spec [OF V that(1,2)], rule V1(4)) (use that(3) in simp_all)
  let ?L = "orderedBy addOrder (df_Add (Diff cur des))"
  have L: "set ?L = {q \<in> ?W. resource_key q \<notin> resource_key ` vals cur}"
    using sets(2) by (simp add: orderedBy_set order_all)
  have apart: "spec ` set ?L \<inter> spec ` V1 = {}"
    by (rule new_apart [OF V1(2)]) (use L in simp)
  have "\<exists>V'. sees dp I (fold (\<lambda>r s. snd (addResource dp r s)) ?L
      (inOrder (removeResource dp) removeOrder (df_Remove (Diff cur des)) t0)) V' \<and>
      spec ` V' = spec ` V1 \<union> spec ` set ?L"
  proof (rule add_phase [OF dp W V1(1) sub _ _ apart add_sorted])
    show "set ?L \<subseteq> ?W"
      using L by blast
    show "distinct ?L"
      using sets(4) order_all(4) by (rule orderedBy_distinct)
    show "spec q \<in> spec ` V1 \<or> q \<in> set ?L" if "q \<in> ?W" "kind_of q \<in> {KindVRF, KindXFRM}" for q
    proof -
      have "kind_of q \<notin> {KindRoute, KindSID}"
        using that(2) by auto
      then show ?thesis
        using there [OF that(1)] that(1) L by (cases "resource_key q \<in> resource_key ` vals cur") simp_all
    qed
  qed
  then obtain V' where V': "sees dp I (inOrder (addResource dp) addOrder (df_Add (Diff cur des))
      (inOrder (removeResource dp) removeOrder (df_Remove (Diff cur des)) t0)) V'"
    "spec ` V' = spec ` V1 \<union> spec ` set ?L"
    unfolding inOrder_fold [of "addResource dp"] by blast
  show ?thesis
  proof (rule that [OF _ V'(1)])
    show "Apply dp (Diff cur des) s = (None, inOrder (addResource dp) addOrder (df_Add (Diff cur des))
        (inOrder (removeResource dp) removeOrder (df_Remove (Diff cur des)) t0))"
      using t0(1) by (simp add: Apply_def)
    show "spec ` V' \<subseteq> spec ` ?W"
      unfolding V'(2) using sub L by blast
    show "spec ` ?W \<subseteq> spec ` V'" if "df_Remove (Diff cur des) = []"
    proof
      fix x assume "x \<in> spec ` ?W"
      then obtain q where q: "q \<in> ?W" "x = spec q" by blast
      then show "x \<in> spec ` V'"
        unfolding V'(2) using there [OF q(1)] that L
        by (cases "resource_key q \<in> resource_key ` vals cur") simp_all
    qed
  qed
qed

section \<open>Three passes\<close>

lemma specs_keys: "spec ` V \<subseteq> spec ` W \<Longrightarrow> resource_key ` V \<subseteq> resource_key ` W"
  by (metis (no_types, lifting) image_cong image_image image_mono resource_key_spec)

lemma specs_agrees:
  assumes "spec ` V \<subseteq> spec ` W" and "inj_on resource_key W"
  shows "agrees V W"
  unfolding agrees_def
proof (intro ballI impI)
  fix q w
  assume q: "q \<in> V" and w: "w \<in> W" and key: "resource_key q = resource_key w"
  obtain w' where w': "w' \<in> W" "spec q = spec w'"
    using assms(1) q by blast
  then have "resource_key w' = resource_key w"
    using key by (metis resource_key_spec)
  then have "w' = w"
    using assms(2) w w'(1) by (meson inj_onD)
  then show "spec q = spec w"
    using w'(2) by simp
qed

lemma loop_converged:
  assumes "admit r ni = Inr ()" and "renderIntent (ni_Intent ni) = Inr des"
    and "readFIB dp s = (Inr cur, s)" and "rkeys cur = rkeys des"
  shows "pv_converged (fst (reconcileLoop dp ni (Suc n) r v s))"
proof -
  have "Plan dp r ni s = (Inr (cur, des), s)"
    using assms(1-3) by (simp add: Plan_Inr)
  moreover have "df_Add (Diff cur des) = []" "df_Remove (Diff cur des) = []"
    using Diff_empty_iff [OF readFIB_keyed renderIntent_keyed, OF assms(3,2)] assms(4) by auto
  ultimately show ?thesis
    by (simp add: Let_def)
qed

lemma loop_again:
  assumes "admit r ni = Inr ()" and "renderIntent (ni_Intent ni) = Inr des"
    and "readFIB dp s = (Inr cur, s)" and "rkeys cur \<noteq> rkeys des"
    and "Apply dp (Diff cur des) s = (None, t)"
  obtains v' where "reconcileLoop dp ni (Suc n) r v s = reconcileLoop dp ni n r v' t"
proof -
  have "Plan dp r ni s = (Inr (cur, des), s)"
    using assms(1-3) by (simp add: Plan_Inr)
  moreover have "\<not> (df_Add (Diff cur des) = [] \<and> df_Remove (Diff cur des) = [])"
    using Diff_empty_iff [OF readFIB_keyed renderIntent_keyed, OF assms(3,2)] assms(4) by auto
  ultimately show ?thesis
    by (rule loop_step [OF _ _ assms(5) that])
qed

text \<open>Where only wanted resources are installed, two more passes are enough.\<close>

lemma converge_two:
  assumes dp: "dp_contract dp I (vals des)" and admit: "admit r ni = Inr ()"
    and des: "renderIntent (ni_Intent ni) = Inr des" and W: "coherent (vals des)"
    and seen: "sees dp I s V" and sub: "spec ` V \<subseteq> spec ` vals des"
  shows "pv_converged (fst (reconcileLoop dp ni (Suc (Suc n)) r v s))"
proof -
  obtain cur where cur: "readFIB dp s = (Inr cur, s)" "vals cur = V" "I s"
    using seen by (auto simp: sees_def)
  note keyed = readFIB_keyed [OF cur(1)] renderIntent_keyed [OF des]
  show ?thesis
  proof (cases "rkeys cur = rkeys des")
    case True
    then show ?thesis
      by (rule loop_converged [OF admit des cur(1)])
  next
    case False
    have "agrees (vals cur) (vals des)"
      using specs_agrees [OF sub keyed_vals(2) [OF keyed(2)]] cur(2) by simp
    from pass [OF dp W keyed cur(3,1) this] obtain t V' where
      t: "Apply dp (Diff cur des) s = (None, t)" "sees dp I t V'" "spec ` V' \<subseteq> spec ` vals des"
      "df_Remove (Diff cur des) = [] \<Longrightarrow> spec ` vals des \<subseteq> spec ` V'"
      by metis
    obtain v' where "reconcileLoop dp ni (Suc (Suc n)) r v s = reconcileLoop dp ni (Suc n) r v' t"
      by (rule loop_again [OF admit des cur(1) False t(1)])
    moreover have "set (df_Remove (Diff cur des)) = {}"
      unfolding Diff_sets_vals(1) [OF keyed] cur(2) using specs_keys [OF sub] by auto
    then have "spec ` V' = spec ` vals des"
      using t(3,4) by auto
    then have "resource_key ` V' = resource_key ` vals des"
      using specs_keys [of V' "vals des"] specs_keys [of "vals des" V'] by simp
    moreover obtain cur' where cur': "readFIB dp t = (Inr cur', t)" "vals cur' = V'"
      using t(2) by (auto simp: sees_def)
    ultimately show ?thesis
      using loop_converged [OF admit des cur'(1), of n v'] keyed_vals(1) [OF readFIB_keyed [OF cur'(1)]]
        keyed_vals(1) [OF keyed(2)] by simp
  qed
qed

lemma converge_three:
  assumes dp: "dp_contract dp I (vals des)" and admit: "admit r ni = Inr ()"
    and des: "renderIntent (ni_Intent ni) = Inr des" and W: "coherent (vals des)"
    and I: "I s" and cur: "readFIB dp s = (Inr cur, s)" and V: "agrees (vals cur) (vals des)"
  shows "pv_converged (fst (reconcileLoop dp ni maxPasses r v s))"
proof (cases "rkeys cur = rkeys des")
  case True
  then show ?thesis
    unfolding maxPasses_def numeral_3_eq_3 by (rule loop_converged [OF admit des cur])
next
  case False
  from pass [OF dp W readFIB_keyed [OF cur] renderIntent_keyed [OF des] I cur V] obtain t V' where
    t: "Apply dp (Diff cur des) s = (None, t)" "sees dp I t V'" "spec ` V' \<subseteq> spec ` vals des"
    by metis
  obtain v' where "reconcileLoop dp ni (Suc (Suc (Suc 0))) r v s = reconcileLoop dp ni (Suc (Suc 0)) r v' t"
    by (rule loop_again [OF admit des cur False t(1)])
  then show ?thesis
    using converge_two [OF dp admit des W t(2,3)] by (simp only: maxPasses_def numeral_3_eq_3)
qed

end
