(* ===== verification/Netlink.thy ===== *)
theory Netlink
  imports Reconciler
begin

unbundle bit_operations_syntax

text \<open>
  The Linux dataplane (\<^verbatim>\<open>libs/dataplane/dataplane_netlink.go\<close>), over the requests it sends
  to the kernel.

  The kernel is not part of the code: it is a parameter, a record with the answer to every
  request and every listing, on a state of any type. The state of the model keeps, beside the
  kernel's, the requests sent so far, oldest first. An error carries the first words of its
  text. The requests to netfilter are queued by the library until a flush; what the queue
  does is the kernel's matter here.
\<close>

section \<open>The kernel's interface\<close>

datatype errno = ENODEV | ESRCH | EEXIST | ENOENT | LinkNotFound | OtherErrno nat

datatype link_kind = KVrf "32 word" | KXfrmi "32 word" | KOther string

record klink =
  kl_Index :: int
  kl_Name :: string
  kl_Group :: "32 word"
  kl_ParentIndex :: int
  kl_MasterIndex :: int
  kl_kind :: link_kind

datatype encap = NoEncap | SEG6LocalEncap int "64 word" | SEG6Encap "8 word list list" | OtherEncap

record kroute =
  kr_Dst :: "ip_net option"
  kr_Table :: "64 word"
  kr_Protocol :: int
  kr_Type :: int
  kr_Priority :: int
  kr_LinkIndex :: int
  kr_Gw :: "8 word list"
  kr_Via :: "8 word list"
  kr_Encap :: encap

record krule =
  ku_Priority :: int
  ku_Src :: "ip_net option"
  ku_Table :: "64 word"
  ku_Mark :: "32 word"
  ku_IifName :: string
  ku_Protocol :: "8 word"

datatype nft_expr =
  ExMetaNFProto | ExCmpEq nat | ExPayloadNetwork nat nat | ExBitwise "8 word list" "8 word list"
  | ExNtoh nat nat | ExRshift nat nat | ExLookup string | ExMetaSetMark

datatype kreq =
  LinkAdd klink | LinkDel klink | LinkSetUp klink | LinkSetMaster klink klink
  | RouteReplace kroute | RouteDel kroute | RuleAdd krule | RuleDel krule
  | WriteFile string string
  | NftAddTable string | NftAddChain string string | NftAddSet string string
  | NftFlushChain string string | NftAddRule string string "nft_expr list" | NftFlush
  | NftSetAdd string "8 word list" "8 word list" | NftSetDelete string "8 word list"
  | RunCommand "string list"

record 'k kernel =
  kn_do :: "kreq \<Rightarrow> 'k \<Rightarrow> errno option \<times> 'k"
  kn_linkByIndex :: "int \<Rightarrow> 'k \<Rightarrow> (errno, klink) result"
  kn_linkByName :: "string \<Rightarrow> 'k \<Rightarrow> (errno, klink) result"
  kn_linkList :: "'k \<Rightarrow> (errno, klink list) result"
  kn_routes :: "int \<Rightarrow> 'k \<Rightarrow> (errno, kroute list) result"
  kn_defaultRoutes :: "'k \<Rightarrow> (errno, kroute list) result"
  kn_rules :: "'k \<Rightarrow> (errno, krule list) result"
  kn_nftTable :: "string \<Rightarrow> 'k \<Rightarrow> errno option"
  kn_nftSet :: "string \<Rightarrow> 'k \<Rightarrow> errno option"
  kn_nftElements :: "string \<Rightarrow> 'k \<Rightarrow> (errno, (8 word list \<times> 8 word list) list) result"

record 'k host =
  ho_kernel :: 'k
  ho_log :: "kreq list"

definition send :: "'k kernel \<Rightarrow> kreq \<Rightarrow> 'k host \<Rightarrow> errno option \<times> 'k host" where
  "send K req h =
     (let (e, k) = kn_do K req (ho_kernel h)
      in (e, h \<lparr> ho_kernel := k, ho_log := ho_log h @ [req] \<rparr>))"

text \<open>A request whose failure, but for the errors in \<open>ok\<close>, ends the operation with an error.\<close>

definition must :: "errno set \<Rightarrow> dp_error \<Rightarrow> 'k kernel \<Rightarrow> kreq \<Rightarrow> ('k host \<Rightarrow> dp_error option \<times> 'k host) \<Rightarrow>
    'k host \<Rightarrow> dp_error option \<times> 'k host" where
  "must ok text K req rest h =
     (case send K req h of
        (None, h) \<Rightarrow> rest h
      | (Some e, h) \<Rightarrow> if e \<in> ok then rest h else (Some text, h))"

definition finished :: "'k host \<Rightarrow> dp_error option \<times> 'k host" where
  "finished h = (None, h)"

section \<open>Constants\<close>

definition vrfUnreachableMetricValue :: int where "vrfUnreachableMetricValue = 4278198272"
definition vrfStrictModePath :: string where "vrfStrictModePath = ''/proc/sys/net/vrf/strict_mode''"
definition MaetoLinkGroup :: "32 word" where "MaetoLinkGroup = 211"
definition MaetoRouteProto :: int where "MaetoRouteProto = 211"
definition MaetoSIDProto :: int where "MaetoSIDProto = 212"
definition MaetoSIDSegsProto :: int where "MaetoSIDSegsProto = 213"
definition seg6LocalActionEndDT46 :: int where "seg6LocalActionEndDT46 = 16"
definition NftablesClassificationTable :: string where "NftablesClassificationTable = ''maeto_class''"
definition NftablesClassificationChain :: string where "NftablesClassificationChain = ''classification''"
definition NftablesDSCPMarkMap :: string where "NftablesDSCPMarkMap = ''dscpmark''"

text \<open>\<^verbatim>\<open>unix.RTN_UNREACHABLE\<close>, \<^verbatim>\<open>unix.RT_TABLE_MAIN\<close> and the seg6local actions of the kernel's headers.\<close>

definition RTN_UNREACHABLE :: int where "RTN_UNREACHABLE = 7"
definition RT_TABLE_MAIN :: "64 word" where "RT_TABLE_MAIN = 254"

definition encapTypeOf :: "int \<Rightarrow> string option" where
  "encapTypeOf action =
     (if action = 8 then Some ''dt4''
      else if action = 7 then Some ''dt6''
      else if action = seg6LocalActionEndDT46 then Some ''dt46''
      else if action = 9 then Some ''b6''
      else if action = 2 then Some ''endX''
      else if action = 1 then Some ''end'' else None)"

section \<open>Prefixes\<close>

definition addr_masked :: "addr \<Rightarrow> nat \<Rightarrow> addr" where
  "addr_masked a n =
     (case a of AddrZero \<Rightarrow> AddrZero
      | Addr4 w \<Rightarrow> Addr4 (push_bit (32 - n) (drop_bit (32 - n) w))
      | Addr6 w \<Rightarrow> Addr6 (push_bit (128 - n) (drop_bit (128 - n) w)))"

text \<open>\<^verbatim>\<open>Prefix.Masked().Addr()\<close>: the zero address for an invalid prefix.\<close>

definition prefix_masked :: "prefix \<Rightarrow> addr" where
  "prefix_masked p =
     (if prefix_is_valid p then addr_masked (prefix_addr p) (nat (prefix_bits p)) else AddrZero)"

definition prefixToIPNet :: "prefix \<Rightarrow> ip_net" where
  "prefixToIPNet p =
     \<lparr> net_IP = addr_as_slice (prefix_masked p),
       net_ones = (if 0 \<le> prefix_bits p \<and> prefix_bits p \<le> addr_bitlen (prefix_addr p)
                   then prefix_bits p else 0) \<rparr>"

definition hostNet :: "addr \<Rightarrow> ip_net" where
  "hostNet a = \<lparr> net_IP = addr_as_slice a, net_ones = 128 \<rparr>"

definition plainRoute :: kroute where
  "plainRoute =
     \<lparr> kr_Dst = None, kr_Table = 0, kr_Protocol = 0, kr_Type = 0, kr_Priority = 0, kr_LinkIndex = 0,
       kr_Gw = [], kr_Via = [], kr_Encap = NoEncap \<rparr>"

section \<open>VRFs and tunnels\<close>

definition vrfCatchAll :: "64 word \<Rightarrow> kroute" where
  "vrfCatchAll tableID =
     plainRoute \<lparr> kr_Type := RTN_UNREACHABLE, kr_Table := tableID,
       kr_Priority := vrfUnreachableMetricValue, kr_Protocol := MaetoRouteProto,
       kr_Dst := Some \<lparr> net_IP = replicate 16 0, net_ones = 0 \<rparr> \<rparr>"

definition isLinkGone :: "errno \<Rightarrow> bool" where
  "isLinkGone e \<longleftrightarrow> e = ENODEV \<or> e = LinkNotFound"

definition RemoveVRF :: "'k kernel \<Rightarrow> int \<Rightarrow> 'k host dp_write" where
  "RemoveVRF K linkIndex h =
     (case kn_linkByIndex K linkIndex (ho_kernel h) of
        Inl e \<Rightarrow> if isLinkGone e then (None, h) else (Some ''lookup vrf'', h)
      | Inr link \<Rightarrow>
          (case kl_kind link of
             KVrf table \<Rightarrow>
               if kl_Group link \<noteq> MaetoLinkGroup then (Some ''vrf is not maeto owned'', h)
               else must {ESRCH} ''remove vrf catch-all'' K (RouteDel (vrfCatchAll (ucast table)))
                      (must {ENODEV} ''delete vrf device'' K (LinkDel link) finished) h
           | _ \<Rightarrow> (Some ''link is not a vrf'', h)))"

definition RemoveXFRMInterface :: "'k kernel \<Rightarrow> int \<Rightarrow> 'k host dp_write" where
  "RemoveXFRMInterface K linkIndex h =
     (case kn_linkByIndex K linkIndex (ho_kernel h) of
        Inl e \<Rightarrow> if isLinkGone e then (None, h) else (Some ''lookup xfrm interface'', h)
      | Inr link \<Rightarrow>
          (case kl_kind link of
             KXfrmi ifID \<Rightarrow>
               if kl_Group link \<noteq> MaetoLinkGroup then (Some ''xfrm interface is not maeto owned'', h)
               else must {ENODEV} ''delete xfrm interface'' K (LinkDel link) finished h
           | _ \<Rightarrow> (Some ''link is not an xfrm interface'', h)))"

text \<open>The end of \<^verbatim>\<open>UpsertVRF\<close>, for the device just made or found.\<close>

definition finishVRF :: "'k kernel \<Rightarrow> klink \<Rightarrow> 64 word \<Rightarrow> 'k host dp_write" where
  "finishVRF K vrf tableId =
     must {} ''bring up vrf device'' K (LinkSetUp vrf)
       (must {} ''install vrf catch-all'' K (RouteReplace (vrfCatchAll tableId))
         (must {} ''enable vrf strict mode'' K (WriteFile vrfStrictModePath ''1'') finished))"

definition newLink :: "string \<Rightarrow> int \<Rightarrow> link_kind \<Rightarrow> klink" where
  "newLink name parent kind =
     \<lparr> kl_Index = 0, kl_Name = name, kl_Group = MaetoLinkGroup, kl_ParentIndex = parent,
       kl_MasterIndex = 0, kl_kind = kind \<rparr>"

definition UpsertVRF :: "'k kernel \<Rightarrow> string \<Rightarrow> 64 word \<Rightarrow> 'k host dp_write" where
  "UpsertVRF K tableName tableId h =
     (let vrf = newLink tableName 0 (KVrf (ucast tableId))
      in case send K (LinkAdd vrf) h of
           (None, h) \<Rightarrow> finishVRF K vrf tableId h
         | (Some e, h) \<Rightarrow>
             if e \<noteq> EEXIST then (Some ''create vrf device'', h)
             else case kn_linkByName K tableName (ho_kernel h) of
                    Inl _ \<Rightarrow> (Some ''lookup existing vrf'', h)
                  | Inr existing \<Rightarrow>
                      (case kl_kind existing of
                         KVrf table \<Rightarrow>
                           if table \<noteq> ucast tableId then (Some ''vrf exists with another table'', h)
                           else finishVRF K existing tableId h
                       | _ \<Rightarrow> (Some ''exists but is not a vrf'', h)))"

definition InsertXFRMInterface :: "'k kernel \<Rightarrow> string \<Rightarrow> string \<Rightarrow> 32 word \<Rightarrow> string option \<Rightarrow>
    'k host dp_write" where
  "InsertXFRMInterface K interfaceName underLayIface ifID masterVRFName h =
     (case kn_linkByName K underLayIface (ho_kernel h) of
        Inl _ \<Rightarrow> (Some ''lookup underlay interface'', h)
      | Inr underlay \<Rightarrow>
          let xfrm = newLink interfaceName (kl_Index underlay) (KXfrmi ifID);
              up = must {} ''bring up xfrm device'' K (LinkSetUp xfrm) finished
          in must {} ''create xfrm device'' K (LinkAdd xfrm)
               (\<lambda>h. case masterVRFName of
                      None \<Rightarrow> up h
                    | Some name \<Rightarrow>
                        (case kn_linkByName K name (ho_kernel h) of
                           Inl _ \<Rightarrow> (Some ''lookup vrf'', h)
                         | Inr vrf \<Rightarrow> must {} ''enslave'' K (LinkSetMaster xfrm vrf) up h)) h)"

text \<open>The names of the interfaces by index; an unknown index has the empty name.\<close>

definition linkNames :: "klink list \<Rightarrow> (int, string) gomap" where
  "linkNames links = fold (\<lambda>l. mput (kl_Index l) (kl_Name l)) links []"

fun linksOfType :: "string \<Rightarrow> (int, string) gomap \<Rightarrow> klink list \<Rightarrow> dp_link list" where
  "linksOfType ifaceType names [] = []"
| "linksOfType ifaceType names (l # ls) =
     (let rest = linksOfType ifaceType names ls
      in if kl_Group l \<noteq> MaetoLinkGroup then rest
         else case kl_kind l of
             KXfrmi ifID \<Rightarrow>
               if ifaceType = ''xfrm''
               then LinkXFRM \<lparr> dxfrm_Name = kl_Name l, dxfrm_Index = kl_Index l,
                      dxfrm_ParentName = mget0 '''' names (kl_ParentIndex l),
                      dxfrm_MasterName = mget0 '''' names (kl_MasterIndex l), dxfrm_IfID = ifID \<rparr> # rest
               else rest
           | KVrf table \<Rightarrow>
               if ifaceType = ''vrf''
               then LinkVRF \<lparr> dvrf_Name = kl_Name l, dvrf_Index = kl_Index l, dvrf_TableID = table \<rparr> # rest
               else rest
           | KOther _ \<Rightarrow> rest)"

definition GetLinksByType :: "'k kernel \<Rightarrow> string \<Rightarrow> ('k host, dp_link list) dp_read" where
  "GetLinksByType K ifaceType h =
     (case kn_linkList K (ho_kernel h) of
        Inl _ \<Rightarrow> (Inl ''list links'', h)
      | Inr links \<Rightarrow> (Inr (linksOfType ifaceType (linkNames links) links), h))"

section \<open>Rules\<close>

definition maetoRule :: "int \<Rightarrow> prefix option \<Rightarrow> 64 word \<Rightarrow> 64 word \<Rightarrow> string \<Rightarrow> krule" where
  "maetoRule priority src tableID mark iifName =
     \<lparr> ku_Priority = priority, ku_Src = map_option prefixToIPNet src, ku_Table = tableID,
       ku_Mark = ucast mark, ku_IifName = iifName, ku_Protocol = word_of_int MaetoRouteProto \<rparr>"

definition UpsertRule :: "'k kernel \<Rightarrow> int \<Rightarrow> prefix option \<Rightarrow> 64 word \<Rightarrow> 64 word \<Rightarrow> string \<Rightarrow>
    'k host dp_write" where
  "UpsertRule K priority src tableID mark iifName =
     must {EEXIST} ''add rule'' K (RuleAdd (maetoRule priority src tableID mark iifName)) finished"

definition RemoveRule :: "'k kernel \<Rightarrow> int \<Rightarrow> prefix option \<Rightarrow> 64 word \<Rightarrow> 64 word \<Rightarrow> string \<Rightarrow>
    'k host dp_write" where
  "RemoveRule K priority src tableID mark iifName =
     must {ENOENT} ''delete rule'' K (RuleDel (maetoRule priority src tableID mark iifName)) finished"

fun maetoRules :: "krule list \<Rightarrow> dp_rule list" where
  "maetoRules [] = []"
| "maetoRules (rule # rules) =
     (let out = (\<lambda>src. \<lparr> drule_Priority = ku_Priority rule, drule_Src = src, drule_Table = ku_Table rule,
                         drule_Mark = ucast (ku_Mark rule), drule_Iif = ku_IifName rule \<rparr>)
      in if ku_Protocol rule \<noteq> word_of_int MaetoRouteProto then maetoRules rules
         else case ku_Src rule of
             None \<Rightarrow> out None # maetoRules rules
           | Some src \<Rightarrow>
               if addr_from_slice (net_IP src) = AddrZero then maetoRules rules
               else out (Some (net_prefix src)) # maetoRules rules)"

definition GetRules :: "'k kernel \<Rightarrow> ('k host, dp_rule list) dp_read" where
  "GetRules K h =
     (case kn_rules K (ho_kernel h) of
        Inl _ \<Rightarrow> (Inl ''list rules'', h) | Inr rules \<Rightarrow> (Inr (maetoRules rules), h))"

section \<open>Prefix routes\<close>

definition RemovePrefixRoute :: "'k kernel \<Rightarrow> prefix \<Rightarrow> 64 word \<Rightarrow> 'k host dp_write" where
  "RemovePrefixRoute K prefix tableID =
     must {ESRCH} ''delete prefix route'' K
       (RouteDel (plainRoute \<lparr> kr_Dst := Some (prefixToIPNet prefix), kr_Table := tableID,
                    kr_Protocol := MaetoRouteProto \<rparr>)) finished"

definition GetPrefixRoutes :: "'k kernel \<Rightarrow> ('k host, dp_route list) dp_read" where
  "GetPrefixRoutes K h =
     (case kn_routes K MaetoRouteProto (ho_kernel h) of
        Inl _ \<Rightarrow> (Inl ''list maeto routes'', h)
      | Inr routes \<Rightarrow>
          (case kn_linkList K (ho_kernel h) of
             Inl _ \<Rightarrow> (Inl ''list links'', h)
           | Inr links \<Rightarrow>
               (Inr (map (\<lambda>r. \<lparr> droute_Dev = mget0 '''' (linkNames links) (kr_LinkIndex r),
                                droute_Dst = kr_Dst r, droute_Table = kr_Table r,
                                droute_Via = kr_Via r \<rparr>) routes), h)))"

fun firstVrf :: "64 word \<Rightarrow> klink list \<Rightarrow> klink option" where
  "firstVrf tableID [] = None"
| "firstVrf tableID (l # ls) =
     (case kl_kind l of
        KVrf table \<Rightarrow> if ucast table = tableID then Some l else firstVrf tableID ls
      | _ \<Rightarrow> firstVrf tableID ls)"

definition vrfByTable :: "'k kernel \<Rightarrow> 64 word \<Rightarrow> 'k host \<Rightarrow> (dp_error, klink) result" where
  "vrfByTable K tableID h =
     (case kn_linkList K (ho_kernel h) of
        Inl _ \<Rightarrow> Inl ''list links''
      | Inr links \<Rightarrow>
          (case firstVrf tableID links of None \<Rightarrow> Inl ''no vrf device owns table'' | Some l \<Rightarrow> Inr l))"

definition vrfByTableOrNil :: "'k kernel \<Rightarrow> 64 word \<Rightarrow> 'k host \<Rightarrow> klink option" where
  "vrfByTableOrNil K tableID h =
     (if tableID = RT_TABLE_MAIN \<or> tableID = 0 then None
      else case vrfByTable K tableID h of Inl _ \<Rightarrow> None | Inr l \<Rightarrow> Some l)"

definition InsertPrefixRoute :: "'k kernel \<Rightarrow> string \<Rightarrow> 64 word \<Rightarrow> prefix \<Rightarrow> addr \<Rightarrow> 'k host dp_write" where
  "InsertPrefixRoute K tunnelIface tableID prefix via h =
     (let route = plainRoute \<lparr> kr_Table := tableID, kr_Protocol := MaetoRouteProto,
                    kr_Dst := Some (prefixToIPNet prefix) \<rparr>;
          install = (\<lambda>route. must {} ''insert prefix route'' K (RouteReplace route) finished)
      in if addr_is_valid via then install (route \<lparr> kr_Gw := addr_as_slice via \<rparr>) h
         else case kn_linkByName K tunnelIface (ho_kernel h) of
             Inl _ \<Rightarrow> (Some ''lookup tunnel interface'', h)
           | Inr iface \<Rightarrow>
               let foreign = (case vrfByTableOrNil K tableID h of
                                None \<Rightarrow> False | Some vrf \<Rightarrow> kl_MasterIndex iface \<noteq> kl_Index vrf)
               in if foreign then (Some ''is not enslaved'', h)
                  else install (route \<lparr> kr_LinkIndex := kl_Index iface \<rparr>) h)"

text \<open>\<^verbatim>\<open>net.IP.String\<close> for the two lengths of an address: an embedded IPv4 address is printed as such.\<close>

definition ip_String :: "8 word list \<Rightarrow> string" where
  "ip_String bs =
     (if length bs = 16 \<and> take 12 bs = replicate 10 0 @ [255, 255]
      then addr_string (addr_from_slice (drop 12 bs)) else addr_string (addr_from_slice bs))"

text \<open>The loop keeps the first route of the lowest metric that has a gateway and a device.\<close>

fun bestDefault :: "kroute option \<Rightarrow> kroute list \<Rightarrow> kroute option" where
  "bestDefault best [] = best"
| "bestDefault best (r # rs) =
     (if kr_Gw r = [] \<or> kr_LinkIndex r = 0 then bestDefault best rs
      else case best of
          None \<Rightarrow> bestDefault (Some r) rs
        | Some b \<Rightarrow> bestDefault (Some (if kr_Priority r < kr_Priority b then r else b)) rs)"

definition GetDefaultRouteAndDev :: "'k kernel \<Rightarrow> ('k host, string \<times> string) dp_read" where
  "GetDefaultRouteAndDev K h =
     (case kn_defaultRoutes K (ho_kernel h) of
        Inl _ \<Rightarrow> (Inl ''list ipv6 default routes'', h)
      | Inr routes \<Rightarrow>
          (case bestDefault None routes of
             None \<Rightarrow> (Inl ''no ipv6 default route with a gateway'', h)
           | Some r \<Rightarrow>
               (case kn_linkByIndex K (kr_LinkIndex r) (ho_kernel h) of
                  Inl _ \<Rightarrow> (Inl ''resolve link index'', h)
                | Inr link \<Rightarrow> (Inr (ip_String (kr_Gw r), kl_Name link), h))))"

section \<open>SIDs and segment routes\<close>

definition UpsertDT46SID :: "'k kernel \<Rightarrow> addr \<Rightarrow> 64 word \<Rightarrow> 'k host dp_write" where
  "UpsertDT46SID K sid vrfTableID h =
     (case vrfByTable K vrfTableID h of
        Inl _ \<Rightarrow> (Some ''lookup vrf by table'', h)
      | Inr vrf \<Rightarrow>
          must {} ''upsert DT46 sid'' K
            (RouteReplace (plainRoute \<lparr> kr_Dst := Some (hostNet sid), kr_Table := RT_TABLE_MAIN,
               kr_Protocol := MaetoSIDProto, kr_LinkIndex := kl_Index vrf,
               kr_Encap := SEG6LocalEncap seg6LocalActionEndDT46 vrfTableID \<rparr>)) finished h)"

definition RemoveSID :: "'k kernel \<Rightarrow> addr \<Rightarrow> 'k host dp_write" where
  "RemoveSID K sid =
     must {} ''remove sid'' K
       (RouteDel (plainRoute \<lparr> kr_Dst := Some (hostNet sid), kr_Table := RT_TABLE_MAIN,
          kr_Protocol := MaetoSIDProto \<rparr>)) finished"

fun decodeSIDs :: "bool \<Rightarrow> string option \<Rightarrow> (int, string) gomap \<Rightarrow> kroute list \<Rightarrow>
    (dp_error, dp_sid list) result" where
  "decodeSIDs owned FilterBy names [] = Inr []"
| "decodeSIDs owned FilterBy names (r # rs) =
     (let rest = decodeSIDs owned FilterBy names rs
      in case kr_Encap r of
           SEG6LocalEncap action vrfTable \<Rightarrow>
             (case encapTypeOf action of
                None \<Rightarrow> if owned then Inl ''unknown encap action type'' else rest
              | Some encapType \<Rightarrow>
                  if FilterBy \<noteq> None \<and> FilterBy \<noteq> Some encapType then rest
                  else bind_result rest (\<lambda>sids. Inr (\<lparr> dsid_Dev = mget0 '''' names (kr_LinkIndex r),
                         dsid_Dst = kr_Dst r, dsid_Table = kr_Table r, dsid_EncapType = encapType,
                         dsid_VrfTableID = vrfTable \<rparr> # sids)))
         | _ \<Rightarrow> if owned then Inl ''failed to parse sid encap type'' else rest)"

definition GetSIDs :: "'k kernel \<Rightarrow> string option \<Rightarrow> int option \<Rightarrow> ('k host, dp_sid list) dp_read" where
  "GetSIDs K FilterBy GroupingKey h =
     (let proto = (case GroupingKey of None \<Rightarrow> MaetoSIDProto | Some g \<Rightarrow> g);
          filterProto = (if 0 < proto then proto else 0)
      in case kn_routes K filterProto (ho_kernel h) of
           Inl _ \<Rightarrow> (Inl ''list maeto sids'', h)
         | Inr routes \<Rightarrow>
             (case kn_linkList K (ho_kernel h) of
                Inl _ \<Rightarrow> (Inl ''list links'', h)
              | Inr links \<Rightarrow>
                  (decodeSIDs (proto = MaetoSIDProto) FilterBy (linkNames links) routes, h)))"

text \<open>\<^verbatim>\<open>netip.AddrFrom16\<close> of \<^verbatim>\<open>IP.To16()\<close>; other lengths do not occur in a segment list.\<close>

definition addr_from16 :: "8 word list \<Rightarrow> addr" where
  "addr_from16 bs =
     Addr6 (bytes_word (if length bs = 4 then replicate 10 0 @ [255, 255] @ bs else bs))"

fun decodeSRRoutes :: "kroute list \<Rightarrow> dp_sr_route list" where
  "decodeSRRoutes [] = []"
| "decodeSRRoutes (r # rs) =
     (case kr_Encap r of
        SEG6Encap segments \<Rightarrow>
          \<lparr> dsrr_Dst = kr_Dst r, dsrr_Table = kr_Table r, dsrr_Color = 0,
            dsrr_Segments = map addr_from16 segments \<rparr> # decodeSRRoutes rs
      | _ \<Rightarrow> decodeSRRoutes rs)"

definition GetSRRoutes :: "'k kernel \<Rightarrow> ('k host, dp_sr_route list) dp_read" where
  "GetSRRoutes K h =
     (case kn_routes K MaetoSIDSegsProto (ho_kernel h) of
        Inl _ \<Rightarrow> (Inl ''list maeto SR routes'', h) | Inr routes \<Rightarrow> (Inr (decodeSRRoutes routes), h))"

definition InsertSRRouteForPrefix :: "'k kernel \<Rightarrow> prefix \<Rightarrow> 64 word \<Rightarrow> addr list \<Rightarrow> 'k host dp_write" where
  "InsertSRRouteForPrefix K prefix tableID segs h =
     (if segs = [] then (Some ''no segments given'', h)
      else if \<not> list_all addr_is6 segs then (Some ''segment is not IPv6'', h)
      else case kn_linkByName K ''sr0'' (ho_kernel h) of
          Inl _ \<Rightarrow> (Some ''lookup tunnel interface'', h)
        | Inr iface \<Rightarrow>
            must {} ''insert srv6 encap route'' K
              (RouteReplace (plainRoute \<lparr> kr_Table := tableID, kr_Protocol := MaetoSIDSegsProto,
                 kr_Dst := Some (prefixToIPNet prefix), kr_LinkIndex := kl_Index iface,
                 kr_Encap := SEG6Encap (map addr_as_slice segs) \<rparr>)) finished h)"

definition RemoveSRRouteForPrefix :: "'k kernel \<Rightarrow> prefix \<Rightarrow> 64 word \<Rightarrow> 'k host dp_write" where
  "RemoveSRRouteForPrefix K prefix tableID =
     must {ESRCH} ''delete sr prefix route'' K
       (RouteDel (plainRoute \<lparr> kr_Dst := Some (prefixToIPNet prefix), kr_Table := tableID,
                    kr_Protocol := MaetoSIDSegsProto \<rparr>)) finished"

fun joinComma :: "string list \<Rightarrow> string" where
  "joinComma [] = ''''"
| "joinComma [s] = s"
| "joinComma (s # ss) = s @ '','' @ joinComma ss"

definition UpsertPolicy :: "'k kernel \<Rightarrow> string \<Rightarrow> string \<Rightarrow> string \<Rightarrow> string \<Rightarrow> string list \<Rightarrow>
    'k host dp_write" where
  "UpsertPolicy K nhid dtsid vrfTableId vrfTableName sids =
     must {} ''upsert seg6 nexthop'' K
       (RunCommand [''ip'', ''-6'', ''nexthop'', ''replace'', ''id'', nhid, ''encap'', ''seg6'',
          ''mode'', ''encap'', ''segs'', joinComma (sids @ [dtsid]), ''dev'', ''sr0'']) finished"

definition UpsertRouteToPolicy :: "'k kernel \<Rightarrow> string \<Rightarrow> string \<Rightarrow> string \<Rightarrow> 'k host dp_write" where
  "UpsertRouteToPolicy K dest vrfTableId nhid =
     must {} ''upsert route'' K
       (RunCommand [''ip'', ''-6'', ''route'', ''replace'', dest, ''table'', vrfTableId, ''nhid'', nhid])
       finished"

section \<open>Classification\<close>

text \<open>The rule that sets the mark of an IPv6 packet from its DSCP through the map.\<close>

definition classificationRule :: "nft_expr list" where
  "classificationRule =
     [ExMetaNFProto, ExCmpEq 10, ExPayloadNetwork 0 2, ExBitwise [0x0f, 0xc0] [0, 0], ExNtoh 2 2,
      ExRshift 2 6, ExLookup NftablesDSCPMarkMap, ExMetaSetMark]"

definition EnsureClassificationBase :: "'k kernel \<Rightarrow> 'k host dp_write" where
  "EnsureClassificationBase K h =
     (let table = NftablesClassificationTable; chain = NftablesClassificationChain;
          h = snd (send K (NftAddTable table) h);
          h = snd (send K (NftAddChain table chain) h)
      in must {} ''add set'' K (NftAddSet table NftablesDSCPMarkMap)
           (\<lambda>h. let h = snd (send K (NftFlushChain table chain) h);
                    h = snd (send K (NftAddRule table chain classificationRule) h)
                in must {} ''flush table'' K NftFlush finished h) h)"

definition inClassSet :: "'k kernel \<Rightarrow> 'k host \<Rightarrow> dp_error option" where
  "inClassSet K h =
     (if kn_nftTable K NftablesClassificationTable (ho_kernel h) \<noteq> None then Some ''list table''
      else if kn_nftSet K NftablesDSCPMarkMap (ho_kernel h) \<noteq> None then Some ''get set'' else None)"

definition le_bytes :: "32 word \<Rightarrow> 8 word list" where
  "le_bytes w = rev (word_bytes 4 w)"

definition InsertClassification :: "'k kernel \<Rightarrow> 32 word \<Rightarrow> 32 word \<Rightarrow> 'k host dp_write" where
  "InsertClassification K classifier mark h =
     (case inClassSet K h of
        Some e \<Rightarrow> (Some e, h)
      | None \<Rightarrow>
          must {} ''add element'' K (NftSetAdd NftablesDSCPMarkMap [ucast classifier] (le_bytes mark)) finished h)"

definition RemoveClassification :: "'k kernel \<Rightarrow> 32 word \<Rightarrow> 'k host dp_write" where
  "RemoveClassification K classifier h =
     (case inClassSet K h of
        Some e \<Rightarrow> (Some e, h)
      | None \<Rightarrow>
          must {} ''delete element'' K (NftSetDelete NftablesDSCPMarkMap (le_bytes classifier)) finished h)"

text \<open>An element of the map has a key of one byte and a value of four.\<close>

definition GetClassifications :: "'k kernel \<Rightarrow> ('k host, dp_class list) dp_read" where
  "GetClassifications K h =
     (case inClassSet K h of
        Some e \<Rightarrow> (Inl e, h)
      | None \<Rightarrow>
          (case kn_nftElements K NftablesDSCPMarkMap (ho_kernel h) of
             Inl _ \<Rightarrow> (Inl ''get set elements'', h)
           | Inr es \<Rightarrow>
               (Inr (map (\<lambda>(key, val). \<lparr> dclass_Classifier = bytes_word (take 1 key),
                                         dclass_Mark = bytes_word (rev (take 4 val)) \<rparr>) es), h)))"

section \<open>The dataplane\<close>

definition LinuxNetlink :: "'k kernel \<Rightarrow> 'k host dataplane" where
  "LinuxNetlink K =
     \<lparr> dp_UpsertVRF = UpsertVRF K, dp_RemoveVRF = RemoveVRF K, dp_GetLinksByType = GetLinksByType K,
       dp_InsertXFRMInterface = InsertXFRMInterface K, dp_RemoveXFRMInterface = RemoveXFRMInterface K,
       dp_UpsertRule = UpsertRule K, dp_RemoveRule = RemoveRule K, dp_GetRules = GetRules K,
       dp_InsertPrefixRoute = InsertPrefixRoute K, dp_RemovePrefixRoute = RemovePrefixRoute K,
       dp_GetPrefixRoutes = GetPrefixRoutes K,
       dp_InsertSRRouteForPrefix = InsertSRRouteForPrefix K, dp_GetSRRoutes = GetSRRoutes K,
       dp_RemoveSRRouteForPrefix = RemoveSRRouteForPrefix K,
       dp_UpsertDT46SID = UpsertDT46SID K, dp_RemoveSID = RemoveSID K, dp_GetSIDs = GetSIDs K,
       dp_EnsureClassificationBase = EnsureClassificationBase K,
       dp_InsertClassification = InsertClassification K, dp_GetClassifications = GetClassifications K,
       dp_RemoveClassification = RemoveClassification K \<rparr>"

end
