(* ===== verification/Netlink_Correct.thy ===== *)
theory Netlink_Correct
  imports Netlink Reconciler_Correct
begin

unbundle bit_operations_syntax

text \<open>
  What the reconciler does to the kernel through the Linux dataplane: it changes only what
  carries Maeto's marks, prefixes and addresses come back as they were written, and the
  catch-all route that keeps a tenant's lookups inside its VRF does not survive.
\<close>

section \<open>What every operation of the dataplane keeps, a reconcile keeps\<close>

locale dataplane_rel =
  fixes dp :: "'s dataplane"
    and ext :: "'s \<Rightarrow> 's \<Rightarrow> bool"
  assumes ext_refl: "ext s s"
    and ext_trans: "ext s s1 \<Longrightarrow> ext s1 s2 \<Longrightarrow> ext s s2"
    and ext_UpsertVRF: "ext s (snd (dp_UpsertVRF dp n tb s))"
    and ext_RemoveVRF: "ext s (snd (dp_RemoveVRF dp i s))"
    and ext_GetLinks: "ext s (snd (dp_GetLinksByType dp ty s))"
    and ext_InsertXFRM: "ext s (snd (dp_InsertXFRMInterface dp n un ifid mv s))"
    and ext_RemoveXFRM: "ext s (snd (dp_RemoveXFRMInterface dp i s))"
    and ext_UpsertRule: "ext s (snd (dp_UpsertRule dp i src tb m iif s))"
    and ext_RemoveRule: "ext s (snd (dp_RemoveRule dp i src tb m iif s))"
    and ext_GetRules: "ext s (snd (dp_GetRules dp s))"
    and ext_InsertRoute: "ext s (snd (dp_InsertPrefixRoute dp n tb p v s))"
    and ext_RemoveRoute: "ext s (snd (dp_RemovePrefixRoute dp p tb s))"
    and ext_GetRoutes: "ext s (snd (dp_GetPrefixRoutes dp s))"
    and ext_InsertSR: "ext s (snd (dp_InsertSRRouteForPrefix dp p tb segs s))"
    and ext_GetSR: "ext s (snd (dp_GetSRRoutes dp s))"
    and ext_RemoveSR: "ext s (snd (dp_RemoveSRRouteForPrefix dp p tb s))"
    and ext_UpsertSID: "ext s (snd (dp_UpsertDT46SID dp a tb s))"
    and ext_RemoveSID: "ext s (snd (dp_RemoveSID dp a s))"
    and ext_GetSIDs: "ext s (snd (dp_GetSIDs dp f g s))"
    and ext_Ensure: "ext s (snd (dp_EnsureClassificationBase dp s))"
    and ext_InsertClass: "ext s (snd (dp_InsertClassification dp c mk s))"
    and ext_GetClass: "ext s (snd (dp_GetClassifications dp s))"
    and ext_RemoveClass: "ext s (snd (dp_RemoveClassification dp c s))"
begin

lemma ext_add: "ext s (snd (addResource dp r s))"
  by (cases r) (simp_all add: Let_def ext_UpsertVRF ext_InsertXFRM ext_InsertRoute ext_UpsertRule
      ext_UpsertSID ext_InsertSR ext_InsertClass)

lemma ext_remove: "ext s (snd (removeResource dp r s))"
  by (cases r) (simp_all add: ext_RemoveVRF ext_RemoveXFRM ext_RemoveRoute ext_RemoveRule
      ext_RemoveSID ext_RemoveSR ext_RemoveClass)

lemma ext_fold: "(\<And>x s. ext s (f x s)) \<Longrightarrow> ext s (fold f xs s)"
  by (induction xs arbitrary: s) (auto intro: ext_refl ext_trans)

lemma ext_inOrder: "(\<And>r s. ext s (snd (act r s))) \<Longrightarrow> ext s (inOrder act kinds rs s)"
  unfolding inOrder_def by (intro ext_fold) (simp add: ext_refl)

lemma ext_Apply: "ext s (snd (Apply dp d s))"
proof -
  obtain e t where base: "dp_EnsureClassificationBase dp s = (e, t)"
    by fastforce
  then have "ext s t"
    using ext_Ensure [of s] by simp
  moreover have "ext u (inOrder (addResource dp) kinds rs u)" "ext u (inOrder (removeResource dp) kinds rs u)"
    for u kinds rs
    using ext_add ext_remove by (auto intro: ext_inOrder)
  ultimately show ?thesis
    using base by (cases e) (simp_all add: Apply_def, meson ext_trans)
qed

lemma ext_reading:
  assumes "\<And>s. ext s (snd (m s))"
  shows "ext s (snd (reading what m s))"
proof -
  obtain x t where "m s = (x, t)"
    by fastforce
  then show ?thesis
    using assms [of s] by (cases x) (simp_all add: reading_def)
qed

lemma ext_then_do:
  assumes "\<And>s. ext s (snd (m s))" and "\<And>x s. ext s (snd (f x s))"
  shows "ext s (snd (then_do m f s))"
proof -
  obtain x t where step: "m s = (x, t)"
    by fastforce
  then have "ext s t"
    using assms(1) [of s] by simp
  then have "ext s (snd (f y t))" for y
    using assms(2) by (rule ext_trans)
  then show ?thesis
    using step \<open>ext s t\<close> by (cases x) (simp_all add: then_do_def)
qed

lemma ext_readFIB: "ext s (snd (readFIB dp s))"
  unfolding readFIB_def
  by (intro ext_then_do ext_reading ext_GetLinks ext_GetRoutes ext_GetRules ext_GetSIDs ext_GetSR
      ext_GetClass) (simp_all add: ext_refl)

lemma ext_Plan: "ext s (snd (Plan dp r ni s))"
  unfolding Plan_def by (intro ext_then_do ext_readFIB) (simp_all add: ext_refl)

lemma ext_loop: "ext s (snd (snd (reconcileLoop dp ni n r v s)))"
proof (induction n arbitrary: v s)
  case (Suc n)
  obtain pl t where plan: "Plan dp r ni s = (pl, t)"
    by fastforce
  then have "ext s t"
    using ext_Plan [of s r ni] by simp
  show ?case
  proof (cases pl)
    case (Inl e)
    then show ?thesis
      using plan \<open>ext s t\<close> by (simp add: Let_def)
  next
    case (Inr cd)
    then obtain cur des where cd: "pl = Inr (cur, des)"
      by (cases cd) auto
    obtain e u where ap: "Apply dp (Diff cur des) t = (e, u)"
      by fastforce
    then have "ext s u"
      using ext_Apply [of t "Diff cur des"] ext_trans [OF \<open>ext s t\<close>] by simp
    then have "ext s (snd (snd (reconcileLoop dp ni n r w u)))" for w
      using Suc.IH by (rule ext_trans)
    then show ?thesis
      using plan cd ap \<open>ext s t\<close> \<open>ext s u\<close> by (cases e) (simp_all add: Let_def)
  qed
qed (simp add: ext_refl)

lemma ext_Reconcile: "ext s (oc_state (Reconcile dp marshal now ni r s))"
  using ext_loop [of s ni maxPasses r pass_start]
  by (simp add: Reconcile_def case_prod_beta Let_def)

lemma ext_serveFeed: "ext s (snd (serveFeed dp marshal feed r s))"
proof (induction feed arbitrary: r s)
  case (Cons x feed)
  obtain now ni where x: "x = (now, ni)"
    by fastforce
  let ?out = "Reconcile dp marshal now ni r s"
  have "ext s (oc_state ?out)"
    by (rule ext_Reconcile)
  then show ?case
    using ext_trans [OF _ Cons.IH [of "oc_state ?out" "oc_reconciler ?out"]]
    by (simp add: x Let_def)
qed (simp add: ext_refl)

text \<open>Every resource of the kinds in order is visited.\<close>

lemma fold_visits:
  assumes "\<And>x s. ext s (f x s)" and "x \<in> set xs"
  shows "\<exists>u. ext s u \<and> ext (f x u) (fold f xs s)"
  using assms(2)
proof (induction xs arbitrary: s)
  case (Cons y ys)
  show ?case
  proof (cases "x = y")
    case True
    then show ?thesis
      using ext_refl ext_fold [of f, OF assms(1)] by auto
  next
    case False
    then obtain u where "ext (f y s) u" "ext (f x u) (fold f ys (f y s))"
      using Cons by auto
    then show ?thesis
      using ext_trans [OF assms(1)] by auto
  qed
qed simp

lemma inOrder_visits:
  assumes act: "\<And>r s. ext s (snd (act r s))" and r: "r \<in> set rs" "kind_of r \<in> set kinds"
  shows "\<exists>u. ext s u \<and> ext (snd (act r u)) (inOrder act kinds rs s)"
proof -
  let ?f = "\<lambda>kind. fold (\<lambda>res s. if kind_of res \<noteq> kind then s else snd (act res s)) rs"
  have one: "ext s (if kind_of q \<noteq> k then s else snd (act q s))" for q k s
    by (simp add: act ext_refl)
  then have "ext s (?f k s)" for k s
    by (intro ext_fold)
  from fold_visits [of ?f, OF this r(2)] obtain u where
    u: "ext s u" "ext (?f (kind_of r) u) (inOrder act kinds rs s)"
    unfolding inOrder_def by blast
  moreover obtain w where "ext u w" "ext (snd (act r w)) (?f (kind_of r) u)"
    using fold_visits [of "\<lambda>res s. if kind_of res \<noteq> kind_of r then s else snd (act res s)", OF one r(1), of u]
    by auto
  ultimately show ?thesis
    by (meson ext_trans)
qed

text \<open>A resource that the first plan finds superfluous is removed in the first pass.\<close>

lemma Reconcile_removes:
  assumes plan: "Plan dp r ni s = (Inr (cur, des), t)" and res: "res \<in> set (df_Remove (Diff cur des))"
    and base: "dp_EnsureClassificationBase dp t = (None, b)"
  shows "\<exists>u. ext s u \<and> ext (snd (removeResource dp res u)) (oc_state (Reconcile dp marshal now ni r s))"
proof -
  have "kind_of res \<in> set removeOrder"
    by (cases res) (simp_all add: removeOrder_def)
  from inOrder_visits [of "removeResource dp", OF ext_remove res this] obtain u where
    u: "ext b u" "ext (snd (removeResource dp res u))
      (inOrder (removeResource dp) removeOrder (df_Remove (Diff cur des)) b)"
    by blast
  let ?fin = "inOrder (addResource dp) addOrder (df_Add (Diff cur des))
      (inOrder (removeResource dp) removeOrder (df_Remove (Diff cur des)) b)"
  have "ext s t" "ext t b"
    using ext_Plan [of s r ni] plan ext_Ensure [of t] base by simp_all
  moreover have ap: "Apply dp (Diff cur des) t = (None, ?fin)"
    using base by (simp add: Apply_def)
  have ne: "\<not> (df_Add (Diff cur des) = [] \<and> df_Remove (Diff cur des) = [])"
    using res by auto
  obtain v where "reconcileLoop dp ni (Suc (Suc (Suc 0))) r pass_start s =
      reconcileLoop dp ni (Suc (Suc 0)) r v ?fin"
    by (rule loop_step [OF plan ne ap])
  then have "oc_state (Reconcile dp marshal now ni r s) =
      snd (snd (reconcileLoop dp ni (Suc (Suc 0)) r v ?fin))"
    by (simp only: Reconcile_def maxPasses_def numeral_3_eq_3 case_prod_beta Let_def outcome.simps)
  then have "ext ?fin (oc_state (Reconcile dp marshal now ni r s))"
    by (simp only: ext_loop)
  moreover have "ext (inOrder (removeResource dp) removeOrder (df_Remove (Diff cur des)) b) ?fin"
    by (rule ext_inOrder [OF ext_add])
  ultimately show ?thesis
    using u by (meson ext_trans)
qed

end

section \<open>Only what Maeto owns is changed\<close>

fun owned :: "kreq \<Rightarrow> bool" where
  "owned (LinkAdd l) = (kl_Group l = MaetoLinkGroup)"
| "owned (LinkDel l) = (kl_Group l = MaetoLinkGroup)"
| "owned (LinkSetUp l) = True"
| "owned (LinkSetMaster l m) = (kl_Group l = MaetoLinkGroup)"
| "owned (RouteReplace r) = (kr_Protocol r \<in> {MaetoRouteProto, MaetoSIDProto, MaetoSIDSegsProto})"
| "owned (RouteDel r) = (kr_Protocol r \<in> {MaetoRouteProto, MaetoSIDProto, MaetoSIDSegsProto})"
| "owned (RuleAdd u) = (ku_Protocol u = word_of_int MaetoRouteProto)"
| "owned (RuleDel u) = (ku_Protocol u = word_of_int MaetoRouteProto)"
| "owned (WriteFile p v) = (p = vrfStrictModePath)"
| "owned (NftAddTable t) = (t = NftablesClassificationTable)"
| "owned (NftAddChain t c) = (t = NftablesClassificationTable)"
| "owned (NftAddSet t c) = (t = NftablesClassificationTable)"
| "owned (NftFlushChain t c) = (t = NftablesClassificationTable)"
| "owned (NftAddRule t c es) = (t = NftablesClassificationTable)"
| "owned NftFlush = True"
| "owned (NftSetAdd m k v) = (m = NftablesDSCPMarkMap)"
| "owned (NftSetDelete m k) = (m = NftablesDSCPMarkMap)"
| "owned (RunCommand args) = False"

definition grows :: "'k host \<Rightarrow> 'k host \<Rightarrow> bool" where
  "grows h h' \<longleftrightarrow> (\<exists>reqs. ho_log h' = ho_log h @ reqs \<and> list_all owned reqs)"

lemma grows_refl [simp]: "grows h h"
  by (simp add: grows_def)

lemma grows_trans: "grows h i \<Longrightarrow> grows i j \<Longrightarrow> grows h j"
  by (fastforce simp: grows_def)

lemma grows_send: "owned req \<Longrightarrow> grows h (snd (send K req h))"
  by (simp add: grows_def send_def case_prod_beta Let_def)

lemma grows_must:
  assumes "owned req" and "\<And>h. grows h (snd (rest h))"
  shows "grows h (snd (must ok text K req rest h))"
proof -
  obtain e t where step: "send K req h = (e, t)"
    by fastforce
  have "grows h t"
    using grows_send [OF assms(1), of h K] step by simp
  then show ?thesis
    using step assms(2) [of t] grows_trans [of h t "snd (rest t)"]
    by (cases e) (simp_all add: must_def)
qed

lemma grows_finished [simp]: "grows h (snd (finished h))"
  by (simp add: finished_def)

lemma newLink_group [simp]: "kl_Group (newLink n p k) = MaetoLinkGroup"
  by (simp add: newLink_def)

lemma catchAll_proto [simp]: "kr_Protocol (vrfCatchAll t) = MaetoRouteProto"
  by (simp add: vrfCatchAll_def)

lemma maetoRule_proto [simp]: "ku_Protocol (maetoRule i s t m n) = word_of_int MaetoRouteProto"
  by (simp add: maetoRule_def)

lemma grows_finishVRF: "grows h (snd (finishVRF K l t h))"
  unfolding finishVRF_def by (intro grows_must) simp_all

lemma grows_UpsertVRF: "grows h (snd (UpsertVRF K n t h))"
proof -
  let ?vrf = "newLink n 0 (KVrf (ucast t))"
  obtain e u where step: "send K (LinkAdd ?vrf) h = (e, u)"
    by fastforce
  have "grows h u"
    using grows_send [of "LinkAdd ?vrf" h K] step by simp
  then have all: "grows h (snd (finishVRF K l t u))" for l
    by (rule grows_trans [OF _ grows_finishVRF])
  then show ?thesis
    using step \<open>grows h u\<close>
    by (auto simp: UpsertVRF_def Let_def split: option.split sum.split link_kind.split)
qed

lemma grows_RemoveVRF: "grows h (snd (RemoveVRF K i h))"
  by (auto simp: RemoveVRF_def split: sum.split link_kind.split intro!: grows_must)

lemma grows_RemoveXFRM: "grows h (snd (RemoveXFRMInterface K i h))"
  by (auto simp: RemoveXFRMInterface_def split: sum.split link_kind.split intro!: grows_must)

lemma grows_InsertXFRM: "grows h (snd (InsertXFRMInterface K n u i mv h))"
  by (auto simp: InsertXFRMInterface_def Let_def split: sum.split option.split intro!: grows_must)

lemma grows_InsertRoute: "grows h (snd (InsertPrefixRoute K n t p v h))"
  by (auto simp: InsertPrefixRoute_def Let_def split: sum.split option.split intro!: grows_must)

lemma grows_SIDs: "grows h (snd (UpsertDT46SID K a t h))" "grows h (snd (RemoveSID K a h))"
  by (auto simp: UpsertDT46SID_def RemoveSID_def split: sum.split intro!: grows_must)

lemma grows_SR: "grows h (snd (InsertSRRouteForPrefix K p t segs h))"
  "grows h (snd (RemoveSRRouteForPrefix K p t h))"
  by (auto simp: InsertSRRouteForPrefix_def RemoveSRRouteForPrefix_def split: sum.split
      intro!: grows_must)

lemma grows_class: "grows h (snd (InsertClassification K c m h))"
  "grows h (snd (RemoveClassification K c h))"
  by (auto simp: InsertClassification_def RemoveClassification_def split: option.split
      intro!: grows_must)

lemma grows_rules: "grows h (snd (UpsertRule K i s t m n h))" "grows h (snd (RemoveRule K i s t m n h))"
  by (auto simp: UpsertRule_def RemoveRule_def intro!: grows_must)

lemma grows_RemoveRoute: "grows h (snd (RemovePrefixRoute K p t h))"
  by (auto simp: RemovePrefixRoute_def intro!: grows_must)

lemma grows_sends: "grows h i \<Longrightarrow> owned req \<Longrightarrow> grows h (snd (send K req i))"
  by (rule grows_trans [OF _ grows_send])

lemma grows_Ensure: "grows h (snd (EnsureClassificationBase K h))"
proof -
  have rest: "grows i (snd (must {} ''flush table'' K NftFlush finished
      (snd (send K (NftAddRule NftablesClassificationTable NftablesClassificationChain classificationRule)
        (snd (send K (NftFlushChain NftablesClassificationTable NftablesClassificationChain) i))))))" for i
    by (rule grows_trans [OF _ grows_must]) (simp_all add: grows_sends)
  show ?thesis
    unfolding EnsureClassificationBase_def Let_def
    by (rule grows_trans [OF _ grows_must]) (simp_all add: grows_sends rest)
qed

lemma grows_reads: "grows h (snd (GetLinksByType K ty h))" "grows h (snd (GetRules K h))"
  "grows h (snd (GetPrefixRoutes K h))" "grows h (snd (GetSRRoutes K h))"
  "grows h (snd (GetSIDs K f g h))" "grows h (snd (GetClassifications K h))"
  by (auto simp: GetLinksByType_def GetRules_def GetPrefixRoutes_def GetSRRoutes_def GetSIDs_def
      GetClassifications_def Let_def split: sum.split option.split)

interpretation lnx: dataplane_rel "LinuxNetlink K" grows for K
  by unfold_locales
    (auto simp: LinuxNetlink_def grows_UpsertVRF grows_RemoveVRF grows_RemoveXFRM grows_InsertXFRM
      grows_InsertRoute grows_SIDs grows_SR grows_class grows_rules grows_RemoveRoute grows_Ensure
      grows_reads intro: grows_trans)

section \<open>What is written is read back\<close>

lemma addr_slice_roundtrip [simp]: "addr_from_slice (addr_as_slice a) = a"
  by (cases a)
    (simp_all add: addr_from_slice_def addr_as_slice_def bytes_word_bytes take_bit_word_eq_self,
      simp_all add: word_bytes_def)

definition prefix_canonical :: "prefix \<Rightarrow> bool" where
  "prefix_canonical p \<longleftrightarrow> addr_is_valid (prefix_addr p) \<and> 0 \<le> prefix_bits p \<and>
     prefix_bits p \<le> addr_bitlen (prefix_addr p) \<and>
     addr_masked (prefix_addr p) (nat (prefix_bits p)) = prefix_addr p"

lemma prefix_net_roundtrip: "prefix_canonical p \<Longrightarrow> net_prefix (prefixToIPNet p) = p"
  by (cases p)
    (auto simp: prefix_canonical_def net_prefix_def prefixToIPNet_def prefix_masked_def
      prefix_is_valid_def prefix_from_def)

text \<open>The route that an insertion asks for, listed again, renders to the resource it came from.\<close>

definition listed :: "string \<Rightarrow> kroute \<Rightarrow> dp_route" where
  "listed dev r =
     \<lparr> droute_Dev = dev, droute_Dst = kr_Dst r, droute_Table = kr_Table r, droute_Via = kr_Via r \<rparr>"

lemma GetPrefixRoutes_listed:
  assumes "kn_routes K MaetoRouteProto (ho_kernel h) = Inr routes" and "kn_linkList K (ho_kernel h) = Inr links"
  shows "GetPrefixRoutes K h =
    (Inr (map (\<lambda>r. listed (mget0 '''' (linkNames links) (kr_LinkIndex r)) r) routes), h)"
  by (simp add: GetPrefixRoutes_def assms listed_def)

section \<open>The catch-all route\<close>

text \<open>
  What the rendering of the listed catch-all of a table is: the listing gives the device \<^verbatim>\<open>lo\<close>,
  where the kernel puts it.
\<close>

definition listed_catchAll :: "64 word \<Rightarrow> route_res" where
  "listed_catchAll tableID =
     \<lparr> route_Table = tableID, route_Dst = Prefix (Addr6 0) 0, route_Dev = ''lo'',
       route_Via = AddrZero, route_Metric = 0 \<rparr>"

lemma fib_catchAll: "fib_route (listed ''lo'' (vrfCatchAll t)) = Inr (Route (listed_catchAll t))"
proof -
  have "bytes_word (replicate 16 0) = (0 :: 128 word)"
    by (simp add: bytes_word_def numeral_eq_Suc)
  then show ?thesis
    by (simp add: fib_route_def listed_def vrfCatchAll_def listed_catchAll_def net_prefix_def
        addr_from_slice_def prefix_from_def addr_is_valid_def addr_bitlen_def plainRoute_def)
qed

lemma route_key_kind: "resource_key q = route_key r \<Longrightarrow> \<exists>r'. q = Route r'"
  by (cases q) (auto simp: vrf_key_def xfrm_key_def rule_key_def sid_res_key_def sr_route_key_def
      class_key_def route_key_def Let_def)

lemma wanted_route: "Route r \<in> pe_wanted pe \<Longrightarrow> \<exists>x y. r = portal_route x y"
  by (auto simp: pe_wanted_def class_wanted_def tenant_wanted_eq paths_wanted_def split: if_splits)
    blast+

lemma catchAll_not_wanted:
  assumes "renders (pe_wanted pe) des"
  shows "route_key (listed_catchAll t) \<notin> rkeys des"
proof
  assume "route_key (listed_catchAll t) \<in> rkeys des"
  then obtain q where q: "q \<in> pe_wanted pe" "resource_key q = route_key (listed_catchAll t)"
    using assms by (auto simp: renders_def)
  have digit: "last (show_nat n) \<noteq> CHR ''o''" for n
  proof -
    have "last (show_nat n) \<in> set ''0123456789''"
      using show_nat_chars last_in_set [OF show_nat_not_Nil] by blast
    then show ?thesis by auto
  qed
  have "last (route_key (portal_route x y)) \<noteq> last (route_key (listed_catchAll t))" for x y
    using digit by (simp add: route_key_def portal_route_def listed_catchAll_def tunName_def)
  moreover obtain r where "q = Route r"
    using route_key_kind [OF q(2)] by blast
  moreover from this q(1) obtain x y where "r = portal_route x y"
    using wanted_route by blast
  ultimately show False
    using q(2) by (metis resource_key.simps(3))
qed

lemma RemovePrefixRoute_log:
  "ho_log (snd (RemovePrefixRoute K p t h)) =
     ho_log h @ [RouteDel (plainRoute \<lparr> kr_Dst := Some (prefixToIPNet p), kr_Table := t,
       kr_Protocol := MaetoRouteProto \<rparr>)]"
  by (auto simp: RemovePrefixRoute_def must_def send_def finished_def case_prod_beta Let_def
      split: option.split)

lemma catchAll_net: "prefixToIPNet (Prefix (Addr6 0) 0) = \<lparr> net_IP = replicate 16 0, net_ones = 0 \<rparr>"
proof -
  have "word_bytes 16 (0 :: 128 word) = replicate 16 0"
    by (simp add: word_bytes_def map_replicate_const)
  then show ?thesis
    by (simp add: prefixToIPNet_def prefix_masked_def prefix_is_valid_def addr_masked_def
        addr_as_slice_def addr_bitlen_def)
qed

lemma catchAll_deleted:
  assumes "admit r ni = Inr ()" and "ni_Intent ni = PEIntent pe" and "good_pe pe"
    and fib: "readFIB (LinuxNetlink K) h = (Inr cur, h')"
    and seen: "mget cur (route_key (listed_catchAll T)) = Some (Route (listed_catchAll T))"
    and base: "fst (EnsureClassificationBase K h') = None"
  shows "\<exists>pre post. ho_log (oc_state (Reconcile (LinuxNetlink K) marshal now ni r h)) =
    ho_log h @ pre @ [RouteDel (plainRoute \<lparr> kr_Dst := kr_Dst (vrfCatchAll T), kr_Table := T,
      kr_Protocol := MaetoRouteProto \<rparr>)] @ post"
proof -
  obtain des where des: "RenderPEIntent pe = Inr des" "renders (pe_wanted pe) des"
    using RenderPE_renders [OF assms(3)] by blast
  then have plan: "Plan (LinuxNetlink K) r ni h = (Inr (cur, des), h')"
    using assms(1,2) fib by (simp add: Plan_Inr renderIntent_def)
  have "route_key (listed_catchAll T) \<in> set (keyDifference cur des)"
    using catchAll_not_wanted [OF des(2)] mget_in_fst [OF seen]
    by (simp add: keyDifference_set rkeys_def)
  then have rem: "Route (listed_catchAll T) \<in> set (df_Remove (Diff cur des))"
    using seen by (force simp: Diff_def)
  obtain b where "dp_EnsureClassificationBase (LinuxNetlink K) h' = (None, b)"
    using base by (cases "EnsureClassificationBase K h'") (simp add: LinuxNetlink_def)
  from lnx.Reconcile_removes [OF plan rem this] obtain u where
    u: "grows h u" "grows (snd (removeResource (LinuxNetlink K) (Route (listed_catchAll T)) u))
      (oc_state (Reconcile (LinuxNetlink K) marshal now ni r h))"
    by blast
  have "ho_log (snd (removeResource (LinuxNetlink K) (Route (listed_catchAll T)) u)) =
      ho_log u @ [RouteDel (plainRoute \<lparr> kr_Dst := kr_Dst (vrfCatchAll T), kr_Table := T,
        kr_Protocol := MaetoRouteProto \<rparr>)]"
    by (simp add: LinuxNetlink_def RemovePrefixRoute_log listed_catchAll_def catchAll_net vrfCatchAll_def)
  then show ?thesis
    using u unfolding grows_def by (metis append.assoc)
qed

section \<open>The default route\<close>

text \<open>The default route that is chosen has a gateway and a device, and none has a lower metric.\<close>

lemma bestDefault_lowest:
  assumes "bestDefault best rs = Some r"
  shows "(best = Some r \<or> r \<in> set rs \<and> kr_Gw r \<noteq> [] \<and> kr_LinkIndex r \<noteq> 0) \<and>
    (\<forall>q\<in>set rs. kr_Gw q \<noteq> [] \<and> kr_LinkIndex q \<noteq> 0 \<longrightarrow> kr_Priority r \<le> kr_Priority q) \<and>
    (\<forall>b. best = Some b \<longrightarrow> kr_Priority r \<le> kr_Priority b)"
  using assms
proof (induction best rs rule: bestDefault.induct)
  case (2 best q rs)
  show ?case
    using 2 by (cases best) (fastforce split: if_splits)+
qed simp

end
