(* ===== verification/Dataplane_Run.thy ===== *)
theory Dataplane_Run
  imports Converge Netlink_Correct
begin

unbundle bit_operations_syntax

text \<open>
  The properties of the dataplane and its reconciler, with concrete nodes they apply to.
\<close>

section \<open>Rendering\<close>

definition demo_prefix :: prefix where
  "demo_prefix = Prefix (Addr6 0xfd000001000000000000000000000000) 64"

definition demo_tenant :: tenant_intent where
  "demo_tenant =
     \<lparr> ti_PortalIntents = [(''p1'', \<lparr> po_HostFacingInterface = ''eth1'', po_TunnelInterfaceID = 7,
          po_SitePrefix = demo_prefix, po_TenantPrefix = demo_prefix \<rparr>)],
       ti_DT46SID = Addr6 0xfd00000000010000000000000000f001,
       ti_InstallPaths = [\<lparr> io_TenantID = ''231'', io_PrefixRoutes = [demo_prefix],
          io_Segments = [Addr6 1, Addr6 2], io_Color = 3 \<rparr>] \<rparr>"

definition demo_pe :: pe_intent where
  "demo_pe =
     \<lparr> pt_NodeID = ''SEA'', pt_Tenants = [(''231'', demo_tenant)], pt_Peers = [],
       pt_TrafficClassIntent = [\<lparr> cl_Color = 3, cl_DSCP = [46] \<rparr>] \<rparr>"




lemma demo_pe_good: "good_pe demo_pe"
  by (simp add: good_pe_def demo_pe_def demo_tenant_def good_tenant_def good_path_def)





section \<open>Reconciling\<close>

text \<open>C10. How a reconcile ends, on any dataplane. After one to three passes it either converged, and
  then the last reading of the kernel shows exactly the keys that the intent renders to and
  the intent is the current one, or it reports an error (or a panic) and the current intent
  stays. An intent for another kind of node, or an older one, is refused without a request to
  the dataplane.
\<close>

theorem Reconcile_outcome:
  "let out = Reconcile dp marshal now ni r s; v = oc_vars out
   in pv_passes v \<in> {1..3} \<and>
      (if pv_converged v
       then rcn_current (oc_reconciler out) = Some ni \<and> admit r ni = Inr () \<and>
         (\<exists>u cur des. readFIB dp u = (Inr cur, oc_state out) \<and>
            renderIntent (ni_Intent ni) = Inr des \<and> rkeys cur = rkeys des)
       else rcn_current (oc_reconciler out) = rcn_current r \<and> (pv_panic v \<or> (\<exists>e. pv_err v = Some e))) \<and>
      (case admit r ni of Inl e \<Rightarrow> oc_state out = s \<and> pv_err v = Some e | Inr _ \<Rightarrow> True)"
proof -
  obtain v r' t where loop: "reconcileLoop dp ni maxPasses r pass_start s = (v, r', t)"
    and out: "oc_vars (Reconcile dp marshal now ni r s) = v" "oc_state (Reconcile dp marshal now ni r s) = t"
      "oc_reconciler (Reconcile dp marshal now ni r s) = fst (report marshal now ni v r')"
    and ended: "ended dp ni r v r' t"
    by (rule Reconcile_loop)
  have "pv_passes v \<in> {1..3}"
    using reconcileLoop_passes [OF loop] by (simp add: maxPasses_def pass_start_def)
  moreover have "case admit r ni of Inl e \<Rightarrow> t = s \<and> pv_err v = Some e | Inr _ \<Rightarrow> True"
    using Reconcile_refused_lemma(1,2) [of r ni _ dp marshal now s] out by (cases "admit r ni") simp_all
  ultimately show ?thesis
    unfolding Let_def out using ended by (auto simp: report_current ended_def split: if_splits)
qed

text \<open>C15. A node never goes back to an older intent. Over any feed of intents, in any order and on any
  dataplane, the current intent of the reconciler is never replaced by one with a smaller
  version, or with the same version and a smaller generation.
\<close>

theorem accepted_never_older:
  "not_older (rcn_current r) (rcn_current (fst (serveFeed dp marshal feed r s)))"
  by (rule serveFeed_not_older)


subsection \<open>A portal's dataplane\<close>
































section \<open>The kernel\<close>

text \<open>C16. Only what Maeto owns is touched. Whatever the kernel answers and whatever intents arrive, the
  requests that serving them sends create and delete only links of Maeto's group, routes and
  rules with Maeto's protocols, and elements of its own netfilter table; no command is run.
\<close>

theorem only_owned_changed:
  "\<exists>reqs. ho_log (snd (serveFeed (LinuxNetlink K) marshal feed r h)) = ho_log h @ reqs \<and>
     list_all owned reqs"
  using lnx.ext_serveFeed [of h K marshal feed r] by (simp add: grows_def)

text \<open>C28. The catch-all route of a VRF does not survive. Where the kernel lists the unreachable
  default route of a tenant's table, as it does with the device lo, reconciling the intent of a
  PE asks the kernel to delete it: it carries Maeto's protocol but is not among the wanted
  resources, so lookups in the VRF fall through to the other tables again.
\<close>

theorem catch_all_deleted:
  assumes "admit r ni = Inr ()" and "ni_Intent ni = PEIntent pe" and "good_pe pe"
    and "readFIB (LinuxNetlink K) h = (Inr cur, h')"
    and "mget cur (route_key (listed_catchAll T)) = Some (Route (listed_catchAll T))"
    and "fst (EnsureClassificationBase K h') = None"
  shows "\<exists>pre post. ho_log (oc_state (Reconcile (LinuxNetlink K) marshal now ni r h)) =
    ho_log h @ pre @ [RouteDel (plainRoute \<lparr> kr_Dst := kr_Dst (vrfCatchAll T), kr_Table := T,
      kr_Protocol := MaetoRouteProto \<rparr>)] @ post"
  using assms by (rule catchAll_deleted)

text \<open>A kernel that lists the catch-all of the table 676500 and accepts every request.\<close>

definition demo_kernel :: "unit kernel" where
  "demo_kernel =
     \<lparr> kn_do = \<lambda>_ _. (None, ()), kn_linkByIndex = \<lambda>_ _. Inl ENODEV, kn_linkByName = \<lambda>_ _. Inl LinkNotFound,
       kn_linkList = \<lambda>_. Inr [\<lparr> kl_Index = 1, kl_Name = ''lo'', kl_Group = 0, kl_ParentIndex = 0,
         kl_MasterIndex = 0, kl_kind = KOther ''loopback'' \<rparr>],
       kn_routes = \<lambda>proto _. Inr (if proto = MaetoRouteProto
         then [vrfCatchAll 676500 \<lparr> kr_LinkIndex := 1 \<rparr>] else []),
       kn_defaultRoutes = \<lambda>_. Inr [], kn_rules = \<lambda>_. Inr [], kn_nftTable = \<lambda>_ _. None, kn_nftSet = \<lambda>_ _. None,
       kn_nftElements = \<lambda>_ _. Inr [] \<rparr>"

definition demo_host :: "unit host" where
  "demo_host = \<lparr> ho_kernel = (), ho_log = [] \<rparr>"

definition demo_pe_intent :: node_intent where
  "demo_pe_intent =
     \<lparr> ni_ID = ''SEA'', ni_NodeType = NodeTypePE, ni_Intent = PEIntent demo_pe, ni_Timestamp = 0,
       ni_Generation = 4, ni_Version = 1 \<rparr>"

lemma demo_listed:
  "fib_route \<lparr> droute_Dev = ''lo'', droute_Dst = kr_Dst (vrfCatchAll T), droute_Table = T,
     droute_Via = [] \<rparr> = Inr (Route (listed_catchAll T))"
  using fib_catchAll [of T] by (simp add: listed_def vrfCatchAll_def plainRoute_def)

lemma catchAll_fields:
  "kr_Table (vrfCatchAll T) = T" "kr_Via (vrfCatchAll T) = []"
  by (simp_all add: vrfCatchAll_def plainRoute_def)

lemma demo_kernel_fib:
  "readFIB (LinuxNetlink demo_kernel) demo_host =
     (Inr (put_res (Route (listed_catchAll 676500)) []), demo_host)"
  by (simp add: readFIB_def then_do_def reading_def LinuxNetlink_def GetLinksByType_def demo_kernel_def
      GetPrefixRoutes_def GetRules_def GetSIDs_def GetSRRoutes_def GetClassifications_def inClassSet_def
      linkNames_def RenderFIB_def Let_def demo_listed catchAll_fields mget0_def MaetoLinkGroup_def
      MaetoRouteProto_def MaetoSIDProto_def MaetoSIDSegsProto_def)

theorem catch_all_deleted_witness:
  "good_pe demo_pe \<and>
   (\<exists>pre post. ho_log (oc_state (Reconcile (LinuxNetlink demo_kernel) (Inr :: resource \<Rightarrow> unit + resource)
      0 demo_pe_intent (NewReconciler NodeTypePE) demo_host)) =
    ho_log demo_host @ pre @ [RouteDel (plainRoute \<lparr> kr_Dst := kr_Dst (vrfCatchAll 676500),
      kr_Table := 676500, kr_Protocol := MaetoRouteProto \<rparr>)] @ post)"
proof -
  have "admit (NewReconciler NodeTypePE) demo_pe_intent = Inr ()"
    "ni_Intent demo_pe_intent = PEIntent demo_pe"
    by (simp_all add: admit_def NewReconciler_def demo_pe_intent_def)
  moreover have "mget (put_res (Route (listed_catchAll 676500)) []) (route_key (listed_catchAll 676500)) =
      Some (Route (listed_catchAll 676500))"
    by (simp add: put_res_def)
  moreover have "fst (EnsureClassificationBase demo_kernel demo_host) = None"
    by (simp add: EnsureClassificationBase_def must_def send_def finished_def demo_kernel_def Let_def)
  ultimately show ?thesis
    using catch_all_deleted [OF _ _ demo_pe_good demo_kernel_fib, of "NewReconciler NodeTypePE" demo_pe_intent
        676500 "Inr :: resource \<Rightarrow> unit + resource" 0] demo_pe_good by blast
qed

end
