(* ===== verification/Stamp.thy ===== *)
theory Stamp
  imports Topology Dataplane_Correct
begin

unbundle bit_operations_syntax

text \<open>
  The measurement protocol (\<^verbatim>\<open>libs/stamp\<close>): NTP timestamps and the error estimate, the
  sender's and the reflector's packets with the TLVs of the segment routing extensions,
  and the two ends of a session, the sender that numbers its packets and the reflector
  that answers them. A buffer is a list of octets, and a Go string is the list of its
  bytes, so a string and the octets it is sent as have the same length. The socket is a
  parameter of the operations that use it: what a write returns, and what arrives.
\<close>

type_synonym bytes = "8 word list"

text \<open>The errors of the package. \<open>Panicked\<close> stands for the calls of \<^verbatim>\<open>panic\<close>.\<close>

datatype stamp_error =
    AuthNotImplemented
  | Panicked
  | InvalidClockFormat
  | ScaleOutOfRange
  | KeyTooLong
  | ContainerTooBig
  | TruncatedTLV
  | TLVOverrun "8 word" nat nat
  | TruncatedReturnPath
  | ReturnPathOverrun "8 word" nat nat
  | ControlCodeLength nat
  | TruncatedContainer
  | ContainerOverrun "8 word" nat nat
  | KeyNotUTF8
  | PacketTooShort nat
  | NilConnection
  | HMACNotImplemented
  | ConnError string

section \<open>Octets\<close>

text \<open>\<^verbatim>\<open>binary.BigEndian\<close>: the words at an offset of a buffer.\<close>

definition be16 :: "nat \<Rightarrow> bytes \<Rightarrow> 16 word" where
  "be16 i b = bytes_word (take 2 (drop i b))"

definition be32 :: "nat \<Rightarrow> bytes \<Rightarrow> 32 word" where
  "be32 i b = bytes_word (take 4 (drop i b))"

definition string_bytes :: "string \<Rightarrow> bytes" where
  "string_bytes s = map of_char s"

definition bytes_string :: "bytes \<Rightarrow> string" where
  "bytes_string b = map (\<lambda>w. char_of (unat w)) b"

text \<open>\<^verbatim>\<open>utf8.Valid\<close>: for a leading octet, the length of the sequence and the range of the
  second octet; every further octet lies between 0x80 and 0xBF.\<close>

definition utf8_first :: "8 word \<Rightarrow> (nat \<times> 8 word \<times> 8 word) option" where
  "utf8_first b =
     (if b < 0xC2 then None
      else if b \<le> 0xDF then Some (2, 0x80, 0xBF)
      else if b = 0xE0 then Some (3, 0xA0, 0xBF)
      else if b = 0xED then Some (3, 0x80, 0x9F)
      else if b \<le> 0xEF then Some (3, 0x80, 0xBF)
      else if b = 0xF0 then Some (4, 0x90, 0xBF)
      else if b \<le> 0xF3 then Some (4, 0x80, 0xBF)
      else if b = 0xF4 then Some (4, 0x80, 0x8F)
      else None)"

function utf8_valid :: "bytes \<Rightarrow> bool" where
  "utf8_valid [] = True"
| "utf8_valid (b # bs) =
     (if b < 0x80 then utf8_valid bs
      else case utf8_first b of
             None \<Rightarrow> False
           | Some (n, lo, hi) \<Rightarrow>
               (case bs of
                  [] \<Rightarrow> False
                | c # cs \<Rightarrow>
                    lo \<le> c \<and> c \<le> hi \<and> n - 2 \<le> length cs \<and>
                    (\<forall>x \<in> set (take (n - 2) cs). 0x80 \<le> x \<and> x \<le> 0xBF) \<and>
                    utf8_valid (drop (n - 2) cs)))"
  by pat_completeness auto
termination
  by (relation "measure length") auto

section \<open>Timestamps\<close>

datatype clock_format = ClockFormatNTP | ClockFormatOther string

record timestamp =
  ts_Seconds :: "32 word"
  ts_Fraction :: "32 word"

definition NtpUnixOffset :: int where
  "NtpUnixOffset = 2208988800"

text \<open>\<^verbatim>\<open>t.Unix()\<close> and \<^verbatim>\<open>t.Nanosecond()\<close> split a time at the second; the conversion to
  \<^verbatim>\<open>uint32\<close> wraps.\<close>

definition generateNtpTimestamp :: "time \<Rightarrow> timestamp" where
  "generateNtpTimestamp t =
     (let seconds = word_of_int (t div second + NtpUnixOffset) :: 32 word;
          nanos = word_of_int (t mod second) :: 64 word;
          fraction = ucast (push_bit 32 nanos div 1000000000) :: 32 word
      in \<lparr>ts_Seconds = seconds, ts_Fraction = fraction\<rparr>)"

definition wireNTPTimestampToTime :: "32 word \<Rightarrow> 32 word \<Rightarrow> time" where
  "wireNTPTimestampToTime sec fr =
     (let seconds = uint sec - NtpUnixOffset;
          nanos = uint (drop_bit 32 (ucast fr * 1000000000 :: 64 word))
      in seconds * second + nanos)"

text \<open>\<^verbatim>\<open>NewTimestamp\<close> reads the clock, here its argument; \<^verbatim>\<open>FromTime\<close> is the same function of
  a given time.\<close>

definition NewTimestamp :: "clock_format \<Rightarrow> time \<Rightarrow> (stamp_error, timestamp) result" where
  "NewTimestamp cf now =
     (if cf = ClockFormatNTP then Inr (generateNtpTimestamp now) else Inl InvalidClockFormat)"

definition FromTime :: "clock_format \<Rightarrow> time \<Rightarrow> (stamp_error, timestamp) result" where
  "FromTime cf t =
     (if cf = ClockFormatNTP then Inr (generateNtpTimestamp t) else Inl InvalidClockFormat)"

definition ToTime :: "timestamp \<Rightarrow> clock_format \<Rightarrow> (stamp_error, time) result" where
  "ToTime ts cf =
     (if cf = ClockFormatNTP
      then Inr (wireNTPTimestampToTime (ts_Seconds ts) (ts_Fraction ts))
      else Inl InvalidClockFormat)"

section \<open>The error estimate\<close>

record error_estimate =
  ee_Sync :: bool
  ee_ClockFormat :: clock_format
  ee_ZBit :: bool
  ee_Scale :: "8 word"
  ee_Multiplier :: "8 word"

definition ErrorEstimateDecode :: "16 word \<Rightarrow> error_estimate" where
  "ErrorEstimateDecode val =
     \<lparr>ee_Sync = (val AND 0x8000 \<noteq> 0), ee_ClockFormat = ClockFormatNTP,
      ee_ZBit = (val AND 0x4000 \<noteq> 0), ee_Scale = ucast (drop_bit 8 (val AND 0x3F00)),
      ee_Multiplier = ucast (val AND 0xFF)\<rparr>"

definition ErrorEstimate_Encode :: "error_estimate \<Rightarrow> 16 word" where
  "ErrorEstimate_Encode e =
     (if ee_Sync e then 0x8000 else 0) OR 0 OR push_bit 8 (ucast (ee_Scale e) AND 0x3F)
       OR ucast (ee_Multiplier e)"

definition NewErrorEstimate ::
    "bool \<Rightarrow> clock_format \<Rightarrow> 8 word \<Rightarrow> 8 word \<Rightarrow> (stamp_error, error_estimate) result" where
  "NewErrorEstimate synchronized cf scale multiplier =
     (if 63 < scale then Inl ScaleOutOfRange
      else Inr \<lparr>ee_Sync = synchronized, ee_ClockFormat = cf, ee_ZBit = False,
                ee_Scale = scale, ee_Multiplier = multiplier\<rparr>)"

section \<open>TLVs\<close>

definition TLVReturnPath :: "8 word" where "TLVReturnPath = 10"
definition TLVMaetoContainer :: "8 word" where "TLVMaetoContainer = 250"
definition RPControlCode :: "8 word" where "RPControlCode = 1"
definition MCTelemetryKey :: "8 word" where "MCTelemetryKey = 1"

record control_code =
  cc_RequestReply :: bool

record return_path =
  rp_ControlCode :: "control_code option"

record telemetry_key =
  tk_Key :: string

record maeto_container =
  mc_TelemetryKey :: "telemetry_key option"

record sr_extensions =
  sx_ReturnPath :: "return_path option"
  sx_MaetoContainer :: "maeto_container option"

subsection \<open>Encoding\<close>

definition ControlCode_Encode :: "control_code \<Rightarrow> bytes" where
  "ControlCode_Encode c =
     [0, RPControlCode] @ word_bytes 2 (4 :: 16 word) @
     word_bytes 4 (if cc_RequestReply c then 1 else 0 :: 32 word)"

definition ReturnPath_Encode :: "return_path \<Rightarrow> bytes" where
  "ReturnPath_Encode p =
     (let sub = (case rp_ControlCode p of None \<Rightarrow> [] | Some c \<Rightarrow> ControlCode_Encode c)
      in [0, TLVReturnPath] @ word_bytes 2 (of_nat (length sub) :: 16 word) @ sub)"

definition TelemetryKey_Encode :: "telemetry_key \<Rightarrow> (stamp_error, bytes) result" where
  "TelemetryKey_Encode k =
     (if 0xFFFF < length (tk_Key k) then Inl KeyTooLong
      else Inr ([0, MCTelemetryKey] @ word_bytes 2 (of_nat (length (tk_Key k)) :: 16 word) @
                string_bytes (tk_Key k)))"

definition MaetoContainer_Encode :: "maeto_container \<Rightarrow> (stamp_error, bytes) result" where
  "MaetoContainer_Encode c =
     bind_result (case mc_TelemetryKey c of None \<Rightarrow> Inr [] | Some k \<Rightarrow> TelemetryKey_Encode k)
       (\<lambda>sub. if 0xFFFF < length sub then Inl ContainerTooBig
              else Inr ([0, TLVMaetoContainer] @
                        word_bytes 2 (of_nat (length sub) :: 16 word) @ sub))"

definition SRExtensions_Encode :: "sr_extensions \<Rightarrow> (stamp_error, bytes) result" where
  "SRExtensions_Encode x =
     (let rp = (case sx_ReturnPath x of None \<Rightarrow> [] | Some p \<Rightarrow> ReturnPath_Encode p)
      in bind_result
           (case sx_MaetoContainer x of None \<Rightarrow> Inr [] | Some c \<Rightarrow> MaetoContainer_Encode c)
           (\<lambda>mc. Inr (rp @ mc)))"

subsection \<open>Decoding\<close>

text \<open>
  The loop that the three decoders share: the octets from the cursor on, what has been
  read so far, and what the decoder does with the type and the value of one TLV. The
  error of an overrun names the type, the declared length and the octets that remain.
\<close>

function tlv_loop :: "stamp_error \<Rightarrow> (8 word \<Rightarrow> nat \<Rightarrow> nat \<Rightarrow> stamp_error) \<Rightarrow>
    (8 word \<Rightarrow> bytes \<Rightarrow> 'a \<Rightarrow> (stamp_error, 'a) result) \<Rightarrow> bytes \<Rightarrow> 'a \<Rightarrow>
    (stamp_error, 'a) result" where
  "tlv_loop truncated overrun item b acc =
     (if b = [] then Inr acc
      else if length b < 4 then Inl truncated
      else let tlvType = b ! 1; tlvLength = unat (be16 2 b)
           in if length b < 4 + tlvLength
              then Inl (overrun tlvType tlvLength (length b - 4))
              else case item tlvType (take tlvLength (drop 4 b)) acc of
                     Inl e \<Rightarrow> Inl e
                   | Inr acc' \<Rightarrow>
                       tlv_loop truncated overrun item (drop (4 + tlvLength) b) acc')"
  by pat_completeness auto
termination
  by (relation "measure (\<lambda>(_, _, _, b, _). length b)") auto

declare tlv_loop.simps [simp del]

definition decodeControlCode :: "bytes \<Rightarrow> (stamp_error, control_code) result" where
  "decodeControlCode b =
     (if length b \<noteq> 4 then Inl (ControlCodeLength (length b))
      else Inr \<lparr>cc_RequestReply = (be32 0 b AND 1 \<noteq> 0)\<rparr>)"

definition decodeReturnPath :: "bytes \<Rightarrow> (stamp_error, return_path) result" where
  "decodeReturnPath b =
     tlv_loop TruncatedReturnPath ReturnPathOverrun
       (\<lambda>subType val p.
          if subType = RPControlCode
          then bind_result (decodeControlCode val) (\<lambda>c. Inr (p\<lparr>rp_ControlCode := Some c\<rparr>))
          else Inr p)
       b \<lparr>rp_ControlCode = None\<rparr>"

definition decodeTelemetryKey :: "bytes \<Rightarrow> (stamp_error, telemetry_key) result" where
  "decodeTelemetryKey b =
     (if \<not> utf8_valid b then Inl KeyNotUTF8 else Inr \<lparr>tk_Key = bytes_string b\<rparr>)"

definition decodeMaetoContainer :: "bytes \<Rightarrow> (stamp_error, maeto_container) result" where
  "decodeMaetoContainer b =
     tlv_loop TruncatedContainer ContainerOverrun
       (\<lambda>subType val c.
          if subType = MCTelemetryKey
          then bind_result (decodeTelemetryKey val) (\<lambda>k. Inr (c\<lparr>mc_TelemetryKey := Some k\<rparr>))
          else Inr c)
       b \<lparr>mc_TelemetryKey = None\<rparr>"

text \<open>The \<^verbatim>\<open>switch\<close> of \<^verbatim>\<open>decodeSRExtensions\<close> on the type of a TLV, then the function.\<close>

definition decodeTLV :: "8 word \<Rightarrow> bytes \<Rightarrow> sr_extensions \<Rightarrow> (stamp_error, sr_extensions) result" where
  "decodeTLV tlvType val x =
     (if tlvType = TLVReturnPath
      then bind_result (decodeReturnPath val) (\<lambda>p. Inr (x\<lparr>sx_ReturnPath := Some p\<rparr>))
      else if tlvType = TLVMaetoContainer
      then bind_result (decodeMaetoContainer val)
             (\<lambda>c. Inr (x\<lparr>sx_MaetoContainer := Some c\<rparr>))
      else Inr x)"

definition decodeSRExtensions :: "bytes \<Rightarrow> (stamp_error, sr_extensions option) result" where
  "decodeSRExtensions b =
     (if b = [] then Inr None
      else bind_result
        (tlv_loop TruncatedTLV TLVOverrun decodeTLV b
           \<lparr>sx_ReturnPath = None, sx_MaetoContainer = None\<rparr>)
        (\<lambda>x. Inr (Some x)))"

section \<open>Packets\<close>

record sender_packet =
  sp_SequenceNumber :: "32 word"
  sp_Timestamp :: timestamp
  sp_ErrorEstimate :: "16 word"
  sp_SSID :: "16 word"
  sp_SRExtensions :: "sr_extensions option"

record reflector_packet =
  fp_SequenceNumber :: "32 word"
  fp_Timestamp :: timestamp
  fp_ErrorEstimate :: "16 word"
  fp_ReceiveTimestamp :: timestamp
  fp_SenderSequenceNumber :: "32 word"
  fp_SenderTimestamp :: timestamp
  fp_SenderErrorEstimate :: "16 word"
  fp_SenderTTL :: "8 word"
  fp_SSID :: "16 word"
  fp_SRExtensions :: "sr_extensions option"

definition timestamp_bytes :: "timestamp \<Rightarrow> bytes" where
  "timestamp_bytes ts = word_bytes 4 (ts_Seconds ts) @ word_bytes 4 (ts_Fraction ts)"

definition timestamp_at :: "nat \<Rightarrow> bytes \<Rightarrow> timestamp" where
  "timestamp_at i b = \<lparr>ts_Seconds = be32 i b, ts_Fraction = be32 (i + 4) b\<rparr>"

text \<open>The extensions go after the 44 octets of the base packet.\<close>

definition append_extensions ::
    "bytes \<Rightarrow> sr_extensions option \<Rightarrow> (stamp_error, bytes) result" where
  "append_extensions buf ext =
     (case ext of
        None \<Rightarrow> Inr buf
      | Some x \<Rightarrow> bind_result (SRExtensions_Encode x) (\<lambda>enc. Inr (buf @ enc)))"

definition SenderPacket_Encode :: "bytes option \<Rightarrow> sender_packet \<Rightarrow> (stamp_error, bytes) result" where
  "SenderPacket_Encode hmacKey p =
     (if hmacKey \<noteq> None then Inl AuthNotImplemented
      else append_extensions
        (word_bytes 4 (sp_SequenceNumber p) @ timestamp_bytes (sp_Timestamp p) @
         word_bytes 2 (sp_ErrorEstimate p) @ word_bytes 2 (sp_SSID p) @ replicate 28 0)
        (sp_SRExtensions p))"

definition DecodeSenderPacket :: "bytes option \<Rightarrow> bytes \<Rightarrow> (stamp_error, sender_packet) result" where
  "DecodeSenderPacket hmacKey b =
     (if hmacKey \<noteq> None then Inl Panicked
      else if length b < 44 then Inl (PacketTooShort (length b))
      else bind_result (decodeSRExtensions (drop 44 b))
        (\<lambda>ext. Inr \<lparr>sp_SequenceNumber = be32 0 b, sp_Timestamp = timestamp_at 4 b,
                     sp_ErrorEstimate = be16 12 b, sp_SSID = be16 14 b,
                     sp_SRExtensions = ext\<rparr>))"

definition ReflectorPacket_Encode ::
    "bytes option \<Rightarrow> reflector_packet \<Rightarrow> (stamp_error, bytes) result" where
  "ReflectorPacket_Encode hmacKey p =
     (if hmacKey \<noteq> None then Inl Panicked
      else append_extensions
        (word_bytes 4 (fp_SequenceNumber p) @ timestamp_bytes (fp_Timestamp p) @
         word_bytes 2 (fp_ErrorEstimate p) @ word_bytes 2 (fp_SSID p) @
         timestamp_bytes (fp_ReceiveTimestamp p) @
         word_bytes 4 (fp_SenderSequenceNumber p) @
         timestamp_bytes (fp_SenderTimestamp p) @
         word_bytes 2 (fp_SenderErrorEstimate p) @ replicate 2 0 @
         [fp_SenderTTL p] @ replicate 3 0)
        (fp_SRExtensions p))"

definition DecodeReflectorPacket ::
    "bytes option \<Rightarrow> bytes \<Rightarrow> (stamp_error, reflector_packet) result" where
  "DecodeReflectorPacket hmacKey b =
     (if hmacKey \<noteq> None then Inl Panicked
      else if length b < 44 then Inl (PacketTooShort (length b))
      else bind_result (decodeSRExtensions (drop 44 b))
        (\<lambda>ext. Inr \<lparr>fp_SequenceNumber = be32 0 b, fp_Timestamp = timestamp_at 4 b,
                     fp_ErrorEstimate = be16 12 b, fp_ReceiveTimestamp = timestamp_at 16 b,
                     fp_SenderSequenceNumber = be32 24 b,
                     fp_SenderTimestamp = timestamp_at 28 b,
                     fp_SenderErrorEstimate = be16 36 b, fp_SenderTTL = b ! 40,
                     fp_SSID = be16 14 b, fp_SRExtensions = ext\<rparr>))"

section \<open>The sender\<close>

record error_estimate_config =
  ec_Scale :: "8 word"
  ec_Multiplier :: "8 word"
  ec_ClockFormat :: clock_format
  ec_Synchronized :: bool

record sender =
  sn_HMACKey :: "bytes option"
  sn_seq :: "32 word"
  sn_timeout :: duration
  sn_Config :: error_estimate_config
  sn_srExtensions :: "sr_extensions option"

record sender_config =
  sc_HMACKey :: "bytes option"
  sc_Timeout :: duration
  sc_Config :: error_estimate_config
  sc_SRExtensions :: "sr_extensions option"

text \<open>\<^verbatim>\<open>NewSenderFromConn\<close>: the argument tells whether there is a connection.\<close>

definition NewSenderFromConn :: "sender_config \<Rightarrow> bool \<Rightarrow> (stamp_error, sender) result" where
  "NewSenderFromConn cfg conn =
     (if \<not> conn then Inl NilConnection
      else Inr \<lparr>sn_HMACKey = sc_HMACKey cfg, sn_seq = 0,
                sn_timeout = (if sc_Timeout cfg = 0 then 5 * second else sc_Timeout cfg),
                sn_Config = sc_Config cfg, sn_srExtensions = sc_SRExtensions cfg\<rparr>)"

text \<open>\<^verbatim>\<open>NewSender\<close> resolves the two addresses and opens the socket itself; \<open>dial\<close> is the
  error of that, if any.\<close>

definition NewSender :: "string option \<Rightarrow> sender_config \<Rightarrow> (stamp_error, sender) result" where
  "NewSender dial cfg =
     (if ec_ClockFormat (sc_Config cfg) \<noteq> ClockFormatNTP then Inl InvalidClockFormat
      else case dial of
             Some e \<Rightarrow> Inl (ConnError e)
           | None \<Rightarrow>
               Inr \<lparr>sn_HMACKey = sc_HMACKey cfg, sn_seq = 0,
                    sn_timeout = (if sc_Timeout cfg = 0 then 5 * second else sc_Timeout cfg),
                    sn_Config = sc_Config cfg, sn_srExtensions = sc_SRExtensions cfg\<rparr>)"

definition configuredEstimate :: "error_estimate_config \<Rightarrow> (stamp_error, error_estimate) result" where
  "configuredEstimate c =
     NewErrorEstimate (ec_Synchronized c) (ec_ClockFormat c) (ec_Scale c) (ec_Multiplier c)"

definition encodeNext :: "time \<Rightarrow> sender \<Rightarrow> (stamp_error, bytes) result" where
  "encodeNext now s =
     bind_result (NewTimestamp (ec_ClockFormat (sn_Config s)) now) (\<lambda>ts.
     bind_result (configuredEstimate (sn_Config s)) (\<lambda>est.
       SenderPacket_Encode None
         \<lparr>sp_SequenceNumber = sn_seq s, sp_Timestamp = ts,
          sp_ErrorEstimate = ErrorEstimate_Encode est, sp_SSID = 0,
          sp_SRExtensions = sn_srExtensions s\<rparr>))"

text \<open>
  \<^verbatim>\<open>SendOnly\<close>: the error, the datagram that was handed to the socket, and the sender
  after it. \<open>wr\<close> is the error of the write.
\<close>

definition SendOnly :: "time \<Rightarrow> (bytes \<Rightarrow> string option) \<Rightarrow> sender \<Rightarrow>
    stamp_error option \<times> bytes option \<times> sender" where
  "SendOnly now wr s =
     (if sn_HMACKey s \<noteq> None then (Some HMACNotImplemented, None, s)
      else case encodeNext now s of
             Inl e \<Rightarrow> (Some e, None, s)
           | Inr buf \<Rightarrow>
               (case wr buf of
                  Some e \<Rightarrow> (Some (ConnError e), None, s)
                | None \<Rightarrow> (None, Some buf, s\<lparr>sn_seq := sn_seq s + 1\<rparr>)))"

text \<open>
  \<^verbatim>\<open>Send\<close> then waits for the reply: \<open>rd\<close> is what the read gives for the datagram sent,
  of which the buffer takes 1500 octets.
\<close>

definition rx_size :: nat where
  "rx_size = 1500"

definition Send :: "time \<Rightarrow> (bytes \<Rightarrow> string option) \<Rightarrow> (bytes \<Rightarrow> (string, bytes) result) \<Rightarrow>
    sender \<Rightarrow> (stamp_error, reflector_packet) result \<times> sender" where
  "Send now wr rd s =
     (if sn_HMACKey s \<noteq> None then (Inl HMACNotImplemented, s)
      else case encodeNext now s of
             Inl e \<Rightarrow> (Inl e, s)
           | Inr buf \<Rightarrow>
               (case wr buf of
                  Some e \<Rightarrow> (Inl (ConnError e), s)
                | None \<Rightarrow>
                    (case rd buf of
                       Inl e \<Rightarrow> (Inl (ConnError e), s)
                     | Inr dgram \<Rightarrow>
                         (let rx = take rx_size dgram
                          in if length rx < 44 then (Inl (PacketTooShort (length rx)), s)
                             else case DecodeReflectorPacket None rx of
                                    Inl e \<Rightarrow> (Inl e, s)
                                  | Inr reply \<Rightarrow> (Inr reply, s\<lparr>sn_seq := sn_seq s + 1\<rparr>)))))"

definition Sequence :: "sender \<Rightarrow> 32 word" where
  "Sequence s = sn_seq s"

section \<open>The reflector\<close>

record reflector =
  rf_Config :: error_estimate_config
  rf_seq :: "32 word"

definition NewReflector :: "error_estimate_config \<Rightarrow> reflector" where
  "NewReflector c = \<lparr>rf_Config = c, rf_seq = 0\<rparr>"

definition requestsReply :: "sender_packet \<Rightarrow> bool" where
  "requestsReply p =
     (case sp_SRExtensions p of
        None \<Rightarrow> True
      | Some x \<Rightarrow>
          (case sx_ReturnPath x of
             None \<Rightarrow> True
           | Some rp \<Rightarrow>
               (case rp_ControlCode rp of None \<Rightarrow> True | Some c \<Rightarrow> cc_RequestReply c)))"

datatype probe_packet = FromSender sender_packet | FromReflector reflector_packet

text \<open>What one turn of the loop does besides changing the reflector: the packets it hands
  to the control channel, the datagrams it writes back, the errors it reports.\<close>

record served =
  sv_control :: "probe_packet list"
  sv_replies :: "bytes list"
  sv_errors :: "stamp_error list"

definition nothing_served :: served where
  "nothing_served = \<lparr>sv_control = [], sv_replies = [], sv_errors = []\<rparr>"

definition failed :: "stamp_error \<Rightarrow> served" where
  "failed e = nothing_served\<lparr>sv_errors := [e]\<rparr>"

text \<open>
  One turn of \<^verbatim>\<open>Serve\<close> for a datagram that was read at \<open>rx\<close>; \<open>tx\<close> is the second reading of
  the clock, \<open>ctl\<close> tells whether there is a control channel, and \<open>wr\<close> is the error of
  writing the reply. The packets are handed over in the order of the code, the sender's
  before the reply is built.
\<close>

definition serveDatagram :: "bool \<Rightarrow> time \<Rightarrow> time \<Rightarrow> (bytes \<Rightarrow> string option) \<Rightarrow> bytes \<Rightarrow>
    reflector \<Rightarrow> served \<times> reflector" where
  "serveDatagram ctl rx tx wr dgram r =
     (let buf = take rx_size dgram; cf = ec_ClockFormat (rf_Config r) in
      case NewTimestamp cf rx of
        Inl e \<Rightarrow> (failed e, r)
      | Inr rxTimestamp \<Rightarrow>
      if length buf < 44 then (failed (PacketTooShort (length buf)), r)
      else case DecodeSenderPacket None buf of
        Inl e \<Rightarrow> (failed e, r)
      | Inr senderPkt \<Rightarrow>
      (case configuredEstimate (rf_Config r) of
        Inl e \<Rightarrow> (failed e, r)
      | Inr est \<Rightarrow>
      (case NewTimestamp cf tx of
        Inl e \<Rightarrow> (failed e, r)
      | Inr ts \<Rightarrow>
      (let first = (if ctl then [FromSender senderPkt] else []);
           reflectorPkt =
             \<lparr>fp_SequenceNumber = rf_seq r, fp_Timestamp = ts,
              fp_ErrorEstimate = ErrorEstimate_Encode est,
              fp_ReceiveTimestamp = rxTimestamp,
              fp_SenderSequenceNumber = sp_SequenceNumber senderPkt,
              fp_SenderTimestamp = sp_Timestamp senderPkt,
              fp_SenderErrorEstimate = sp_ErrorEstimate senderPkt,
              fp_SenderTTL = 1, fp_SSID = sp_SSID senderPkt,
              fp_SRExtensions = sp_SRExtensions senderPkt\<rparr>;
           r' = r\<lparr>rf_seq := rf_seq r + 1\<rparr>;
           both = first @ (if ctl then [FromReflector reflectorPkt] else [])
       in if requestsReply senderPkt
          then (case ReflectorPacket_Encode None reflectorPkt of
                  Inl e \<Rightarrow> (\<lparr>sv_control = first, sv_replies = [], sv_errors = [e]\<rparr>, r')
                | Inr out \<Rightarrow>
                    (case wr out of
                       Some e \<Rightarrow>
                         (\<lparr>sv_control = first, sv_replies = [], sv_errors = [ConnError e]\<rparr>, r')
                     | None \<Rightarrow>
                         (\<lparr>sv_control = both, sv_replies = [out], sv_errors = []\<rparr>, r')))
          else (\<lparr>sv_control = both, sv_replies = [], sv_errors = []\<rparr>, r')))))"

text \<open>
  What a read of the loop brings: a datagram, an error of the socket, or the end, when
  the socket is closed or the context cancelled.
\<close>

datatype rx_event =
    Datagram time time "bytes \<Rightarrow> string option" bytes
  | ReadFailed string
  | Closed

fun Serve :: "bool \<Rightarrow> rx_event list \<Rightarrow> reflector \<Rightarrow> served list \<times> reflector" where
  "Serve ctl [] r = ([], r)"
| "Serve ctl (Closed # evs) r = ([], r)"
| "Serve ctl (ReadFailed e # evs) r =
     (let (out, r') = Serve ctl evs r in (failed (ConnError e) # out, r'))"
| "Serve ctl (Datagram rx tx wr dgram # evs) r =
     (let (s, r') = serveDatagram ctl rx tx wr dgram r;
          (out, r'') = Serve ctl evs r'
      in (s # out, r''))"

end
