(* ===== verification/Probe.thy ===== *)
theory Probe
  imports Stamp
begin

text \<open>
  The probes that run on a node (\<^verbatim>\<open>libs/probe\<close>): the configurations and their
  identifiers, the sender and the reflector that measure a link one way, the reader of
  interface counters, the dispatcher that publishes results, and the supervisor that
  keeps the running probes equal to what the node's intent asks for. JSON, the hash and
  the publisher are parameters; \<open>'j\<close> is the type of encoded data.
\<close>

section \<open>Results\<close>

definition ProbeTypeSTAMP :: string where "ProbeTypeSTAMP = ''PROBE_STAMP''"
definition ProbeTypeNetStat :: string where "ProbeTypeNetStat = ''PROBE_NET_STAT''"

record 'j result_packet =
  rk_ProbeType :: string
  rk_TelemetryKey :: string
  rk_SentAt :: time
  rk_Data :: 'j

record stamp_result =
  sr_IsSender :: bool
  sr_Sequence :: "32 word"
  sr_Peer :: addr
  sr_SenderSequence :: "32 word option"
  sr_SenderTimestamp :: "time option"
  sr_ReceiveTimestamp :: "time option"

type_synonym net_stat_result = "(string, (string, 64 word) gomap) gomap"

section \<open>The dispatcher\<close>

definition ProbeResultSubjectPrefix :: string where
  "ProbeResultSubjectPrefix = ''maeto.probe.result''"

definition defaultPublishTimeout :: duration where
  "defaultPublishTimeout = 5 * second"

record dispatcher_config =
  dc_SubjectPrefix :: string
  dc_PublishTimeout :: duration

definition NewNATSDispatcher :: "dispatcher_config \<Rightarrow> dispatcher_config" where
  "NewNATSDispatcher cfg =
     \<lparr>dc_SubjectPrefix =
        (if dc_SubjectPrefix cfg = [] then ProbeResultSubjectPrefix else dc_SubjectPrefix cfg),
      dc_PublishTimeout =
        (if dc_PublishTimeout cfg \<le> 0 then defaultPublishTimeout else dc_PublishTimeout cfg)\<rparr>"

definition Subject :: "dispatcher_config \<Rightarrow> 'j result_packet \<Rightarrow> string" where
  "Subject cfg result =
     dc_SubjectPrefix cfg @ ''.'' @ rk_ProbeType result @ ''.'' @ rk_TelemetryKey result"

text \<open>\<open>sum8\<close> is the text of the first eight octets of a SHA-256 sum.\<close>

definition resultMsgID :: "('j \<Rightarrow> string) \<Rightarrow> 'j result_packet \<Rightarrow> string" where
  "resultMsgID sum8 result =
     rk_ProbeType result @ ''.'' @ rk_TelemetryKey result @ ''.'' @
     show_int (rk_SentAt result) @ ''.'' @ sum8 (rk_Data result)"

record 'b message =
  mg_Subject :: string
  mg_Payload :: 'b
  mg_MsgID :: string

text \<open>\<^verbatim>\<open>Dispatch\<close>: the message handed to the publisher, or the error of encoding or
  publishing it.\<close>

definition Dispatch :: "('j result_packet \<Rightarrow> (string, 'b) result) \<Rightarrow> ('j \<Rightarrow> string) \<Rightarrow>
    ('b message \<Rightarrow> string option) \<Rightarrow> dispatcher_config \<Rightarrow> 'j result_packet \<Rightarrow>
    (string, 'b message) result" where
  "Dispatch encode sum8 publish cfg result =
     bind_result (encode result) (\<lambda>payload.
       let msg = \<lparr>mg_Subject = Subject cfg result, mg_Payload = payload,
                  mg_MsgID = resultMsgID sum8 result\<rparr>
       in case publish msg of Some e \<Rightarrow> Inl e | None \<Rightarrow> Inr msg)"

section \<open>Durations as text\<close>

text \<open>\<^verbatim>\<open>time.Duration.String\<close>: the largest unit below a second, or hours, minutes and
  seconds; the fraction without trailing zeros. The micro sign is two octets.\<close>

definition frac_digits :: "nat \<Rightarrow> nat \<Rightarrow> string" where
  "frac_digits v prec =
     (let f = v mod 10 ^ prec;
          ds = show_nat f;
          padded = replicate (prec - length ds) (CHR ''0'') @ ds;
          trimmed = rev (dropWhile (\<lambda>c. c = CHR ''0'') (rev padded))
      in if f = 0 then [] else ''.'' @ trimmed)"

definition with_unit :: "nat \<Rightarrow> nat \<Rightarrow> string \<Rightarrow> string" where
  "with_unit v prec u = show_nat (v div 10 ^ prec) @ frac_digits v prec @ u"

definition duration_String :: "duration \<Rightarrow> string" where
  "duration_String d =
     (let u = nat \<bar>d\<bar>;
          secs = u div 10 ^ 9;
          body =
            (if u = 0 then ''0s''
             else if u < 1000 then with_unit u 0 ''ns''
             else if u < 1000000 then with_unit u 3 [CHR 0xC2, CHR 0xB5, CHR ''s'']
             else if u < 1000000000 then with_unit u 6 ''ms''
             else
               (if 3600 \<le> secs then show_nat (secs div 3600) @ ''h'' else []) @
               (if 60 \<le> secs then show_nat (secs div 60 mod 60) @ ''m'' else []) @
               show_nat (secs mod 60) @ frac_digits u 9 @ ''s'')
      in (if d < 0 then ''-'' else []) @ body)"

section \<open>Configurations\<close>

definition DefaultSTAMPPort :: "16 word" where
  "DefaultSTAMPPort = 862"

record stamp_probe =
  pc_ProbeType :: string
  pc_LocalLoopback :: "prefix option"
  pc_PeerDestination :: addr
  pc_TelemetryKey :: string
  pc_IsSender :: bool
  pc_NoReply :: bool
  pc_DestPort :: "16 word"
  pc_EgressInterface :: string
  pc_EncapSegments :: "addr list"
  pc_ProbeInterval :: duration

definition stampPort :: "stamp_probe \<Rightarrow> 16 word" where
  "stampPort cfg = (if pc_DestPort cfg = 0 then DefaultSTAMPPort else pc_DestPort cfg)"

definition stamp_GetID :: "stamp_probe \<Rightarrow> string" where
  "stamp_GetID p =
     (let role = (if pc_IsSender p
                  then (if pc_NoReply p then ''sender-noreply'' else ''sender'')
                  else ''reflector'')
      in pc_ProbeType p @ ''.'' @ role @ ''.'' @ addr_string (pc_PeerDestination p) @ ''.'' @
         show_nat (unat (stampPort p)) @ ''.'' @ pc_EgressInterface p @ ''.'' @
         pc_TelemetryKey p @ ''.'' @ duration_String (pc_ProbeInterval p))"

datatype probe_error =
    WrongProbeType string
  | InvalidPeerDestination
  | ErrReflectedUnsupported
  | IntervalNotPositive
  | StampError stamp_error
  | MarshalError string
  | DialError string

definition Validate :: "stamp_probe \<Rightarrow> (probe_error, unit) result" where
  "Validate p =
     (if pc_ProbeType p \<noteq> ProbeTypeSTAMP then Inl (WrongProbeType (pc_ProbeType p))
      else if pc_IsSender p \<and> \<not> addr_is_valid (pc_PeerDestination p)
      then Inl InvalidPeerDestination
      else if \<not> pc_IsSender p then Inr ()
      else if \<not> pc_NoReply p then Inl ErrReflectedUnsupported
      else if pc_ProbeInterval p \<le> 0 then Inl IntervalNotPositive
      else Inr ())"

record netstat_probe =
  ns_Devs :: "string list"
  ns_StatItems :: "string list"
  ns_ProbeInterval :: duration

definition TrackedStats :: "string list" where
  "TrackedStats =
     [''rx_bytes'', ''rx_packets'', ''rx_dropped'', ''tx_bytes'', ''tx_packets'', ''tx_dropped'']"

text \<open>\<^verbatim>\<open>strings.Join\<close> and \<^verbatim>\<open>slices.Compact\<close>.\<close>

fun join :: "string \<Rightarrow> string list \<Rightarrow> string" where
  "join sep [] = []"
| "join sep [x] = x"
| "join sep (x # y # xs) = x @ sep @ join sep (y # xs)"

definition netstat_GetID :: "(string \<Rightarrow> string) \<Rightarrow> netstat_probe \<Rightarrow> string" where
  "netstat_GetID sum8 p =
     sum8 (join [CHR 0x00] (remdups_adj (sort (ns_Devs p))) @ [CHR 0x01] @
           join [CHR 0x00] (remdups_adj (sort (ns_StatItems p))))"

datatype probe_config = STAMPConfig stamp_probe | NetStatConfig netstat_probe

definition GetID :: "(string \<Rightarrow> string) \<Rightarrow> probe_config \<Rightarrow> string" where
  "GetID sum8 cfg =
     (case cfg of STAMPConfig p \<Rightarrow> stamp_GetID p | NetStatConfig p \<Rightarrow> netstat_GetID sum8 p)"

text \<open>\<^verbatim>\<open>NewDefaultRunner\<close>: what a configuration starts.\<close>

datatype runner = RunSTAMPSender stamp_probe | RunSTAMPReflector stamp_probe | RunNetStat netstat_probe

definition defaultRunner :: "probe_config \<Rightarrow> (probe_error, runner) result" where
  "defaultRunner cfg =
     (case cfg of
        STAMPConfig p \<Rightarrow>
          bind_result (Validate p)
            (\<lambda>_. Inr (if pc_IsSender p then RunSTAMPSender p else RunSTAMPReflector p))
      | NetStatConfig p \<Rightarrow> Inr (RunNetStat p))"

section \<open>The sender\<close>

definition stampConfig :: error_estimate_config where
  "stampConfig = \<lparr>ec_Scale = 22, ec_Multiplier = 1, ec_ClockFormat = ClockFormatNTP,
                  ec_Synchronized = False\<rparr>"

definition srExtensions :: "stamp_probe \<Rightarrow> sr_extensions option" where
  "srExtensions cfg =
     (if pc_TelemetryKey cfg = [] then None
      else Some \<lparr>sx_ReturnPath = Some \<lparr>rp_ControlCode = Some \<lparr>cc_RequestReply = (\<not> pc_NoReply cfg)\<rparr>\<rparr>,
                 sx_MaetoContainer =
                   Some \<lparr>mc_TelemetryKey = Some \<lparr>tk_Key = pc_TelemetryKey cfg\<rparr>\<rparr>\<rparr>)"

definition probe_sender_config :: "stamp_probe \<Rightarrow> sender_config" where
  "probe_sender_config cfg =
     \<lparr>sc_HMACKey = None, sc_Timeout = 0, sc_Config = stampConfig,
      sc_SRExtensions = srExtensions cfg\<rparr>"

text \<open>
  One tick of \<^verbatim>\<open>runSTAMPSender\<close>. The environment gives the error of resolving and dialling,
  the clock at \<^verbatim>\<open>SentAt\<close> and in the packet, and the error of the write. A failure to dial
  ends the probe; any other failure skips the tick, and one of the socket also drops the
  sender. Otherwise the datagram goes out and the result is dispatched.
\<close>

record send_env =
  te_dial :: "string option"
  te_sent_at :: time
  te_now :: time
  te_write :: "bytes \<Rightarrow> string option"

type_synonym 'j tick_out = "(bytes \<times> 'j result_packet) option \<times> sender option"

definition openSender :: "stamp_probe \<Rightarrow> send_env \<Rightarrow> sender option \<Rightarrow>
    (probe_error, (stamp_error, sender) result) result" where
  "openSender cfg env s =
     (case s of
        Some x \<Rightarrow> Inr (Inr x)
      | None \<Rightarrow>
          (case te_dial env of
             Some e \<Rightarrow> Inl (DialError e)
           | None \<Rightarrow> Inr (NewSenderFromConn (probe_sender_config cfg) True)))"

definition senderTick :: "(stamp_result \<Rightarrow> (string, 'j) result) \<Rightarrow> stamp_probe \<Rightarrow> send_env \<Rightarrow>
    sender option \<Rightarrow> (probe_error, 'j tick_out) result" where
  "senderTick marshal cfg env s =
     bind_result (openSender cfg env s) (\<lambda>opened.
       case opened of
         Inl _ \<Rightarrow> Inr (None, None)
       | Inr x \<Rightarrow>
           (case marshal \<lparr>sr_IsSender = True, sr_Sequence = Sequence x,
                          sr_Peer = pc_PeerDestination cfg, sr_SenderSequence = None,
                          sr_SenderTimestamp = None, sr_ReceiveTimestamp = None\<rparr> of
              Inl _ \<Rightarrow> Inr (None, Some x)
            | Inr data \<Rightarrow>
                (let result = \<lparr>rk_ProbeType = ProbeTypeSTAMP,
                               rk_TelemetryKey = pc_TelemetryKey cfg,
                               rk_SentAt = te_sent_at env, rk_Data = data\<rparr>
                 in case SendOnly (te_now env) (te_write env) x of
                      (None, Some buf, x') \<Rightarrow> Inr (Some (buf, result), Some x')
                    | _ \<Rightarrow> Inr (None, None))))"

text \<open>The loop over the ticks until the context ends: what it sent, in order, and the error
  that ended it, if one did.\<close>

fun runSTAMPSender :: "(stamp_result \<Rightarrow> (string, 'j) result) \<Rightarrow> stamp_probe \<Rightarrow> send_env list \<Rightarrow>
    sender option \<Rightarrow> (bytes \<times> 'j result_packet) list \<times> probe_error option" where
  "runSTAMPSender marshal cfg [] s = ([], None)"
| "runSTAMPSender marshal cfg (env # envs) s =
     (case senderTick marshal cfg env s of
        Inl e \<Rightarrow> ([], Some e)
      | Inr (out, s') \<Rightarrow>
          (let (outs, e) = runSTAMPSender marshal cfg envs s'
           in ((case out of None \<Rightarrow> outs | Some x \<Rightarrow> x # outs), e)))"

section \<open>The reflector\<close>

definition probe_telemetryKey :: "stamp_probe \<Rightarrow> sr_extensions option \<Rightarrow> string" where
  "probe_telemetryKey cfg ext =
     (case ext of
        None \<Rightarrow> pc_TelemetryKey cfg
      | Some x \<Rightarrow>
          (case sx_MaetoContainer x of
             None \<Rightarrow> pc_TelemetryKey cfg
           | Some c \<Rightarrow>
               (case mc_TelemetryKey c of
                  None \<Rightarrow> pc_TelemetryKey cfg
                | Some k \<Rightarrow> if tk_Key k = [] then pc_TelemetryKey cfg else tk_Key k)))"

definition reflectorResult :: "(stamp_result \<Rightarrow> (string, 'j) result) \<Rightarrow> stamp_probe \<Rightarrow>
    reflector_packet \<Rightarrow> (probe_error, 'j result_packet) result" where
  "reflectorResult marshal cfg pkt =
     (case ToTime (fp_SenderTimestamp pkt) (ec_ClockFormat stampConfig) of
        Inl e \<Rightarrow> Inl (StampError e)
      | Inr senderTimestamp \<Rightarrow>
     (case ToTime (fp_ReceiveTimestamp pkt) (ec_ClockFormat stampConfig) of
        Inl e \<Rightarrow> Inl (StampError e)
      | Inr receiveTimestamp \<Rightarrow>
     (case marshal \<lparr>sr_IsSender = False, sr_Sequence = fp_SequenceNumber pkt,
                    sr_Peer = pc_PeerDestination cfg,
                    sr_SenderSequence = Some (fp_SenderSequenceNumber pkt),
                    sr_SenderTimestamp = Some senderTimestamp,
                    sr_ReceiveTimestamp = Some receiveTimestamp\<rparr> of
        Inl e \<Rightarrow> Inl (MarshalError e)
      | Inr data \<Rightarrow>
          Inr \<lparr>rk_ProbeType = ProbeTypeSTAMP,
               rk_TelemetryKey = probe_telemetryKey cfg (fp_SRExtensions pkt),
               rk_SentAt = senderTimestamp, rk_Data = data\<rparr>)))"

text \<open>What the control channel brings: the sender's packets are passed over, a reflector's
  packet becomes a result unless that fails.\<close>

definition controlResult :: "(stamp_result \<Rightarrow> (string, 'j) result) \<Rightarrow> stamp_probe \<Rightarrow>
    probe_packet \<Rightarrow> 'j result_packet option" where
  "controlResult marshal cfg pkt =
     (case pkt of
        FromSender _ \<Rightarrow> None
      | FromReflector p \<Rightarrow>
          (case reflectorResult marshal cfg p of Inl _ \<Rightarrow> None | Inr r \<Rightarrow> Some r))"

definition runSTAMPReflector :: "(stamp_result \<Rightarrow> (string, 'j) result) \<Rightarrow> stamp_probe \<Rightarrow>
    rx_event list \<Rightarrow> 'j result_packet list" where
  "runSTAMPReflector marshal cfg evs =
     List.map_filter (controlResult marshal cfg)
       (concat (map sv_control (fst (Serve True evs (NewReflector stampConfig)))))"

section \<open>Interface counters\<close>

definition is_space :: "char \<Rightarrow> bool" where
  "is_space c \<longleftrightarrow> c \<in> set [CHR 0x09, CHR 0x0A, CHR 0x0B, CHR 0x0C, CHR 0x0D, CHR '' '']"

definition trim_space :: "string \<Rightarrow> string" where
  "trim_space s = rev (dropWhile is_space (rev (dropWhile is_space s)))"

definition is_digit :: "char \<Rightarrow> bool" where
  "is_digit c \<longleftrightarrow> 48 \<le> (of_char c :: nat) \<and> (of_char c :: nat) \<le> 57"

definition parse_uint64 :: "string \<Rightarrow> 64 word option" where
  "parse_uint64 s =
     (if s = [] \<or> \<not> list_all is_digit s then None
      else let n = foldl (\<lambda>a c. 10 * a + (of_char c - 48 :: nat)) 0 s
           in if n < 2 ^ 64 then Some (of_nat n) else None)"

text \<open>One counter: the file of the device, of which 32 octets are read.\<close>

definition readStat :: "(string \<Rightarrow> string option) \<Rightarrow> string \<Rightarrow> string \<Rightarrow> 64 word option" where
  "readStat file_of dev stat =
     (case file_of (''/sys/class/net/'' @ dev @ ''/statistics/'' @ stat) of
        None \<Rightarrow> None
      | Some content \<Rightarrow>
          (if content = [] then None else parse_uint64 (trim_space (take 32 content))))"

definition addStat :: "(string \<Rightarrow> string option) \<Rightarrow> string \<times> string \<Rightarrow> net_stat_result \<Rightarrow>
    net_stat_result" where
  "addStat file_of ds result =
     (case readStat file_of (fst ds) (snd ds) of
        None \<Rightarrow> result
      | Some v \<Rightarrow> mput (fst ds) (mput (snd ds) v (mget0 [] result (fst ds))) result)"

text \<open>One tick of \<^verbatim>\<open>runNetStat\<close>: a counter that cannot be read is left out, the others are
  reported.\<close>

definition netStatTick :: "(net_stat_result \<Rightarrow> (string, 'j) result) \<Rightarrow> (string \<Rightarrow> string option) \<Rightarrow>
    time \<Rightarrow> netstat_probe \<Rightarrow> 'j result_packet option" where
  "netStatTick marshal file_of now cfg =
     (let result = fold (addStat file_of) (List.product (ns_Devs cfg) (ns_StatItems cfg)) []
      in case marshal result of
           Inl _ \<Rightarrow> None
         | Inr data \<Rightarrow>
             Some \<lparr>rk_ProbeType = ProbeTypeNetStat, rk_TelemetryKey = ''net_stat'',
                   rk_SentAt = now, rk_Data = data\<rparr>)"

section \<open>The supervisor\<close>

text \<open>A probe with its goroutine: \<open>pb_exit\<close> is None while it runs, and then the error it
  ended with, if any.\<close>

record probe =
  pb_Config :: probe_config
  pb_Generation :: "64 word"
  pb_exit :: "string option option"

definition Exited :: "probe \<Rightarrow> bool" where
  "Exited p \<longleftrightarrow> pb_exit p \<noteq> None"

definition probe_Err :: "probe \<Rightarrow> string option" where
  "probe_Err p = (case pb_exit p of None \<Rightarrow> None | Some e \<Rightarrow> e)"

record supervisor =
  su_started :: bool
  su_probes :: "(string, probe) gomap"
  su_generation :: "64 word"
  su_closed :: bool

definition NewSupervisor :: supervisor where
  "NewSupervisor = \<lparr>su_started = False, su_probes = [], su_generation = 0, su_closed = False\<rparr>"

definition markStarted :: "supervisor \<Rightarrow> supervisor" where
  "markStarted s = s\<lparr>su_started := True\<rparr>"

datatype supervisor_error =
    ErrNotStarted
  | ContextEnded
  | ShutDown
  | NilConfigs "string list"
  | ProbesFailed "(string \<times> string) list"

text \<open>\<^verbatim>\<open>startProbe\<close>, and the end of its goroutine: the runner returned, a cancellation is not
  an error.\<close>

definition startProbe :: "probe_config \<Rightarrow> 64 word \<Rightarrow> probe" where
  "startProbe cfg generation = \<lparr>pb_Config = cfg, pb_Generation = generation, pb_exit = None\<rparr>"

datatype run_end = Returned | Cancelled | Failed string

definition probeEnds :: "string \<Rightarrow> run_end \<Rightarrow> supervisor \<Rightarrow> supervisor" where
  "probeEnds i e s =
     (case mget (su_probes s) i of
        None \<Rightarrow> s
      | Some p \<Rightarrow>
          s\<lparr>su_probes := mput i (p\<lparr>pb_exit :=
               Some (case e of Failed m \<Rightarrow> Some m | _ \<Rightarrow> None)\<rparr>) (su_probes s)\<rparr>)"

text \<open>What a reconcile leaves running: the probe is wanted, has not exited, and its
  configuration has the identifier of the wanted one.\<close>

definition keeps :: "(string \<Rightarrow> string) \<Rightarrow> (string, probe_config option) gomap \<Rightarrow>
    string \<times> probe \<Rightarrow> bool" where
  "keeps sum8 target ip =
     (case mget target (fst ip) of
        Some (Some desired) \<Rightarrow>
          \<not> Exited (snd ip) \<and> GetID sum8 (pb_Config (snd ip)) = GetID sum8 desired
      | _ \<Rightarrow> False)"

fun startMissing :: "64 word \<Rightarrow> (string \<times> probe_config option) list \<Rightarrow> (string, probe) gomap \<Rightarrow>
    (string, probe) gomap \<times> string list" where
  "startMissing generation [] probes = (probes, [])"
| "startMissing generation ((i, cfg) # target) probes =
     (if mget probes i \<noteq> None then startMissing generation target probes
      else case cfg of
             None \<Rightarrow>
               (let (probes', errs) = startMissing generation target probes
                in (probes', i # errs))
           | Some c \<Rightarrow>
               startMissing generation target (mput i (startProbe c generation) probes))"

text \<open>
  \<^verbatim>\<open>reconcileWithTarget\<close>: the error, the probes whose contexts \<^verbatim>\<open>stop\<close> cancelled, and the
  supervisor after it. \<open>ended\<close> tells whether the context has ended.
\<close>

definition reconcileWithTarget :: "(string \<Rightarrow> string) \<Rightarrow> bool \<Rightarrow>
    (string, probe_config option) gomap \<Rightarrow> supervisor \<Rightarrow>
    supervisor_error option \<times> (string, probe) gomap \<times> supervisor" where
  "reconcileWithTarget sum8 ended target s =
     (if \<not> su_started s then (Some ErrNotStarted, [], s)
      else if ended then (Some ContextEnded, [], s)
      else if su_closed s then (Some ShutDown, [], s)
      else let generation = su_generation s + 1;
               stopped = filter (\<lambda>ip. \<not> keeps sum8 target ip) (su_probes s);
               kept = filter (keeps sum8 target) (su_probes s);
               (probes, errs) = startMissing generation target kept
           in (if errs = [] then None else Some (NilConfigs errs), stopped,
               s\<lparr>su_generation := generation, su_probes := probes\<rparr>))"

text \<open>\<^verbatim>\<open>Shutdown\<close>; \<open>wait\<close> is what the stopped probes have become when \<^verbatim>\<open>stop\<close> returns.\<close>

definition Shutdown :: "((string, probe) gomap \<Rightarrow> (string, probe) gomap) \<Rightarrow> supervisor \<Rightarrow>
    supervisor_error option \<times> (string, probe) gomap \<times> supervisor" where
  "Shutdown wait s =
     (if su_closed s then (None, [], s)
      else let stopped = wait (su_probes s);
               errs = List.map_filter (\<lambda>(i, p). map_option (Pair i) (probe_Err p)) stopped
           in (if errs = [] then None else Some (ProbesFailed errs), su_probes s,
               s\<lparr>su_closed := True, su_generation := su_generation s + 1, su_probes := []\<rparr>))"

definition Running :: "supervisor \<Rightarrow> (string, probe_config) gomap" where
  "Running s = map (\<lambda>(i, p). (i, pb_Config p)) (su_probes s)"

subsection \<open>From the intent to the probes\<close>

definition peer_probe :: "peer_intent \<Rightarrow> stamp_probe" where
  "peer_probe p =
     \<lparr>pc_ProbeType = ProbeTypeSTAMP, pc_LocalLoopback = None,
      pc_PeerDestination = pr_PeerAddress p, pc_TelemetryKey = pr_TelemetryKey p,
      pc_IsSender = True, pc_NoReply = True, pc_DestPort = DefaultSTAMPPort,
      pc_EgressInterface = pr_LocalInterface p, pc_EncapSegments = [],
      pc_ProbeInterval = 500000000\<rparr>"

definition reflector_probe :: stamp_probe where
  "reflector_probe =
     \<lparr>pc_ProbeType = ProbeTypeSTAMP, pc_LocalLoopback = None, pc_PeerDestination = AddrZero,
      pc_TelemetryKey = [], pc_IsSender = False, pc_NoReply = True, pc_DestPort = 862,
      pc_EgressInterface = [], pc_EncapSegments = [], pc_ProbeInterval = 0\<rparr>"

text \<open>The devices whose counters are read: the VRF and the tunnels of every tenant, the
  links to the peers, and the interfaces that face the hosts.\<close>

definition tenant_devs :: "string \<times> tenant_intent \<Rightarrow> string list" where
  "tenant_devs t =
     (''maeto-vrf-'' @ fst t) #
     map (\<lambda>(_, po). ''maeto-tun-'' @ fst t @ ''-'' @ show_nat (unat (po_TunnelInterfaceID po)))
       (ti_PortalIntents (snd t))"

definition host_devs :: "pe_intent \<Rightarrow> string list" where
  "host_devs pe =
     remdups (concat (map (\<lambda>(_, t). map (\<lambda>(_, po). po_HostFacingInterface po) (ti_PortalIntents t))
       (pt_Tenants pe)))"

definition netstat_config :: "pe_intent \<Rightarrow> netstat_probe" where
  "netstat_config pe =
     \<lparr>ns_Devs = concat (map tenant_devs (pt_Tenants pe)) @
        map (\<lambda>(_, p). pr_LocalInterface p) (pt_Peers pe) @ host_devs pe,
      ns_StatItems = TrackedStats, ns_ProbeInterval = 10 * second\<rparr>"

definition addPeerProbe :: "(string \<Rightarrow> string) \<Rightarrow> string \<times> peer_intent \<Rightarrow>
    (string, probe_config option) gomap \<Rightarrow> (string, probe_config option) gomap" where
  "addPeerProbe sum8 kp m =
     (if \<not> addr_is_valid (pr_PeerAddress (snd kp)) then m
      else let cfg = STAMPConfig (peer_probe (snd kp)) in mput (GetID sum8 cfg) (Some cfg) m)"

definition probeTargets :: "(string \<Rightarrow> string) \<Rightarrow> pe_intent \<Rightarrow>
    (string, probe_config option) gomap" where
  "probeTargets sum8 pe =
     (let peers = fold (addPeerProbe sum8) (pt_Peers pe) [];
          reflector = STAMPConfig reflector_probe;
          netstat = NetStatConfig (netstat_config pe)
      in mput (GetID sum8 netstat) (Some netstat)
           (mput (GetID sum8 reflector) (Some reflector) peers))"

text \<open>
  One intent of the feed in the loop of \<^verbatim>\<open>Start\<close>. An intent without peers is passed over;
  one for a CPE panics, which is the result \<open>None\<close>.
\<close>

definition superviseIntent :: "(string \<Rightarrow> string) \<Rightarrow> bool \<Rightarrow> intent \<Rightarrow> supervisor \<Rightarrow>
    (supervisor_error option \<times> (string, probe) gomap \<times> supervisor) option" where
  "superviseIntent sum8 ended i s =
     (case i of
        CPEIntent _ \<Rightarrow> None
      | PEIntent pe \<Rightarrow>
          Some (if pt_Peers pe = [] then (None, [], s)
                else reconcileWithTarget sum8 ended (probeTargets sum8 pe) s))"

end
