(* ===== verification/Telemetry.thy ===== *)
theory Telemetry
  imports Cost_Graph Probe
begin

text \<open>
  How the control plane turns probe results into link costs: the moving averages of
  \<^verbatim>\<open>ewma.go\<close> and the telemetry collectors (\<^verbatim>\<open>telemetry_collector.go\<close> and its handlers), one
  per node. The decoding of JSON, the logarithm and the database are parameters; a
  multiplication and the addition after it are rounded one after the other.
\<close>

section \<open>Moving averages\<close>

record ewma_config =
  ewc_Alpha :: f64
  ewc_Epsilon :: f64

record ewma =
  ew_config :: ewma_config
  ew_mean :: f64
  ew_variance :: f64
  ew_n :: int
  ew_lastSeen :: time

record ewma_snapshot =
  es_Mean :: f64
  es_Variance :: f64
  es_Stddev :: f64
  es_N :: int
  es_LastSeen :: time

definition fresh_ewma :: "ewma_config \<Rightarrow> ewma" where
  "fresh_ewma c = \<lparr>ew_config = c, ew_mean = Fin 0, ew_variance = Fin 0, ew_n = 0, ew_lastSeen = 0\<rparr>"

definition NewEwma :: "rounding \<Rightarrow> ewma_config \<Rightarrow> ewma" where
  "NewEwma r c =
     fresh_ewma
       \<lparr>ewc_Alpha = (if fle (ewc_Alpha c) (Fin 0) \<or> flt (Fin 1) (ewc_Alpha c) then r (1 / 5)
                     else ewc_Alpha c),
        ewc_Epsilon = (if fle (ewc_Epsilon c) (Fin 0) then r (1 / 10 ^ 9) else ewc_Epsilon c)\<rparr>"

definition Observe :: "rounding \<Rightarrow> time \<Rightarrow> f64 \<Rightarrow> ewma \<Rightarrow> ewma" where
  "Observe r ts value e =
     (if ew_n e = 0
      then e\<lparr>ew_mean := value, ew_variance := Fin 0, ew_n := 1, ew_lastSeen := ts\<rparr>
      else let alpha = ewc_Alpha (ew_config e);
               delta = fsub r value (ew_mean e)
           in e\<lparr>ew_mean := fadd r (ew_mean e) (fmul r alpha delta),
                ew_variance := fmul r (fsub r (Fin 1) alpha)
                  (fadd r (ew_variance e) (fmul r (fmul r alpha delta) delta)),
                ew_n := ew_n e + 1, ew_lastSeen := ts\<rparr>)"

definition Snapshot :: "(f64 \<Rightarrow> f64) \<Rightarrow> rounding \<Rightarrow> ewma \<Rightarrow> ewma_snapshot" where
  "Snapshot fsqrt r e =
     \<lparr>es_Mean = ew_mean e, es_Variance = ew_variance e,
      es_Stddev = fsqrt (fadd r (ew_variance e) (ewc_Epsilon (ew_config e))),
      es_N = ew_n e, es_LastSeen = ew_lastSeen e\<rparr>"

section \<open>Costs\<close>

definition stampReorderTolerance :: "32 word" where "stampReorderTolerance = 64"
definition stampMaxLostPerSample :: "32 word" where "stampMaxLostPerSample = 200"
definition ewmaWarmupSamples :: int where "ewmaWarmupSamples = 120"
definition costJitterReferenceMs :: f64 where "costJitterReferenceMs = Fin 5"
definition costLossReference :: "rounding \<Rightarrow> f64" where "costLossReference r = r (1 / 100)"

definition NormalizeDelayJitterLoss :: "rounding \<Rightarrow> (f64 \<Rightarrow> f64) \<Rightarrow> f64 \<Rightarrow> f64 \<Rightarrow> f64 \<Rightarrow>
    f64 \<Rightarrow> f64 \<Rightarrow> f64 \<Rightarrow> f64 \<times> f64 \<times> f64" where
  "NormalizeDelayJitterLoss r log1p delay jitter loss delayRef jitterRef lossRef =
     (let lossRefLog = fneg (log1p (fneg lossRef))
      in (fdiv r delay delayRef,
          fdiv r jitter (fmul r jitterRef jitterRef),
          fdiv r (fneg (log1p (fneg (fmin loss (r (999999 / 1000000)))))) lossRefLog))"

section \<open>The collector\<close>

record collector =
  tc_SubjectPrefix :: string
  tc_ForNode :: NodeID
  tc_ewmas :: "(EdgeID, (CostDimension, ewma) gomap) gomap"
  tc_stampLastSeq :: "(EdgeID, 32 word) gomap"

definition NewTelemetryCollector :: "NodeID \<Rightarrow> string \<Rightarrow> collector" where
  "NewTelemetryCollector forNode subjectPrefix =
     \<lparr>tc_SubjectPrefix = subjectPrefix, tc_ForNode = forNode, tc_ewmas = [], tc_stampLastSeq = []\<rparr>"

datatype telemetry_error =
    UnmarshalFailed string
  | MissingTimestamps
  | NegativeDuration
  | StoreFailed string
  | UnexpectedSubject string
  | KeyMismatch
  | UnknownProbeType string

record link_sample =
  ls_Time :: time
  ls_TelemetryKey :: string
  ls_Sequence :: int
  ls_LatencyMs :: f64

record iface_counters =
  ic_Time :: time
  ic_NodeID :: string
  ic_Iface :: string
  ic_RxBytes :: int
  ic_TxBytes :: int
  ic_RxPackets :: int
  ic_TxPackets :: int
  ic_RxDropped :: int
  ic_TxDropped :: int

text \<open>The averages of an edge, made when its first result arrives.\<close>

definition edgeEwmas :: "rounding \<Rightarrow> EdgeID \<Rightarrow> collector \<Rightarrow> (CostDimension, ewma) gomap" where
  "edgeEwmas r i t =
     (case mget (tc_ewmas t) i of
        Some m \<Rightarrow> m
      | None \<Rightarrow>
          mput COSTDIM_LOSS
            (fresh_ewma \<lparr>ewc_Alpha = r (1 / 20), ewc_Epsilon = r (1 / 1000000)\<rparr>)
            (mput COSTDIM_LATENCY
              (fresh_ewma \<lparr>ewc_Alpha = r (3 / 10), ewc_Epsilon = r (1 / 1000000)\<rparr>) []))"

definition ewma_at :: "CostDimension \<Rightarrow> (CostDimension, ewma) gomap \<Rightarrow> ewma" where
  "ewma_at d m = the (mget m d)"

definition observe_at :: "rounding \<Rightarrow> CostDimension \<Rightarrow> time \<Rightarrow> f64 \<Rightarrow>
    (CostDimension, ewma) gomap \<Rightarrow> (CostDimension, ewma) gomap" where
  "observe_at r d ts v m = mput d (Observe r ts v (ewma_at d m)) m"

text \<open>The \<^verbatim>\<open>switch\<close> on the sequence number: a gap counts the missing probes as lost, a jump
  far back is a restart, and a probe that is only late changes nothing.\<close>

definition observeLoss :: "rounding \<Rightarrow> time \<Rightarrow> 32 word \<Rightarrow> 32 word option \<Rightarrow>
    (CostDimension, ewma) gomap \<Rightarrow> (CostDimension, ewma) gomap \<times> 32 word option" where
  "observeLoss r now seq prev m =
     (case prev of
        None \<Rightarrow> (observe_at r COSTDIM_LOSS now (Fin 0) m, Some seq)
      | Some lastSeq \<Rightarrow>
          if lastSeq < seq
          then let lost = min (seq - lastSeq - 1) stampMaxLostPerSample
               in (observe_at r COSTDIM_LOSS now (Fin 0)
                     ((observe_at r COSTDIM_LOSS now (Fin 1) ^^ unat lost) m), Some seq)
          else if stampReorderTolerance < lastSeq - seq
          then (observe_at r COSTDIM_LOSS now (Fin 0) m, Some seq)
          else (m, None))"

record handled =
  hd_error :: "telemetry_error option"
  hd_collector :: collector
  hd_costs :: cost_graph
  hd_samples :: "link_sample list"
  hd_counters :: "iface_counters list"

definition unhandled :: "telemetry_error option \<Rightarrow> collector \<Rightarrow> cost_graph \<Rightarrow> handled" where
  "unhandled e t cg =
     \<lparr>hd_error = e, hd_collector = t, hd_costs = cg, hd_samples = [], hd_counters = []\<rparr>"

definition durationMs :: "rounding \<Rightarrow> duration \<Rightarrow> f64" where
  "durationMs r d = fdiv r (r (of_int (microseconds d))) (Fin 1000)"

text \<open>
  The part of \<^verbatim>\<open>handleSTAMP\<close> under the lock: the latency, then the loss. Of the last sequence
  number only a new one is stored.
\<close>

definition observeSample :: "rounding \<Rightarrow> time \<Rightarrow> EdgeID \<Rightarrow> f64 \<Rightarrow> 32 word \<Rightarrow> collector \<Rightarrow>
    (CostDimension, ewma) gomap \<times> collector" where
  "observeSample r now i ms seq t =
     (let m = observe_at r COSTDIM_LATENCY now ms (edgeEwmas r i t);
          (m', new) = observeLoss r now seq (mget (tc_stampLastSeq t) i) m
      in (m', t\<lparr>tc_ewmas := mput i m' (tc_ewmas t),
                tc_stampLastSeq :=
                  (case new of None \<Rightarrow> tc_stampLastSeq t
                   | Some q \<Rightarrow> mput i q (tc_stampLastSeq t))\<rparr>))"

text \<open>The part after the sample is stored: the three costs, and that the edge was seen.\<close>

definition publishCosts :: "rounding \<Rightarrow> (f64 \<Rightarrow> f64) \<Rightarrow> time \<Rightarrow> EdgeID \<Rightarrow>
    (CostDimension, ewma) gomap \<Rightarrow> cost_graph \<Rightarrow> cost_graph" where
  "publishCosts r log1p now i m cg =
     (let latency = ewma_at COSTDIM_LATENCY m;
          loss = ew_mean (ewma_at COSTDIM_LOSS m);
          (dn, jn, sn) = NormalizeDelayJitterLoss r log1p (ew_mean latency) (ew_variance latency)
            loss costDelayReferenceMs costJitterReferenceMs (costLossReference r);
          cg1 = (if ewmaWarmupSamples < ew_n latency then MarkEdgeConverged i cg else cg)
      in MarkSeen i now
           (UpdateCost i COSTDIM_LOSS sn
             (UpdateCost i COSTDIM_JITTER jn
               (UpdateCost i COSTDIM_LATENCY dn cg1))))"

text \<open>
  \<^verbatim>\<open>handleSTAMP\<close>. \<open>now\<close> is the time of the observation and \<open>seen\<close> the later reading of the
  clock; \<open>store\<close> is the error of storing the sample.
\<close>

definition handleSTAMP :: "rounding \<Rightarrow> (f64 \<Rightarrow> f64) \<Rightarrow> ('j \<Rightarrow> (string, stamp_result) result) \<Rightarrow>
    (link_sample \<Rightarrow> string option) \<Rightarrow> time \<Rightarrow> time \<Rightarrow> 'j result_packet \<Rightarrow> string \<Rightarrow>
    collector \<Rightarrow> cost_graph \<Rightarrow> handled" where
  "handleSTAMP r log1p unmarshal store now seen pkt key t cg =
     (case unmarshal (rk_Data pkt) of
        Inl e \<Rightarrow> unhandled (Some (UnmarshalFailed e)) t cg
      | Inr p \<Rightarrow>
      if sr_IsSender p then unhandled None t cg
      else case (sr_SenderSequence p, sr_SenderTimestamp p, sr_ReceiveTimestamp p) of
        (Some seq, Some sent, Some received) \<Rightarrow>
          (let duration = time_sub received sent
           in if duration < 0 then unhandled (Some NegativeDuration) t cg
              else let ms = durationMs r duration;
                       (m, t') = observeSample r now key ms seq t;
                       sample = \<lparr>ls_Time = now, ls_TelemetryKey = key,
                                 ls_Sequence = uint seq, ls_LatencyMs = ms\<rparr>
                   in case store sample of
                        Some e \<Rightarrow> unhandled (Some (StoreFailed e)) t' cg
                      | None \<Rightarrow>
                          \<lparr>hd_error = None, hd_collector = t',
                           hd_costs = publishCosts r log1p seen key m cg,
                           hd_samples = [sample], hd_counters = []\<rparr>)
      | _ \<Rightarrow> unhandled (Some MissingTimestamps) t cg)"

text \<open>\<^verbatim>\<open>handleNetStat\<close>: the rows of all interfaces in one transaction; \<^verbatim>\<open>int64\<close> of a counter wraps.\<close>

definition counter_row :: "time \<Rightarrow> string \<Rightarrow> string \<times> (string, 64 word) gomap \<Rightarrow> iface_counters" where
  "counter_row sentAt node ifc =
     (let v = (\<lambda>k. sint (mget0 0 (snd ifc) k))
      in \<lparr>ic_Time = sentAt, ic_NodeID = node, ic_Iface = fst ifc,
          ic_RxBytes = v ''rx_bytes'', ic_TxBytes = v ''tx_bytes'',
          ic_RxPackets = v ''rx_packets'', ic_TxPackets = v ''tx_packets'',
          ic_RxDropped = v ''rx_dropped'', ic_TxDropped = v ''tx_dropped''\<rparr>)"

fun insertRows :: "(iface_counters \<Rightarrow> string option) \<Rightarrow> iface_counters list \<Rightarrow>
    (string, iface_counters list) result" where
  "insertRows store [] = Inr []"
| "insertRows store (x # xs) =
     (case store x of
        Some e \<Rightarrow> Inl e
      | None \<Rightarrow> bind_result (insertRows store xs) (\<lambda>ys. Inr (x # ys)))"

definition handleNetStat :: "('j \<Rightarrow> (string, net_stat_result) result) \<Rightarrow>
    (iface_counters \<Rightarrow> string option) \<Rightarrow> 'j result_packet \<Rightarrow> string \<Rightarrow> collector \<Rightarrow> cost_graph \<Rightarrow>
    handled" where
  "handleNetStat unmarshal store pkt node t cg =
     (case unmarshal (rk_Data pkt) of
        Inl e \<Rightarrow> unhandled (Some (UnmarshalFailed e)) t cg
      | Inr stats \<Rightarrow>
          (case insertRows store (map (counter_row (rk_SentAt pkt) node) stats) of
             Inl e \<Rightarrow> unhandled (Some (StoreFailed e)) t cg
           | Inr rows \<Rightarrow> (unhandled None t cg)\<lparr>hd_counters := rows\<rparr>))"

section \<open>Consuming\<close>

fun split_on :: "char \<Rightarrow> string \<Rightarrow> string list" where
  "split_on c [] = [[]]"
| "split_on c (x # xs) =
     (if x = c then [] # split_on c xs
      else (case split_on c xs of [] \<Rightarrow> [[x]] | y # ys \<Rightarrow> (x # y) # ys))"

text \<open>What the collector decodes messages and stores rows with.\<close>

record ('b, 'j) telemetry_env =
  tv_decode :: "'b \<Rightarrow> (string, 'j result_packet) result"
  tv_stamp :: "'j \<Rightarrow> (string, stamp_result) result"
  tv_netstat :: "'j \<Rightarrow> (string, net_stat_result) result"
  tv_log1p :: "f64 \<Rightarrow> f64"
  tv_sample :: "link_sample \<Rightarrow> string option"
  tv_counters :: "iface_counters \<Rightarrow> string option"

definition handleTelemetryConsume :: "rounding \<Rightarrow> ('b, 'j) telemetry_env \<Rightarrow> time \<Rightarrow> time \<Rightarrow>
    'b message \<Rightarrow> collector \<Rightarrow> cost_graph \<Rightarrow> handled" where
  "handleTelemetryConsume r env now seen msg t cg =
     (case tv_decode env (mg_Payload msg) of
        Inl e \<Rightarrow> unhandled (Some (UnmarshalFailed e)) t cg
      | Inr pkt \<Rightarrow>
      let subjectTokens = split_on (CHR ''.'') (mg_Subject msg);
          prefixTokens = split_on (CHR ''.'') (tc_SubjectPrefix t)
      in if length subjectTokens < length prefixTokens + 2
         then unhandled (Some (UnexpectedSubject (mg_Subject msg))) t cg
         else let publisherNode = subjectTokens ! (length prefixTokens - 1);
                  key = join ''.'' (drop (length prefixTokens + 1) subjectTokens)
              in if key \<noteq> rk_TelemetryKey pkt then unhandled (Some KeyMismatch) t cg
                 else if rk_ProbeType pkt = ProbeTypeSTAMP
                 then handleSTAMP r (tv_log1p env) (tv_stamp env) (tv_sample env) now seen pkt key t cg
                 else if rk_ProbeType pkt = ProbeTypeNetStat
                 then handleNetStat (tv_netstat env) (tv_counters env) pkt publisherNode t cg
                 else unhandled (Some (UnknownProbeType (rk_ProbeType pkt))) t cg)"

text \<open>The callback of \<^verbatim>\<open>Consume\<close>: a message that fails is refused, so that it is delivered again.\<close>

datatype acknowledgement = Ack | Nak

definition acknowledge :: "handled \<Rightarrow> acknowledgement" where
  "acknowledge h = (if hd_error h = None then Ack else Nak)"

text \<open>A sequence of deliveries, each with the two readings of the clock.\<close>

fun consumeAll :: "rounding \<Rightarrow> ('b, 'j) telemetry_env \<Rightarrow> (time \<times> time \<times> 'b message) list \<Rightarrow>
    collector \<Rightarrow> cost_graph \<Rightarrow> collector \<times> cost_graph" where
  "consumeAll r env [] t cg = (t, cg)"
| "consumeAll r env ((now, seen, msg) # ms) t cg =
     (let h = handleTelemetryConsume r env now seen msg t cg
      in consumeAll r env ms (hd_collector h) (hd_costs h))"

end
