(* ===== verification/Stamp_Correct.thy ===== *)
theory Stamp_Correct
  imports Stamp
begin

unbundle bit_operations_syntax

text \<open>
  What the measurement protocol guarantees: every packet is read back as it was
  written, timestamps lose at most a nanosecond and keep their order within an NTP era,
  and a reflector answers a well-formed probe with its echo.
\<close>

section \<open>Octets\<close>

lemma length_word_bytes [simp]: "length (word_bytes n w) = n"
  by (simp add: word_bytes_def)

lemma length_string_bytes [simp]: "length (string_bytes s) = length s"
  by (simp add: string_bytes_def)

lemma bytes_word_2 [simp]: "bytes_word (word_bytes 2 w) = (w :: 16 word)"
  by (simp add: bytes_word_bytes take_bit_word_eq_self)

lemma bytes_word_4 [simp]: "bytes_word (word_bytes 4 w) = (w :: 32 word)"
  by (simp add: bytes_word_bytes take_bit_word_eq_self)

lemma char_of_byte: "char_of (unat (of_char c :: 8 word)) = c"
proof -
  have "unat (of_char c :: 8 word) = (of_char c :: nat) mod 256"
    using unat_of_nat [where 'a = 8, of "of_char c"] by (simp add: of_nat_of_char)
  then show ?thesis
    by (simp add: char_of_mod_256)
qed

lemma bytes_string_bytes [simp]: "bytes_string (string_bytes s) = s"
  by (simp add: bytes_string_def string_bytes_def char_of_byte o_def)

lemma utf8_valid_ascii: "list_all (\<lambda>b. b < 0x80) bs \<Longrightarrow> utf8_valid bs"
  by (induction bs) auto

section \<open>TLVs\<close>

lemma tlv_loop_Nil [simp]: "tlv_loop truncated overrun item [] acc = Inr acc"
  by (simp add: tlv_loop.simps)

text \<open>The loop reads off one TLV that an encoder wrote.\<close>

lemma tlv_loop_item:
  assumes "length v \<le> 0xFFFF"
  shows "tlv_loop truncated overrun item
      ([f, t] @ word_bytes 2 (of_nat (length v) :: 16 word) @ v @ rest) acc =
    bind_result (item t v acc) (tlv_loop truncated overrun item rest)"
proof -
  let ?b = "[f, t] @ word_bytes 2 (of_nat (length v) :: 16 word) @ v @ rest"
  have "be16 2 ?b = of_nat (length v)"
    by (simp add: be16_def)
  then have len: "unat (be16 2 ?b) = length v"
    using assms by (simp add: unat_of_nat)
  have four: "drop 4 ?b = v @ rest"
    by simp
  then have "take (length v) (drop 4 ?b) = v" "drop (4 + length v) ?b = rest"
    using drop_drop [of "length v" 4 ?b] by (simp_all add: add.commute)
  then show ?thesis
    using len by (subst tlv_loop.simps) (cases "item t v acc"; simp add: Let_def)
qed

lemma tlv_loop_last:
  assumes "b = [f, t] @ word_bytes 2 (of_nat (length v) :: 16 word) @ v" and "length v \<le> 0xFFFF"
  shows "tlv_loop truncated overrun item b acc = item t v acc"
  using tlv_loop_item [OF assms(2), of truncated overrun item f t "[]" acc] assms(1)
  by (cases "item t v acc") simp_all

lemma length_ControlCode_Encode [simp]: "length (ControlCode_Encode c) = 8"
  by (simp add: ControlCode_Encode_def)

lemma decodeControlCode_word:
  "decodeControlCode (word_bytes 4 (if q then 1 else 0 :: 32 word)) = Inr \<lparr>cc_RequestReply = q\<rparr>"
  by (simp add: decodeControlCode_def be32_def)

lemma decodeReturnPath_sub:
  "decodeReturnPath (case rp_ControlCode p of None \<Rightarrow> [] | Some c \<Rightarrow> ControlCode_Encode c) = Inr p"
proof (cases "rp_ControlCode p")
  case None
  then show ?thesis by (simp add: decodeReturnPath_def)
next
  case (Some c)
  let ?v = "word_bytes 4 (if cc_RequestReply c then 1 else 0 :: 32 word)"
  have enc: "ControlCode_Encode c = [0, RPControlCode] @ word_bytes 2 (of_nat (length ?v) :: 16 word) @ ?v"
    by (simp add: ControlCode_Encode_def)
  show ?thesis
    using Some by (cases p) (simp add: decodeReturnPath_def tlv_loop_last [OF enc] decodeControlCode_word)
qed

text \<open>The octets of the key inside its container, and the limit the length fields set.\<close>

definition key_of :: "sr_extensions option \<Rightarrow> string option" where
  "key_of ext =
     Option.bind ext (\<lambda>x. Option.bind (sx_MaetoContainer x)
       (\<lambda>c. map_option tk_Key (mc_TelemetryKey c)))"

definition key_readable :: "sr_extensions option \<Rightarrow> bool" where
  "key_readable ext =
     (case key_of ext of None \<Rightarrow> True | Some k \<Rightarrow> utf8_valid (string_bytes k))"

definition key_fits :: "sr_extensions option \<Rightarrow> bool" where
  "key_fits ext = (case key_of ext of None \<Rightarrow> True | Some k \<Rightarrow> length k \<le> 65531)"

text \<open>Extensions without any TLV are not sent at all.\<close>

definition sent_extensions :: "sr_extensions option \<Rightarrow> sr_extensions option" where
  "sent_extensions ext =
     (if ext = Some \<lparr>sx_ReturnPath = None, sx_MaetoContainer = None\<rparr> then None else ext)"

lemma MaetoContainer_Encode_ok:
  assumes "MaetoContainer_Encode c = Inr enc"
  obtains sub where "enc = [0, TLVMaetoContainer] @ word_bytes 2 (of_nat (length sub) :: 16 word) @ sub"
    and "length sub \<le> 0xFFFF"
    and "decodeMaetoContainer sub =
      (case mc_TelemetryKey c of
         None \<Rightarrow> Inr c
       | Some k \<Rightarrow> if utf8_valid (string_bytes (tk_Key k)) then Inr c else Inl KeyNotUTF8)"
proof (cases "mc_TelemetryKey c")
  case None
  then show ?thesis
    using assms that [of "[]"] by (simp add: MaetoContainer_Encode_def decodeMaetoContainer_def)
next
  case (Some k)
  let ?sub = "[0, MCTelemetryKey] @ word_bytes 2 (of_nat (length (string_bytes (tk_Key k))) :: 16 word) @
    string_bytes (tk_Key k)"
  have enc: "enc = [0, TLVMaetoContainer] @ word_bytes 2 (of_nat (length ?sub) :: 16 word) @ ?sub"
    and len: "length ?sub \<le> 0xFFFF"
    using assms Some
    by (auto simp: MaetoContainer_Encode_def TelemetryKey_Encode_def split: if_splits)
  have "decodeMaetoContainer ?sub =
      (if utf8_valid (string_bytes (tk_Key k)) then Inr c else Inl KeyNotUTF8)"
    unfolding decodeMaetoContainer_def using len Some
    by (subst tlv_loop_last [OF refl]) (cases c, auto simp: decodeTelemetryKey_def)
  then show ?thesis
    using that [OF enc len] Some by simp
qed

lemma ReturnPath_loop:
  "tlv_loop TruncatedTLV TLVOverrun decodeTLV (ReturnPath_Encode p @ rest) x =
     tlv_loop TruncatedTLV TLVOverrun decodeTLV rest (x\<lparr>sx_ReturnPath := Some p\<rparr>)"
proof -
  let ?sub = "case rp_ControlCode p of None \<Rightarrow> [] | Some c \<Rightarrow> ControlCode_Encode c"
  have "length ?sub \<le> 0xFFFF"
    by (simp split: option.split)
  then have "tlv_loop TruncatedTLV TLVOverrun decodeTLV (ReturnPath_Encode p @ rest) x =
      bind_result (decodeTLV TLVReturnPath ?sub x) (tlv_loop TruncatedTLV TLVOverrun decodeTLV rest)"
    using tlv_loop_item [of ?sub TruncatedTLV TLVOverrun decodeTLV 0 TLVReturnPath rest x]
    by (simp add: ReturnPath_Encode_def Let_def)
  then show ?thesis
    by (simp add: decodeTLV_def decodeReturnPath_sub)
qed

lemma MaetoContainer_loop:
  assumes "MaetoContainer_Encode c = Inr enc"
  shows "tlv_loop TruncatedTLV TLVOverrun decodeTLV enc x =
    (if \<forall>k. mc_TelemetryKey c = Some k \<longrightarrow> utf8_valid (string_bytes (tk_Key k))
     then Inr (x\<lparr>sx_MaetoContainer := Some c\<rparr>) else Inl KeyNotUTF8)"
proof -
  obtain sub where enc: "enc = [0, TLVMaetoContainer] @ word_bytes 2 (of_nat (length sub) :: 16 word) @ sub"
    and len: "length sub \<le> 0xFFFF"
    and dec: "decodeMaetoContainer sub =
      (case mc_TelemetryKey c of
         None \<Rightarrow> Inr c
       | Some k \<Rightarrow> if utf8_valid (string_bytes (tk_Key k)) then Inr c else Inl KeyNotUTF8)"
    by (rule MaetoContainer_Encode_ok [OF assms])
  show ?thesis
    by (simp add: tlv_loop_last [OF enc len] decodeTLV_def dec TLVReturnPath_def TLVMaetoContainer_def
        split: option.split)
qed

text \<open>Extensions are read back as they were written, unless the key is not UTF-8.\<close>

lemma decodeSRExtensions_Encode:
  assumes "SRExtensions_Encode x = Inr enc"
  shows "decodeSRExtensions enc =
    (if key_readable (Some x) then Inr (sent_extensions (Some x)) else Inl KeyNotUTF8)"
proof -
  obtain rp mc where enc: "enc = rp @ mc"
    and rp: "rp = (case sx_ReturnPath x of None \<Rightarrow> [] | Some p \<Rightarrow> ReturnPath_Encode p)"
    and mc: "(case sx_MaetoContainer x of None \<Rightarrow> Inr [] | Some c \<Rightarrow> MaetoContainer_Encode c) = Inr mc"
    using assms by (auto simp: SRExtensions_Encode_def Let_def bind_result_eq_Inr)
  have nonempty: "ReturnPath_Encode p \<noteq> []" "MaetoContainer_Encode c = Inr [] \<Longrightarrow> False" for p c
    by (auto simp: ReturnPath_Encode_def MaetoContainer_Encode_def Let_def bind_result_eq_Inr
        split: if_splits)
  have loop: "tlv_loop TruncatedTLV TLVOverrun decodeTLV enc \<lparr>sx_ReturnPath = None, sx_MaetoContainer = None\<rparr> =
      (if key_readable (Some x) then Inr x else Inl KeyNotUTF8)"
    using mc enc rp
    by (cases x; cases "sx_ReturnPath x"; cases "sx_MaetoContainer x")
      (auto simp: ReturnPath_loop MaetoContainer_loop ReturnPath_loop [where rest = "[]", simplified]
        key_readable_def key_of_def split: option.splits)
  show ?thesis
  proof (cases "enc = []")
    case True
    then have "sx_ReturnPath x = None" "sx_MaetoContainer x = None"
      using enc rp mc nonempty by (auto split: option.splits)
    then show ?thesis
      using True by (cases x) (simp add: decodeSRExtensions_def sent_extensions_def key_readable_def key_of_def)
  next
    case False
    then have "x \<noteq> \<lparr>sx_ReturnPath = None, sx_MaetoContainer = None\<rparr>"
      using enc rp mc by auto
    then show ?thesis
      using False loop by (simp add: decodeSRExtensions_def sent_extensions_def)
  qed
qed

text \<open>Encoding fails on the length of the key only.\<close>

lemma SRExtensions_Encode_defined:
  "(\<exists>enc. SRExtensions_Encode x = Inr enc) \<longleftrightarrow> key_fits (Some x)"
  by (auto simp: SRExtensions_Encode_def MaetoContainer_Encode_def TelemetryKey_Encode_def
      key_fits_def key_of_def Let_def split: option.splits if_splits)

section \<open>Packets\<close>

lemma append_extensions_ok:
  assumes "append_extensions buf ext = Inr out"
  obtains enc where "out = buf @ enc"
    and "decodeSRExtensions enc =
      (if key_readable ext then Inr (sent_extensions ext) else Inl KeyNotUTF8)"
proof (cases ext)
  case None
  then show ?thesis
    using assms that [of "[]"]
    by (simp add: append_extensions_def decodeSRExtensions_def sent_extensions_def key_readable_def key_of_def)
next
  case (Some x)
  then show ?thesis
    using assms that decodeSRExtensions_Encode
    by (auto simp: append_extensions_def bind_result_eq_Inr)
qed

lemma append_extensions_defined:
  "(\<exists>out. append_extensions buf ext = Inr out) \<longleftrightarrow> key_fits ext"
  using SRExtensions_Encode_defined
  by (auto simp: append_extensions_def bind_result_eq_Inr key_fits_def key_of_def split: option.splits)

lemma DecodeSenderPacket_Encode:
  assumes "SenderPacket_Encode None p = Inr buf"
  shows "DecodeSenderPacket None buf =
    (if key_readable (sp_SRExtensions p)
     then Inr (p\<lparr>sp_SRExtensions := sent_extensions (sp_SRExtensions p)\<rparr>) else Inl KeyNotUTF8)"
proof -
  obtain enc where buf: "buf = (word_bytes 4 (sp_SequenceNumber p) @ timestamp_bytes (sp_Timestamp p) @
      word_bytes 2 (sp_ErrorEstimate p) @ word_bytes 2 (sp_SSID p) @ replicate 28 0) @ enc"
    and dec: "decodeSRExtensions enc =
      (if key_readable (sp_SRExtensions p) then Inr (sent_extensions (sp_SRExtensions p)) else Inl KeyNotUTF8)"
    by (rule append_extensions_ok) (use assms in \<open>simp add: SenderPacket_Encode_def\<close>)
  have "drop 44 buf = enc" "\<not> length buf < 44"
    by (simp_all add: buf timestamp_bytes_def)
  then show ?thesis
    by (cases p)
      (simp add: DecodeSenderPacket_def dec, simp add: buf be32_def be16_def timestamp_at_def timestamp_bytes_def)
qed

lemma DecodeReflectorPacket_Encode:
  assumes "ReflectorPacket_Encode None p = Inr buf"
  shows "DecodeReflectorPacket None buf =
    (if key_readable (fp_SRExtensions p)
     then Inr (p\<lparr>fp_SRExtensions := sent_extensions (fp_SRExtensions p)\<rparr>) else Inl KeyNotUTF8)"
proof -
  let ?base = "word_bytes 4 (fp_SequenceNumber p) @ timestamp_bytes (fp_Timestamp p) @
      word_bytes 2 (fp_ErrorEstimate p) @ word_bytes 2 (fp_SSID p) @
      timestamp_bytes (fp_ReceiveTimestamp p) @ word_bytes 4 (fp_SenderSequenceNumber p) @
      timestamp_bytes (fp_SenderTimestamp p) @ word_bytes 2 (fp_SenderErrorEstimate p) @
      replicate 2 0 @ [fp_SenderTTL p] @ replicate 3 0"
  have "append_extensions ?base (fp_SRExtensions p) = Inr buf"
    using assms by (simp add: ReflectorPacket_Encode_def)
  then obtain enc where buf: "buf = ?base @ enc"
    and dec: "decodeSRExtensions enc =
      (if key_readable (fp_SRExtensions p) then Inr (sent_extensions (fp_SRExtensions p)) else Inl KeyNotUTF8)"
    by (rule append_extensions_ok)
  have "drop 44 buf = enc" "\<not> length buf < 44"
    by (simp_all add: buf timestamp_bytes_def)
  moreover have "buf ! 40 = fp_SenderTTL p"
    by (simp add: buf timestamp_bytes_def nth_append)
  ultimately show ?thesis
    by (cases p)
      (simp add: DecodeReflectorPacket_def dec, simp add: buf be32_def be16_def timestamp_at_def timestamp_bytes_def)
qed

section \<open>Timestamps\<close>

text \<open>The times that the 32 bits of seconds tell apart: from 1900 up to 2036.\<close>

definition in_era :: "time \<Rightarrow> bool" where
  "in_era t \<longleftrightarrow> 0 \<le> t div second + NtpUnixOffset \<and> t div second + NtpUnixOffset < 2 ^ 32"

lemma uint_of_int_32: "0 \<le> k \<Longrightarrow> k < 2 ^ 32 \<Longrightarrow> uint (word_of_int k :: 32 word) = k"
  by (simp add: uint_word_of_int_eq take_bit_int_eq_self)

lemma uint_push_nanos:
  assumes "0 \<le> n" and "n < 1000000000"
  shows "uint (push_bit 32 (word_of_int n :: 64 word)) = n * 2 ^ 32"
  using assms
  by (simp add: push_bit_eq_mult uint_word_ariths uint_word_of_int)

lemma uint_fraction:
  assumes "0 \<le> n" and "n < 1000000000"
  shows "uint (ucast (push_bit 32 (word_of_int n :: 64 word) div 1000000000) :: 32 word) =
    n * 2 ^ 32 div 1000000000"
proof -
  have "n * 2 ^ 32 div 1000000000 < 2 ^ 32"
    using assms by (simp add: div_less_iff_less_mult)
  moreover have "0 \<le> n * 2 ^ 32 div 1000000000"
    using assms by (simp add: pos_imp_zdiv_nonneg_iff)
  ultimately show ?thesis
    using uint_push_nanos [OF assms] by (simp add: uint_div unsigned_ucast_eq take_bit_int_eq_self)
qed

lemma uint_nanos:
  "uint (drop_bit 32 (ucast (f :: 32 word) * 1000000000 :: 64 word)) = uint f * 1000000000 div 2 ^ 32"
proof -
  have "uint f * 1000000000 < 2 ^ 64"
    using uint_lt2p [of f] by simp
  then have "uint (ucast f * 1000000000 :: 64 word) = uint f * 1000000000"
    by (simp add: uint_word_ariths unsigned_ucast_eq take_bit_int_eq_self)
  then show ?thesis
    by (simp add: drop_bit_eq_div uint_div)
qed

definition wire_nanos :: "int \<Rightarrow> int" where
  "wire_nanos n = (n * 2 ^ 32 div 1000000000) * 1000000000 div 2 ^ 32"

lemma wire_nanos_bounds: "0 \<le> n \<Longrightarrow> n - 1 \<le> wire_nanos n \<and> wire_nanos n \<le> n"
  unfolding wire_nanos_def by simp linarith

lemma wire_nanos_nonneg: "0 \<le> n \<Longrightarrow> 0 \<le> wire_nanos n"
  by (simp add: wire_nanos_def pos_imp_zdiv_nonneg_iff)

lemma wire_nanos_mono: "n \<le> m \<Longrightarrow> wire_nanos n \<le> wire_nanos m"
  unfolding wire_nanos_def by (intro zdiv_mono1 mult_right_mono) simp_all

lemma wire_time:
  assumes "in_era t"
  shows "ToTime (generateNtpTimestamp t) ClockFormatNTP =
    Inr (t div second * second + wire_nanos (t mod second))"
proof -
  have n: "0 \<le> t mod second" "t mod second < 1000000000"
    by (simp_all add: second_def)
  have "uint (word_of_int (t div second + NtpUnixOffset) :: 32 word) = t div second + NtpUnixOffset"
    by (rule uint_of_int_32) (use assms in \<open>simp_all add: in_era_def\<close>)
  then show ?thesis
    using uint_fraction [OF n]
    by (simp add: ToTime_def generateNtpTimestamp_def wireNTPTimestampToTime_def uint_nanos wire_nanos_def Let_def)
qed

text \<open>A timestamp loses at most one nanosecond, and keeps the order of two times.\<close>

lemma timestamp_roundtrip:
  assumes "in_era t"
  obtains t' where "ToTime (generateNtpTimestamp t) ClockFormatNTP = Inr t'" and "t - 1 \<le> t'" and "t' \<le> t"
proof -
  have "t = t div second * second + t mod second" by simp
  moreover have "0 \<le> t mod second" by (simp add: second_def)
  ultimately show ?thesis
    using that [OF wire_time [OF assms]] wire_nanos_bounds [of "t mod second"] by linarith
qed

lemma wire_time_mono:
  assumes "t \<le> u"
  shows "t div second * second + wire_nanos (t mod second) \<le> u div second * second + wire_nanos (u mod second)"
proof (cases "t div second = u div second")
  case True
  then have "t mod second \<le> u mod second"
    using assms by (simp add: minus_div_mult_eq_mod [symmetric])
  then show ?thesis
    using True wire_nanos_mono by simp
next
  case False
  then have "t div second + 1 \<le> u div second"
    using assms zdiv_mono1 [of t u second] by (simp add: second_def)
  then have "t div second * second + second \<le> u div second * second"
    using mult_right_mono [of "t div second + 1" "u div second" second] by (simp add: second_def algebra_simps)
  moreover have "wire_nanos (t mod second) \<le> t mod second"
    using wire_nanos_bounds [of "t mod second"] by (simp add: second_def)
  moreover have "t mod second < second"
    by (simp add: second_def)
  moreover have "0 \<le> wire_nanos (u mod second)"
    by (rule wire_nanos_nonneg) (simp add: second_def)
  ultimately show ?thesis by linarith
qed

text \<open>Two times a whole era apart have one timestamp.\<close>

lemma timestamp_wraps: "generateNtpTimestamp (t + 2 ^ 32 * second) = generateNtpTimestamp t"
proof -
  have "(t + 2 ^ 32 * second) div second + NtpUnixOffset = t div second + NtpUnixOffset + 2 ^ 32"
    by (simp add: second_def)
  moreover have "word_of_int (k + 2 ^ 32) = (word_of_int k :: 32 word)" for k
    by (simp add: word_of_int_eq_iff take_bit_eq_mod)
  ultimately show ?thesis
    by (simp add: generateNtpTimestamp_def Let_def) 
qed

section \<open>The error estimate\<close>

lemma scale_bits:
  assumes "(s :: 8 word) \<le> 63" and "bit s m"
  shows "m < 6"
proof -
  have "unat s < 2 ^ 6"
    using assms(1) by (simp add: word_le_nat_alt)
  then have "take_bit 6 s = s"
    by (simp add: word_unat_eq_iff unsigned_take_bit_eq take_bit_nat_eq_self)
  then show ?thesis
    using assms(2) by (metis bit_take_bit_iff)
qed

lemma bit_ErrorEstimate_Encode:
  "bit (ErrorEstimate_Encode e) n \<longleftrightarrow>
     n = 15 \<and> ee_Sync e \<or> 8 \<le> n \<and> n < 14 \<and> bit (ee_Scale e) (n - 8) \<or>
     n < 8 \<and> bit (ee_Multiplier e) n"
proof -
  have a: "bit (32768 :: int) n \<longleftrightarrow> n = 15"
    using bit_exp_iff [where 'a = int, of 15 n] by auto
  have c: "(16128 :: int) = push_bit 8 (mask 6)"
    by (simp add: mask_eq_exp_minus_1 push_bit_eq_mult)
  have b: "bit (16128 :: int) n \<longleftrightarrow> 8 \<le> n \<and> n < 14"
    unfolding c by (simp only: bit_push_bit_iff bit_mask_iff) auto
  show ?thesis
    unfolding ErrorEstimate_Encode_def
    by (cases "ee_Sync e") (auto simp: bit_simps a b dest: bit_imp_le_length)
qed

lemma and_bit_16: "(w :: 16 word) AND 0x8000 \<noteq> 0 \<longleftrightarrow> bit w 15" "w AND 0x4000 \<noteq> 0 \<longleftrightarrow> bit w 14"
  using and_exp_eq_0_iff_not_bit [of w 15] and_exp_eq_0_iff_not_bit [of w 14] by simp_all

lemma decoded_scale:
  assumes "ee_Scale e \<le> 63"
  shows "ucast (drop_bit 8 (ErrorEstimate_Encode e AND 0x3F00)) = ee_Scale e"
proof (rule bit_word_eqI)
  fix n assume "n < LENGTH(8)"
  have c: "(0x3F00 :: 16 word) = push_bit 8 (mask 6)"
    by (simp add: mask_eq_exp_minus_1 push_bit_eq_mult)
  show "bit (ucast (drop_bit 8 (ErrorEstimate_Encode e AND 0x3F00)) :: 8 word) n \<longleftrightarrow> bit (ee_Scale e) n"
    using scale_bits [OF assms, of n] \<open>n < LENGTH(8)\<close> by (auto simp: c bit_simps bit_ErrorEstimate_Encode)
qed

lemma decoded_multiplier: "ucast (ErrorEstimate_Encode e AND 0xFF) = ee_Multiplier e"
proof (rule bit_word_eqI)
  fix n assume "n < LENGTH(8)"
  have c: "(0xFF :: 16 word) = mask 8"
    by (simp add: mask_eq_exp_minus_1)
  show "bit (ucast (ErrorEstimate_Encode e AND 0xFF) :: 8 word) n \<longleftrightarrow> bit (ee_Multiplier e) n"
    using \<open>n < LENGTH(8)\<close> by (auto simp: c bit_simps bit_ErrorEstimate_Encode)
qed

text \<open>The estimate survives the wire except for its Z bit, which is never sent.\<close>

lemma ErrorEstimate_roundtrip:
  assumes "ee_Scale e \<le> 63" and "ee_ClockFormat e = ClockFormatNTP"
  shows "ErrorEstimateDecode (ErrorEstimate_Encode e) = e\<lparr>ee_ZBit := False\<rparr>"
  unfolding ErrorEstimateDecode_def decoded_scale [OF assms(1)] decoded_multiplier and_bit_16
  using assms(2) by (cases e) (simp add: bit_ErrorEstimate_Encode)

section \<open>The reflector\<close>

text \<open>What a reflector makes of a packet that reached it whole: the packet it echoes.\<close>

definition echo :: "time \<Rightarrow> time \<Rightarrow> reflector \<Rightarrow> error_estimate \<Rightarrow> sender_packet \<Rightarrow> reflector_packet" where
  "echo rx tx r est p =
     \<lparr>fp_SequenceNumber = rf_seq r, fp_Timestamp = generateNtpTimestamp tx,
      fp_ErrorEstimate = ErrorEstimate_Encode est,
      fp_ReceiveTimestamp = generateNtpTimestamp rx,
      fp_SenderSequenceNumber = sp_SequenceNumber p, fp_SenderTimestamp = sp_Timestamp p,
      fp_SenderErrorEstimate = sp_ErrorEstimate p, fp_SenderTTL = 1, fp_SSID = sp_SSID p,
      fp_SRExtensions = sent_extensions (sp_SRExtensions p)\<rparr>"

lemma requestsReply_sent:
  "requestsReply (p\<lparr>sp_SRExtensions := sent_extensions (sp_SRExtensions p)\<rparr>) = requestsReply p"
  by (simp add: requestsReply_def sent_extensions_def)

lemma serveDatagram_packet:
  assumes "SenderPacket_Encode None p = Inr buf" and "length buf \<le> rx_size"
    and "key_readable (sp_SRExtensions p)"
    and "ec_ClockFormat (rf_Config r) = ClockFormatNTP" and "configuredEstimate (rf_Config r) = Inr est"
  shows "serveDatagram ctl rx tx wr buf r =
    (let p' = p\<lparr>sp_SRExtensions := sent_extensions (sp_SRExtensions p)\<rparr>;
         first = (if ctl then [FromSender p'] else []);
         both = first @ (if ctl then [FromReflector (echo rx tx r est p)] else []);
         r' = r\<lparr>rf_seq := rf_seq r + 1\<rparr>
     in if requestsReply p
        then (case ReflectorPacket_Encode None (echo rx tx r est p) of
                Inl e \<Rightarrow> (\<lparr>sv_control = first, sv_replies = [], sv_errors = [e]\<rparr>, r')
              | Inr out \<Rightarrow>
                  (case wr out of
                     Some e \<Rightarrow> (\<lparr>sv_control = first, sv_replies = [], sv_errors = [ConnError e]\<rparr>, r')
                   | None \<Rightarrow> (\<lparr>sv_control = both, sv_replies = [out], sv_errors = []\<rparr>, r')))
        else (\<lparr>sv_control = both, sv_replies = [], sv_errors = []\<rparr>, r'))"
proof -
  have dec: "DecodeSenderPacket None buf = Inr (p\<lparr>sp_SRExtensions := sent_extensions (sp_SRExtensions p)\<rparr>)"
    using DecodeSenderPacket_Encode [OF assms(1)] assms(3) by simp
  then have "\<not> length buf < 44"
    by (simp add: DecodeSenderPacket_def split: if_splits)
  then show ?thesis
    using assms(2,4,5) dec
    by (simp add: serveDatagram_def NewTimestamp_def requestsReply_sent echo_def Let_def
        cong: if_cong sum.case_cong option.case_cong)
qed

end
