(* ===== verification/Probe_Correct.thy ===== *)
theory Probe_Correct
  imports Stamp_Correct Probe
begin

text \<open>
  What the probes guarantee: the supervisor runs exactly what the intent asks for and
  leaves running what has not changed; and a probe that arrives is reported with the key,
  the sequence number and the times it was sent with.
\<close>

section \<open>The supervisor\<close>

lemma mget_filter:
  "mwf m \<Longrightarrow> mget (filter P m) k = (case mget m k of None \<Rightarrow> None | Some v \<Rightarrow> if P (k, v) then Some v else None)"
  by (induction m) (auto simp: mget_def mwf_def map_of_eq_None_iff split: option.split)

lemma startMissing_probes:
  assumes "mwf probes" and "mwf target"
  shows "mwf (fst (startMissing g target probes)) \<and>
    mget (fst (startMissing g target probes)) i =
      (case mget probes i of
         Some p \<Rightarrow> Some p
       | None \<Rightarrow> (case mget target i of Some (Some c) \<Rightarrow> Some (startProbe c g) | _ \<Rightarrow> None))"
  using assms
proof (induction g target probes rule: startMissing.induct)
  case (2 g j cfg target probes)
  have t: "mwf target" "mget target j = None"
    using "2.prems"(2) by (auto simp: mwf_def mget_def map_of_eq_None_iff)
  have Cons: "mget ((j, c) # target) k = (if k = j then Some c else mget target k)" for c k
    by (simp add: mget_def)
  show ?case
  proof (cases "mget probes j")
    case None
    show ?thesis
    proof (cases cfg)
      case None': None
      then show ?thesis
        using "2.IH"(2) [OF _ None' "2.prems"(1) t(1)] None t
        by (auto simp: Cons Let_def case_prod_beta split: option.split)
    next
      case (Some c)
      then show ?thesis
        using "2.IH"(3) [OF _ Some gm.wf_put [OF "2.prems"(1)] t(1)] None t
        by (auto simp: Cons split: option.split)
    qed
  next
    case (Some p)
    then show ?thesis
      using "2.IH"(1) [OF _ "2.prems"(1) t(1)] by (auto simp: Cons split: option.split)
  qed
qed (auto split: option.split)

lemma startMissing_errs:
  assumes "list_all (\<lambda>(_, c). c \<noteq> None) target"
  shows "snd (startMissing g target probes) = []"
  using assms by (induction g target probes rule: startMissing.induct) (auto split: option.split)

text \<open>What a probe becomes under a reconcile: the one that is wanted and runs stays as it is.\<close>

definition next_probe :: "(string \<Rightarrow> string) \<Rightarrow> 64 word \<Rightarrow> probe option \<Rightarrow> probe_config \<Rightarrow> probe" where
  "next_probe sum8 g old c =
     (case old of
        None \<Rightarrow> startProbe c g
      | Some p \<Rightarrow>
          if \<not> Exited p \<and> GetID sum8 (pb_Config p) = GetID sum8 c then p else startProbe c g)"

lemma reconcileWithTarget_probes:
  assumes "su_started s" and "\<not> su_closed s" and "mwf (su_probes s)" and "mwf target"
    and "list_all (\<lambda>(_, c). c \<noteq> None) target"
    and out: "reconcileWithTarget sum8 False target s = (err, stopped, s')"
  shows "err = None" and "mwf (su_probes s')"
    and "mget (su_probes s') i =
      (case mget target i of
         Some (Some c) \<Rightarrow> Some (next_probe sum8 (su_generation s + 1) (mget (su_probes s) i) c)
       | _ \<Rightarrow> None)"
    and "mget (su_probes s) i = Some p \<Longrightarrow> mget (su_probes s') i = Some p \<or> mget stopped i = Some p"
proof -
  let ?kept = "filter (keeps sum8 target) (su_probes s)"
  let ?st = "startMissing (su_generation s + 1) target ?kept"
  have errs: "snd ?st = []"
    by (rule startMissing_errs [OF assms(5)])
  have s': "err = None" "su_probes s' = fst ?st" "stopped = filter (\<lambda>ip. \<not> keeps sum8 target ip) (su_probes s)"
    using out assms(1,2) errs
    by (auto simp: reconcileWithTarget_def Let_def case_prod_beta split: if_splits)
  have st: "mwf (fst ?st)" "mget (fst ?st) i =
      (case mget ?kept i of
         Some p \<Rightarrow> Some p
       | None \<Rightarrow> (case mget target i of Some (Some c) \<Rightarrow> Some (startProbe c (su_generation s + 1)) | _ \<Rightarrow> None))" for i
    using startMissing_probes [OF mwf_filter [OF assms(3)] assms(4)] by blast+
  show "err = None" "mwf (su_probes s')"
    using s' st by simp_all
  show "mget (su_probes s') i =
      (case mget target i of
         Some (Some c) \<Rightarrow> Some (next_probe sum8 (su_generation s + 1) (mget (su_probes s) i) c)
       | _ \<Rightarrow> None)"
    unfolding s'(2) st(2) mget_filter [OF assms(3)] next_probe_def
    by (auto simp: keeps_def split: option.splits)
  show "mget (su_probes s) i = Some p \<Longrightarrow> mget (su_probes s') i = Some p \<or> mget stopped i = Some p"
    unfolding s'(2,3) st(2) mget_filter [OF assms(3)] by simp
qed

definition good_target :: "(string \<Rightarrow> string) \<Rightarrow> (string, probe_config option) gomap \<Rightarrow> bool" where
  "good_target sum8 m \<longleftrightarrow> mwf m \<and>
     (\<forall>(i, co) \<in> set m. \<exists>c r. co = Some c \<and> GetID sum8 c = i \<and> defaultRunner c = Inr r)"

lemma good_target_put:
  assumes "good_target sum8 m" and "defaultRunner c = Inr r"
  shows "good_target sum8 (mput (GetID sum8 c) (Some c) m)"
proof -
  have m: "mwf m" and w: "mwf (mput (GetID sum8 c) (Some c) m)"
    using assms(1) by (simp_all add: good_target_def gm.wf_put)
  have "\<exists>d r. co = Some d \<and> GetID sum8 d = i \<and> defaultRunner d = Inr r"
    if "(i, co) \<in> set (mput (GetID sum8 c) (Some c) m)" for i co
  proof (cases "i = GetID sum8 c")
    case True
    then show ?thesis
      using that assms(2) w by (auto simp: gm.entries_get)
  next
    case False
    then have "(i, co) \<in> set m"
      using that w m by (simp add: gm.entries_get)
    then show ?thesis
      using assms(1) by (auto simp: good_target_def)
  qed
  then show ?thesis
    using w by (auto simp: good_target_def)
qed

lemma defaultRunner_peer:
  "addr_is_valid (pr_PeerAddress p) \<Longrightarrow> \<exists>r. defaultRunner (STAMPConfig (peer_probe p)) = Inr r"
  by (simp add: defaultRunner_def Validate_def peer_probe_def)

lemma peers_good: "good_target sum8 m \<Longrightarrow> good_target sum8 (fold (addPeerProbe sum8) ps m)"
proof (induction ps arbitrary: m)
  case (Cons kp ps)
  have "good_target sum8 (addPeerProbe sum8 kp m)"
    using Cons.prems defaultRunner_peer [of "snd kp"] good_target_put
    by (auto simp: addPeerProbe_def Let_def)
  then show ?case
    using Cons.IH by simp
qed simp

lemma good_probeTargets: "good_target sum8 (probeTargets sum8 pe)"
proof -
  have "good_target sum8 (fold (addPeerProbe sum8) (pt_Peers pe) [])"
    by (rule peers_good) (simp add: good_target_def gm.wf_empty)
  moreover have "defaultRunner (STAMPConfig reflector_probe) = Inr (RunSTAMPReflector reflector_probe)"
    by (simp add: defaultRunner_def Validate_def reflector_probe_def)
  moreover have "defaultRunner (NetStatConfig p) = Inr (RunNetStat p)" for p
    by (simp add: defaultRunner_def)
  ultimately show ?thesis
    using good_target_put unfolding probeTargets_def Let_def by blast
qed

lemma addPeerProbe_keeps: "mget m i \<noteq> None \<Longrightarrow> mget (addPeerProbe sum8 kp m) i \<noteq> None"
  by (simp add: addPeerProbe_def Let_def)

lemma peers_keep: "mget m i \<noteq> None \<Longrightarrow> mget (fold (addPeerProbe sum8) ps m) i \<noteq> None"
proof (induction ps arbitrary: m)
  case (Cons kp ps)
  then show ?case
    using Cons.IH [OF addPeerProbe_keeps [OF Cons.prems]] by simp
qed simp

text \<open>Every peer with an address is probed.\<close>

lemma peer_probed:
  assumes "(k, p) \<in> set ps" and "addr_is_valid (pr_PeerAddress p)"
  shows "mget (fold (addPeerProbe sum8) ps m) (GetID sum8 (STAMPConfig (peer_probe p))) \<noteq> None"
  using assms
proof (induction ps arbitrary: m)
  case (Cons kp ps)
  show ?case
  proof (cases "kp = (k, p)")
    case True
    have "mget (addPeerProbe sum8 kp m) (GetID sum8 (STAMPConfig (peer_probe p))) \<noteq> None"
      using True Cons.prems(2) by (simp add: addPeerProbe_def Let_def)
    from peers_keep [OF this, of sum8 ps] show ?thesis
      by simp
  next
    case False
    then show ?thesis
      using Cons.IH Cons.prems by simp
  qed
qed simp

section \<open>A session\<close>

text \<open>
  The packets of a one-way probe: the sequence number, the time, and the telemetry key in
  the extensions that ask for no reply. The time as the wire carries it.
\<close>

definition wire :: "time \<Rightarrow> time" where
  "wire t = t div second * second + wire_nanos (t mod second)"

lemma wire_bounds: "t - 1 \<le> wire t \<and> wire t \<le> t"
proof -
  have "t = t div second * second + t mod second" by simp
  moreover have "0 \<le> t mod second" by (simp add: second_def)
  ultimately show ?thesis
    using wire_nanos_bounds [of "t mod second"] unfolding wire_def by linarith
qed

lemma wire_mono: "t \<le> u \<Longrightarrow> wire t \<le> wire u"
  using wire_time_mono by (simp add: wire_def)

definition probe_estimate :: error_estimate where
  "probe_estimate = \<lparr>ee_Sync = False, ee_ClockFormat = ClockFormatNTP, ee_ZBit = False,
                     ee_Scale = 22, ee_Multiplier = 1\<rparr>"

lemma configuredEstimate_probe: "configuredEstimate stampConfig = Inr probe_estimate"
  by (simp add: configuredEstimate_def stampConfig_def NewErrorEstimate_def probe_estimate_def)

definition sent_packet :: "stamp_probe \<Rightarrow> nat \<Rightarrow> time \<Rightarrow> sender_packet" where
  "sent_packet cfg i t =
     \<lparr>sp_SequenceNumber = of_nat i, sp_Timestamp = generateNtpTimestamp t,
      sp_ErrorEstimate = ErrorEstimate_Encode probe_estimate, sp_SSID = 0,
      sp_SRExtensions = srExtensions cfg\<rparr>"

definition sent_bytes :: "stamp_probe \<Rightarrow> nat \<Rightarrow> time \<Rightarrow> bytes" where
  "sent_bytes cfg i t =
     (case SenderPacket_Encode None (sent_packet cfg i t) of Inl _ \<Rightarrow> [] | Inr b \<Rightarrow> b)"

text \<open>A probe whose key fits one datagram and is text.\<close>

definition sound_probe :: "stamp_probe \<Rightarrow> bool" where
  "sound_probe cfg \<longleftrightarrow> pc_TelemetryKey cfg \<noteq> [] \<and> pc_NoReply cfg \<and>
     length (pc_TelemetryKey cfg) \<le> 1436 \<and> utf8_valid (string_bytes (pc_TelemetryKey cfg))"

lemma sent_bytes_encode:
  assumes "sound_probe cfg"
  shows "SenderPacket_Encode None (sent_packet cfg i t) = Inr (sent_bytes cfg i t)"
    and "length (sent_bytes cfg i t) \<le> rx_size"
proof -
  let ?k = "pc_TelemetryKey cfg"
  have "SenderPacket_Encode None (sent_packet cfg i t) =
      Inr ((word_bytes 4 (of_nat i :: 32 word) @ timestamp_bytes (generateNtpTimestamp t) @
        word_bytes 2 (ErrorEstimate_Encode probe_estimate) @ word_bytes 2 (0 :: 16 word) @ replicate 28 0) @
        ReturnPath_Encode \<lparr>rp_ControlCode = Some \<lparr>cc_RequestReply = False\<rparr>\<rparr> @
        [0, TLVMaetoContainer] @ word_bytes 2 (of_nat (4 + length ?k) :: 16 word) @
        [0, MCTelemetryKey] @ word_bytes 2 (of_nat (length ?k) :: 16 word) @ string_bytes ?k)"
    using assms
    by (simp add: SenderPacket_Encode_def append_extensions_def sent_packet_def srExtensions_def sound_probe_def
        SRExtensions_Encode_def MaetoContainer_Encode_def TelemetryKey_Encode_def)
  then show "SenderPacket_Encode None (sent_packet cfg i t) = Inr (sent_bytes cfg i t)"
    and "length (sent_bytes cfg i t) \<le> rx_size"
    using assms
    by (simp_all add: sent_bytes_def timestamp_bytes_def ReturnPath_Encode_def rx_size_def sound_probe_def)
qed

definition sender_of :: "stamp_probe \<Rightarrow> nat \<Rightarrow> sender" where
  "sender_of cfg n = \<lparr>sn_HMACKey = None, sn_seq = of_nat n, sn_timeout = 5 * second,
                      sn_Config = stampConfig, sn_srExtensions = srExtensions cfg\<rparr>"

lemma SendOnly_sound:
  assumes "sound_probe cfg" and "\<And>b. wr b = None"
  shows "SendOnly now wr (sender_of cfg n) = (None, Some (sent_bytes cfg n now), sender_of cfg (Suc n))"
proof -
  have "encodeNext now (sender_of cfg n) = Inr (sent_bytes cfg n now)"
    using sent_bytes_encode(1) [OF assms(1), of n now] configuredEstimate_probe
    by (simp add: encodeNext_def sender_of_def NewTimestamp_def sent_packet_def)
      (simp add: stampConfig_def)
  then show ?thesis
    using assms(2) by (simp add: SendOnly_def sender_of_def add.commute)
qed

text \<open>The environment of a tick in which nothing fails.\<close>

definition calm :: "send_env \<Rightarrow> bool" where
  "calm env \<longleftrightarrow> te_dial env = None \<and> te_write env = (\<lambda>_. None)"

definition sent_result :: "(stamp_result \<Rightarrow> 'j) \<Rightarrow> stamp_probe \<Rightarrow> nat \<Rightarrow> send_env \<Rightarrow> 'j result_packet" where
  "sent_result enc cfg i env =
     \<lparr>rk_ProbeType = ProbeTypeSTAMP, rk_TelemetryKey = pc_TelemetryKey cfg,
      rk_SentAt = te_sent_at env,
      rk_Data = enc \<lparr>sr_IsSender = True, sr_Sequence = of_nat i, sr_Peer = pc_PeerDestination cfg,
                     sr_SenderSequence = None, sr_SenderTimestamp = None,
                     sr_ReceiveTimestamp = None\<rparr>\<rparr>"

lemma senderTick_sound:
  assumes "sound_probe cfg" and "calm env" and "s = Some (sender_of cfg n) \<or> s = None \<and> n = 0"
  shows "senderTick (\<lambda>r. Inr (enc r)) cfg env s =
    Inr (Some (sent_bytes cfg n (te_now env), sent_result enc cfg n env), Some (sender_of cfg (Suc n)))"
proof -
  have "openSender cfg env s = Inr (Inr (sender_of cfg n))"
    using assms(2,3)
    by (auto simp: openSender_def calm_def NewSenderFromConn_def probe_sender_config_def sender_of_def)
  moreover have "SendOnly (te_now env) (te_write env) (sender_of cfg n) =
      (None, Some (sent_bytes cfg n (te_now env)), sender_of cfg (Suc n))"
    by (rule SendOnly_sound [OF assms(1)]) (use assms(2) in \<open>simp add: calm_def\<close>)
  ultimately show ?thesis
    by (simp add: senderTick_def sent_result_def Sequence_def) (simp add: sender_of_def)
qed

lemma runSTAMPSender_sound:
  assumes "sound_probe cfg" and "list_all calm envs"
    and "s = Some (sender_of cfg n) \<or> s = None \<and> n = 0"
  shows "runSTAMPSender (\<lambda>r. Inr (enc r)) cfg envs s =
    (map (\<lambda>(i, env). (sent_bytes cfg i (te_now env), sent_result enc cfg i env)) (enumerate n envs), None)"
  using assms(2,3)
proof (induction envs arbitrary: n s)
  case (Cons env envs)
  then have "runSTAMPSender (\<lambda>r. Inr (enc r)) cfg envs (Some (sender_of cfg (Suc n))) =
    (map (\<lambda>(i, env). (sent_bytes cfg i (te_now env), sent_result enc cfg i env)) (enumerate (Suc n) envs), None)"
    by simp
  then show ?case
    using Cons.prems senderTick_sound [OF assms(1), of env s n enc] by simp
qed simp

lemma sent_packet_extensions:
  assumes "sound_probe cfg"
  shows "sent_extensions (sp_SRExtensions (sent_packet cfg i t)) = sp_SRExtensions (sent_packet cfg i t)"
    and "key_readable (sp_SRExtensions (sent_packet cfg i t))"
    and "\<not> requestsReply (sent_packet cfg i t)"
  using assms
  by (simp_all add: sent_packet_def srExtensions_def sound_probe_def sent_extensions_def key_readable_def
      key_of_def requestsReply_def)

lemma serve_probe:
  assumes "sound_probe cfg" and "rf_Config r = stampConfig"
  shows "serveDatagram True rx tx wr (sent_bytes cfg i t) r =
    (\<lparr>sv_control = [FromSender (sent_packet cfg i t),
        FromReflector (echo rx tx r probe_estimate (sent_packet cfg i t))],
      sv_replies = [], sv_errors = []\<rparr>, r\<lparr>rf_seq := rf_seq r + 1\<rparr>)"
proof -
  have "ec_ClockFormat (rf_Config r) = ClockFormatNTP" "configuredEstimate (rf_Config r) = Inr probe_estimate"
    using assms(2) configuredEstimate_probe by (simp_all add: stampConfig_def)
  from serveDatagram_packet [OF sent_bytes_encode [OF assms(1), of i t]
      sent_packet_extensions(2) [OF assms(1)] this, of True rx tx wr]
  show ?thesis
    using sent_packet_extensions [OF assms(1), of i t] by (simp add: Let_def)
qed

text \<open>The result of a probe that arrives: its key, its sequence number and both times; \<open>j\<close>
  counts the datagrams of the reflector.\<close>

definition measured :: "(stamp_result \<Rightarrow> 'j) \<Rightarrow> stamp_probe \<Rightarrow> stamp_probe \<Rightarrow> nat \<Rightarrow> nat \<Rightarrow> time \<Rightarrow> time \<Rightarrow>
    'j result_packet" where
  "measured enc rcfg cfg j i t rx =
     \<lparr>rk_ProbeType = ProbeTypeSTAMP, rk_TelemetryKey = pc_TelemetryKey cfg, rk_SentAt = wire t,
      rk_Data = enc \<lparr>sr_IsSender = False, sr_Sequence = of_nat j, sr_Peer = pc_PeerDestination rcfg,
                     sr_SenderSequence = Some (of_nat i), sr_SenderTimestamp = Some (wire t),
                     sr_ReceiveTimestamp = Some (wire rx)\<rparr>\<rparr>"

lemma echo_result:
  assumes "sound_probe cfg" and "in_era t" and "in_era rx" and "rf_seq r = of_nat j"
  shows "controlResult (\<lambda>r. Inr (enc r)) rcfg
      (FromReflector (echo rx tx r probe_estimate (sent_packet cfg i t))) =
    Some (measured enc rcfg cfg j i t rx)"
proof -
  have "probe_telemetryKey rcfg (sent_extensions (srExtensions cfg)) = pc_TelemetryKey cfg"
    using assms(1) by (simp add: probe_telemetryKey_def srExtensions_def sound_probe_def sent_extensions_def)
  moreover have "ec_ClockFormat stampConfig = ClockFormatNTP"
    by (simp add: stampConfig_def)
  ultimately show ?thesis
    using wire_time [OF assms(2)] wire_time [OF assms(3)] assms(4)
    by (simp add: controlResult_def reflectorResult_def echo_def sent_packet_def measured_def wire_def)
qed

text \<open>
  The arrivals at a reflector, each the number and the sending time of a probe with the
  reflector's clock before and after: any of the probes, any number of times, in any order.
\<close>

record arrival =
  ar_seq :: nat
  ar_sent :: time
  ar_rx :: time
  ar_tx :: time

definition arrives :: "stamp_probe \<Rightarrow> arrival \<Rightarrow> rx_event" where
  "arrives cfg a = Datagram (ar_rx a) (ar_tx a) (\<lambda>_. None) (sent_bytes cfg (ar_seq a) (ar_sent a))"

lemma Serve_arrivals:
  assumes "sound_probe cfg"
    and "list_all (\<lambda>a. in_era (ar_sent a) \<and> in_era (ar_rx a)) as"
    and "rf_Config r = stampConfig" and "rf_seq r = of_nat n"
  shows "List.map_filter (controlResult (\<lambda>r. Inr (enc r)) rcfg)
      (concat (map sv_control (fst (Serve True (map (arrives cfg) as) r)))) =
    map (\<lambda>(j, a). measured enc rcfg cfg j (ar_seq a) (ar_sent a) (ar_rx a)) (enumerate n as)"
  using assms(2-4)
proof (induction as arbitrary: n r)
  case (Cons a as)
  let ?r = "r\<lparr>rf_seq := rf_seq r + 1\<rparr>"
  have "rf_seq ?r = of_nat (Suc n)"
    using Cons.prems(3) by (simp add: add.commute)
  then have "List.map_filter (controlResult (\<lambda>r. Inr (enc r)) rcfg)
      (concat (map sv_control (fst (Serve True (map (arrives cfg) as) ?r)))) =
    map (\<lambda>(j, a). measured enc rcfg cfg j (ar_seq a) (ar_sent a) (ar_rx a)) (enumerate (Suc n) as)"
    using Cons.IH [of ?r "Suc n"] Cons.prems by simp
  moreover have "fst (Serve True (map (arrives cfg) (a # as)) r) =
      fst (serveDatagram True (ar_rx a) (ar_tx a) (\<lambda>_. None) (sent_bytes cfg (ar_seq a) (ar_sent a)) r) #
      fst (Serve True (map (arrives cfg) as) ?r)"
    by (simp add: arrives_def serve_probe [OF assms(1) Cons.prems(2)] case_prod_beta)
  moreover have "controlResult (\<lambda>r. Inr (enc r)) rcfg
      (FromReflector (echo (ar_rx a) (ar_tx a) r probe_estimate (sent_packet cfg (ar_seq a) (ar_sent a)))) =
      Some (measured enc rcfg cfg n (ar_seq a) (ar_sent a) (ar_rx a))"
    by (rule echo_result) (use assms(1) Cons.prems in simp_all)
  moreover have "controlResult (\<lambda>r. Inr (enc r)) rcfg (FromSender p) = None" for p
    by (simp add: controlResult_def)
  ultimately show ?case
    by (simp add: serve_probe [OF assms(1) Cons.prems(2)] List.map_filter_simps)
qed (simp add: List.map_filter_simps)

end
