(* ===== verification/Telemetry_Correct.thy ===== *)
theory Telemetry_Correct
  imports Telemetry Probe_Correct
begin

text \<open>
  What the collectors guarantee: however many results arrive, in whatever order, the
  averages stay in their ranges and the costs they publish are finite and not negative,
  which is what the path computation relies on. A result that a node dispatches reaches
  the edge it was measured on.
\<close>

section \<open>Rounding to nearest\<close>

text \<open>
  What the averages need of the rounding besides its order: it is symmetric, at most
  doubles a value, and keeps the dyadic fractions of 53 bits.
\<close>

locale averaging_mode = rounding_mode r for r :: rounding +
  assumes r_twice: "0 \<le> x \<Longrightarrow> r x = Fin y \<Longrightarrow> y \<le> 2 * x"
    and r_minus: "r (- x) = fneg (r x)"
    and r_dyadic: "n < 2 ^ 53 \<Longrightarrow> \<bar>k\<bar> \<le> 900 \<Longrightarrow> r (of_nat n * 2 powi k) = Fin (of_nat n * 2 powi k)"
begin

lemma r_between:
  assumes "r a = Fin a" and "r b = Fin b" and "a \<le> x" and "x \<le> b"
  obtains y where "r x = Fin y" and "a \<le> y" and "y \<le> b" and "r y = Fin y"
proof -
  have "fle (Fin a) (r x)" "fle (r x) (Fin b)"
    using r_mono [OF assms(3)] r_mono [OF assms(4)] assms(1,2) by simp_all
  then obtain y where "r x = Fin y" "a \<le> y" "y \<le> b"
    by (cases "r x") auto
  then show ?thesis
    using that r_idem by blast
qed

lemma r_minus_fin: "r b = Fin b \<Longrightarrow> r (- b) = Fin (- b)"
  by (simp add: r_minus)

text \<open>One step of a mean of non-negative samples.\<close>

lemma mean_step:
  assumes m: "r m = Fin m" "0 \<le> m" and v: "r v = Fin v" "0 \<le> v" and a: "0 \<le> a" "a \<le> 1"
    and u: "r u = Fin u" "m \<le> u" "m \<le> v \<Longrightarrow> m + 4 * a * (v - m) \<le> u"
  obtains m' where "fadd r (Fin m) (fmul r (Fin a) (fsub r (Fin v) (Fin m))) = Fin m'"
    and "0 \<le> m'" and "m' \<le> u" and "r m' = Fin m'"
proof (cases "m \<le> v")
  case True
  obtain d where d: "r (v - m) = Fin d" "0 \<le> d" "d \<le> v"
    using r_between [OF r_zero v(1), of "v - m"] True m(2) by auto
  have "a * d \<le> 1 * v"
    using a d by (intro mult_mono) auto
  then obtain e where e: "r (a * d) = Fin e" "0 \<le> e"
    using r_between [OF r_zero v(1), of "a * d"] a d by auto
  have "d \<le> 2 * (v - m)"
    by (rule r_twice [OF _ d(1)]) (use True in simp)
  moreover have "e \<le> 2 * (a * d)"
    by (rule r_twice [OF _ e(1)]) (use a d(2) in simp)
  ultimately have "e \<le> 4 * a * (v - m)"
    using mult_left_mono [of d "2 * (v - m)" a] a by (simp add: algebra_simps)
  then have "0 \<le> m + e" "m + e \<le> u"
    using u(3) [OF True] m e by linarith+
  then obtain m' where "r (m + e) = Fin m'" "0 \<le> m'" "m' \<le> u" "r m' = Fin m'"
    using r_between [OF r_zero u(1)] by blast
  then show ?thesis
    using that d(1) e(1) by (simp add: fsub_def)
next
  case False
  obtain d where d: "r (v - m) = Fin d" "- m \<le> d" "d \<le> 0"
    using r_between [OF r_minus_fin [OF m(1)] r_zero, of "v - m"] False v(2) by auto
  have "a * (- d) \<le> 1 * m"
    using a d by (intro mult_mono) auto
  then obtain e where e: "r (a * d) = Fin e" "- m \<le> e" "e \<le> 0"
    using r_between [OF r_minus_fin [OF m(1)] r_zero, of "a * d"] a d by (auto simp: mult_nonneg_nonpos)
  then obtain m' where "r (m + e) = Fin m'" "0 \<le> m'" "m' \<le> m" "r m' = Fin m'"
    using r_between [OF r_zero m(1), of "m + e"] by auto
  then show ?thesis
    using that d(1) e(1) u(2) by (simp add: fsub_def)
qed

text \<open>One step of a variance, for a weight of at least a quarter and differences up to \<open>b\<close>.\<close>

lemma variance_step:
  assumes a: "1 / 4 \<le> a" "a \<le> 1" and d: "r d = Fin d" "\<bar>d\<bar> \<le> b"
    and b: "r b = Fin b" and w: "r w = Fin w" "b * b \<le> w"
    and sums: "r (4 * w) = Fin (4 * w)" "r (3 * w) = Fin (3 * w)"
    and s: "0 \<le> s" "s \<le> 3 * w"
  obtains s' where "fmul r (fsub r (Fin 1) (Fin a)) (fadd r (Fin s) (fmul r (fmul r (Fin a) (Fin d)) (Fin d))) = Fin s'"
    and "0 \<le> s'" and "s' \<le> 3 * w"
proof -
  have b0: "0 \<le> b" using d(2) by linarith
  have "\<bar>a * d\<bar> \<le> 1 * b"
    unfolding abs_mult using a d(2) by (intro mult_mono) auto
  then have ad: "- b \<le> a * d" "a * d \<le> b" by auto
  obtain e where e: "r (a * d) = Fin e" "\<bar>e\<bar> \<le> b"
    using r_between [OF r_minus_fin [OF b] b ad] by (metis abs_le_iff minus_le_iff)
  have sign: "0 \<le> e * d"
  proof (cases "0 \<le> d")
    case True
    then have "fnonneg (r (a * d))" using a by (intro r_nonneg) simp
    then show ?thesis using True e(1) by simp
  next
    case False
    then have "fle (r (a * d)) (r 0)" using a by (intro r_mono) (simp add: mult_nonneg_nonpos)
    then show ?thesis using False e(1) r_zero by (simp add: mult_nonpos_nonpos)
  qed
  have "\<bar>e\<bar> * \<bar>d\<bar> \<le> b * b"
    using e(2) d(2) b0 by (intro mult_mono) auto
  then have "e * d \<le> w"
    using w(2) abs_mult [of e d] sign by simp
  then obtain q where q: "r (e * d) = Fin q" "0 \<le> q" "q \<le> w"
    using r_between [OF r_zero w(1) sign] by blast
  obtain z where z: "r (s + q) = Fin z" "0 \<le> z" "z \<le> 4 * w"
    using r_between [OF r_zero sums(1), of "s + q"] s q by auto
  have "r (3 / 4) = Fin (3 / 4)"
    using r_dyadic [of 3 "- 2"] by (simp add: power_int_minus)
  then obtain c where c: "r (1 - a) = Fin c" "0 \<le> c" "c \<le> 3 / 4"
    using r_between [OF r_zero, of "3 / 4" "1 - a"] a by auto
  have "c * z \<le> 3 / 4 * (4 * w)"
    using c z by (intro mult_mono) auto
  then obtain s' where "r (c * z) = Fin s'" "0 \<le> s'" "s' \<le> 3 * w"
    using r_between [OF r_zero sums(2), of "c * z"] c z by auto
  then show ?thesis
    using that e(1) q(1) z(1) c(1) by (simp add: fsub_def)
qed

end

interpretation exact_avg: averaging_mode Fin
  by unfold_locales auto

lemma round_even_twice: "0 \<le> y \<Longrightarrow> of_int (round_even y) \<le> 2 * y"
proof -
  assume y: "0 \<le> y"
  show ?thesis
  proof (cases "1 \<le> y")
    case True
    have "of_int (round_even y) \<le> of_int \<lfloor>y\<rfloor> + (1 :: rat)"
      using round_even_floor [of y] by linarith
    then show ?thesis
      using True of_int_floor_le [of y] by linarith
  next
    case False
    then have "\<lfloor>y\<rfloor> = 0" using y by (simp add: floor_eq_iff)
    then show ?thesis
      using y by (auto simp: round_even_def Let_def)
  qed
qed

lemma round_pos_twice: "0 < x \<Longrightarrow> round_pos x \<le> 2 * x"
proof -
  assume x: "0 < x"
  let ?u = "2 powi (round_exp x - 52) :: rat"
  have "of_int (round_even (x / ?u)) * ?u \<le> 2 * (x / ?u) * ?u"
    using x by (intro mult_right_mono round_even_twice) simp_all
  then show ?thesis
    by (simp add: round_pos_def Let_def)
qed

lemma round64_dyadic:
  assumes "n < 2 ^ 53" and "\<bar>k\<bar> \<le> 900"
  shows "round64 (of_nat n * 2 powi k) = Fin (of_nat n * 2 powi k)"
proof (cases "n = 0")
  case True
  then show ?thesis by (simp add: round64_zero)
next
  case False
  let ?x = "of_nat n * 2 powi k :: rat"
  have pos: "0 < ?x" using False by simp
  have "(of_nat n :: rat) < 2 powi 53"
    using assms(1) by (simp add: powi2_nat)
  then have lt: "?x < 2 powi (53 + k)"
    by (simp add: powi2_add mult_strict_right_mono)
  then have "(2 :: rat) powi (rexp ?x) < 2 powi (53 + k)"
    using rexp_bounds [OF pos] by linarith
  then have "rexp ?x < 53 + k"
    by (simp only: powi2_less)
  then have "round_exp ?x - 52 \<le> k"
    using assms(2) by (simp add: round_exp_def)
  then have "round_pos ?x = ?x"
    by (intro round_pos_grid [of _ "int n" k]) auto
  moreover have "?x < f64_limit"
  proof -
    have "(2 :: rat) powi (53 + k) \<le> 2 powi 1024" using assms(2) by (simp only: powi2_le)
    also have "\<dots> = f64_limit" by (simp add: power_int_def f64_limit_def del: power_numeral)
    finally show ?thesis using lt by simp
  qed
  ultimately show ?thesis using pos by (simp add: round64_pos)
qed

interpretation ieee_avg: averaging_mode round64
proof unfold_locales
  show "y \<le> 2 * x" if "0 \<le> x" and "round64 x = Fin y" for x y
    using that round_pos_twice [of x] by (cases "x = 0") (auto simp: round64_zero round64_pos split: if_splits)
  show "round64 (- x) = fneg (round64 x)" for x
    by (auto simp: round64_def Let_def)
  show "n < 2 ^ 53 \<Longrightarrow> \<bar>k\<bar> \<le> 900 \<Longrightarrow> round64 (of_nat n * 2 powi k) = Fin (of_nat n * 2 powi k)" for n k
    by (rule round64_dyadic)
qed

section \<open>The averages\<close>

text \<open>
  The ranges that hold between observations. A sample of latency is below \<open>2\<^sup>4\<^sup>5\<close> milliseconds,
  the longest duration that Go can represent; the mean is then below \<open>2\<^sup>4\<^sup>7\<close>, and the variance
  below three times the square of that.
\<close>

definition latency_ok :: "rounding \<Rightarrow> ewma \<Rightarrow> bool" where
  "latency_ok r e \<longleftrightarrow> ewc_Alpha (ew_config e) = r (3 / 10) \<and>
     (\<exists>m s. ew_mean e = Fin m \<and> r m = Fin m \<and> 0 \<le> m \<and> m \<le> 2 ^ 47 \<and>
        ew_variance e = Fin s \<and> 0 \<le> s \<and> s \<le> 3 * 2 ^ 94)"

definition loss_ok :: "rounding \<Rightarrow> ewma \<Rightarrow> bool" where
  "loss_ok r e \<longleftrightarrow> ewc_Alpha (ew_config e) = r (1 / 20) \<and>
     (\<exists>m. ew_mean e = Fin m \<and> r m = Fin m \<and> 0 \<le> m \<and> m \<le> 1)"

definition sample_ok :: "rounding \<Rightarrow> f64 \<Rightarrow> bool" where
  "sample_ok r v \<longleftrightarrow> (\<exists>x. v = Fin x \<and> r x = Fin x \<and> 0 \<le> x \<and> x \<le> 2 ^ 45)"

context averaging_mode
begin

lemma r_power: "k \<le> 900 \<Longrightarrow> r (2 ^ k) = Fin (2 ^ k)"
  using r_dyadic [of 1 "int k"] by simp

lemma r_three_power: "k \<le> 900 \<Longrightarrow> r (3 * 2 ^ k) = Fin (3 * 2 ^ k)"
  using r_dyadic [of 3 "int k"] by simp

lemma alpha_latency:
  obtains a where "r (3 / 10) = Fin a" and "1 / 4 \<le> a" and "a \<le> 3 / 5"
proof -
  have "r (1 / 4) = Fin (1 / 4)"
    using r_dyadic [of 1 "- 2"] by (simp add: power_int_minus)
  then obtain a where a: "r (3 / 10) = Fin a" "1 / 4 \<le> a"
    using r_between [OF _ r_one, of "1 / 4" "3 / 10"] by auto
  then show ?thesis
    using that r_twice [of "3 / 10" a] by simp
qed

lemma alpha_loss:
  obtains a where "r (1 / 20) = Fin a" and "0 \<le> a" and "a \<le> 1 / 10"
proof -
  obtain a where a: "r (1 / 20) = Fin a" "0 \<le> a"
    using r_between [OF r_zero r_one, of "1 / 20"] by auto
  then show ?thesis
    using that r_twice [of "1 / 20" a] by simp
qed

lemma Observe_loss:
  assumes "loss_ok r e" and v: "v = 0 \<or> v = 1"
  shows "loss_ok r (Observe r ts (Fin v) e)"
proof (cases "ew_n e = 0")
  case True
  then show ?thesis
    using assms r_zero r_one by (auto simp: loss_ok_def Observe_def)
next
  case False
  obtain m where e: "ewc_Alpha (ew_config e) = r (1 / 20)" "ew_mean e = Fin m" "r m = Fin m" "0 \<le> m" "m \<le> 1"
    using assms(1) by (auto simp: loss_ok_def)
  obtain a where a: "r (1 / 20) = Fin a" "0 \<le> a" "a \<le> 1 / 10"
    by (rule alpha_loss)
  have rv: "r v = Fin v" "0 \<le> v" using v r_zero r_one by auto
  have u: "m + 4 * a * (v - m) \<le> 1" if "m \<le> v"
  proof -
    have "4 * a * (v - m) \<le> 1 * (v - m)"
      using that a by (intro mult_right_mono) simp_all
    then show ?thesis using v by auto
  qed
  obtain m' where "fadd r (Fin m) (fmul r (Fin a) (fsub r (Fin v) (Fin m))) = Fin m'"
      "0 \<le> m'" "m' \<le> 1" "r m' = Fin m'"
    by (rule mean_step [OF e(3,4) rv a(2) _ r_one e(5) u]) (use a in simp_all)
  then show ?thesis
    using False e a(1) by (simp add: loss_ok_def Observe_def Let_def)
qed

lemma Observe_latency:
  assumes "latency_ok r e" and "sample_ok r v"
  shows "latency_ok r (Observe r ts v e)"
proof -
  obtain x where v: "v = Fin x" "r x = Fin x" "0 \<le> x" "x \<le> 2 ^ 45"
    using assms(2) by (auto simp: sample_ok_def)
  obtain m s where e: "ewc_Alpha (ew_config e) = r (3 / 10)" "ew_mean e = Fin m" "r m = Fin m" "0 \<le> m"
      "m \<le> 2 ^ 47" "ew_variance e = Fin s" "0 \<le> s" "s \<le> 3 * 2 ^ 94"
    using assms(1) by (auto simp: latency_ok_def)
  obtain a where a: "r (3 / 10) = Fin a" "1 / 4 \<le> a" "a \<le> 3 / 5"
    by (rule alpha_latency)
  have u: "m + 4 * a * (x - m) \<le> 2 ^ 47" if "m \<le> x"
  proof -
    have "4 * a * (x - m) \<le> 4 * 1 * (x - m)"
      using that a by (intro mult_right_mono) simp_all
    then show ?thesis using v(4) e(4) by simp
  qed
  obtain m' where m': "fadd r (Fin m) (fmul r (Fin a) (fsub r (Fin x) (Fin m))) = Fin m'"
      "0 \<le> m'" "m' \<le> 2 ^ 47" "r m' = Fin m'"
    by (rule mean_step [OF e(3,4) v(2,3) _ _ r_power e(5) u]) (use a in simp_all)
  have p: "r (2 ^ 47) = Fin (2 ^ 47)" "r (2 ^ 94) = Fin (2 ^ 94)" "r (3 * 2 ^ 94) = Fin (3 * 2 ^ 94)"
      "r (4 * 2 ^ 94) = Fin (4 * 2 ^ 94)"
    using r_power [of 47] r_power [of 94] r_three_power [of 94] r_power [of 96] by simp_all
  have "- (2 ^ 47) \<le> x - m" "x - m \<le> 2 ^ 47"
    using e(4,5) v(3,4) by simp_all
  then obtain d where d: "r (x - m) = Fin d" "- (2 ^ 47) \<le> d" "d \<le> 2 ^ 47" "r d = Fin d"
    by (rule r_between [OF r_minus_fin [OF p(1)] p(1)])
  obtain s' where "fmul r (fsub r (Fin 1) (Fin a)) (fadd r (Fin s) (fmul r (fmul r (Fin a) (Fin d)) (Fin d))) = Fin s'"
      "0 \<le> s'" "s' \<le> 3 * 2 ^ 94"
    by (rule variance_step [OF a(2) _ d(4) _ p(1,2) _ p(4,3) e(7,8)]) (use a d(2,3) in auto)
  then show ?thesis
    using e a(1) m' d(1) v by (cases "ew_n e = 0") (simp_all add: latency_ok_def Observe_def Let_def fsub_def)
qed

end

definition edge_ok :: "rounding \<Rightarrow> (CostDimension, ewma) gomap \<Rightarrow> bool" where
  "edge_ok r m \<longleftrightarrow> (\<exists>lat loss. mget m COSTDIM_LATENCY = Some lat \<and> latency_ok r lat \<and>
     mget m COSTDIM_LOSS = Some loss \<and> loss_ok r loss)"

definition collector_ok :: "rounding \<Rightarrow> collector \<Rightarrow> bool" where
  "collector_ok r t \<longleftrightarrow> (\<forall>i m. mget (tc_ewmas t) i = Some m \<longrightarrow> edge_ok r m)"

lemmas costdims = COSTDIM_LOSS_def COSTDIM_LATENCY_def COSTDIM_JITTER_def

text \<open>
  What \<^verbatim>\<open>math.Log1p\<close> promises on the arguments that occur: finite and not positive between minus
  one and zero, below \<open>-1/128\<close> where its argument is, and above \<open>-14\<close> at the greatest loss.
\<close>

definition log1p_law :: "(f64 \<Rightarrow> f64) \<Rightarrow> bool" where
  "log1p_law log1p \<longleftrightarrow> (\<forall>x. - (1048575 / 1048576) \<le> x \<and> x \<le> 0 \<longrightarrow>
     (\<exists>y. log1p (Fin x) = Fin y \<and> - 14 \<le> y \<and> y \<le> 0 \<and> (x \<le> - (1 / 128) \<longrightarrow> y \<le> - (1 / 128))))"

definition cost_ok :: "f64 \<Rightarrow> bool" where
  "cost_ok c \<longleftrightarrow> (\<exists>x. c = Fin x \<and> 0 \<le> x)"

context averaging_mode
begin

lemma durationMs_ok:
  assumes "0 \<le> d" and "d < 2 ^ 63"
  shows "sample_ok r (durationMs r d)"
proof -
  have p: "r (2 ^ 54) = Fin (2 ^ 54)" "r (2 ^ 45) = Fin (2 ^ 45)"
    by (rule r_power, simp)+
  have "0 \<le> microseconds d" "microseconds d \<le> 2 ^ 54"
    using assms by (simp_all add: microseconds_def go_quot_def)
  then have "(0 :: rat) \<le> of_int (microseconds d)" "of_int (microseconds d) \<le> (2 ^ 54 :: rat)"
    by simp_all
  then obtain y where y: "r (of_int (microseconds d)) = Fin y" "0 \<le> y" "y \<le> 2 ^ 54"
    by (rule r_between [OF r_zero p(1)])
  then have "0 \<le> y / 1000" "y / 1000 \<le> 2 ^ 45"
    by simp_all
  then obtain x where "r (y / 1000) = Fin x" "0 \<le> x" "x \<le> 2 ^ 45" "r x = Fin x"
    by (rule r_between [OF r_zero p(2)])
  then show ?thesis
    using y(1) by (simp add: sample_ok_def durationMs_def)
qed

lemma fresh_ok: "edge_ok r (edgeEwmas r i t)" if "collector_ok r t"
proof (cases "mget (tc_ewmas t) i")
  case None
  then show ?thesis
    using r_zero
    by (simp add: edge_ok_def edgeEwmas_def costdims latency_ok_def loss_ok_def fresh_ewma_def)
next
  case (Some m)
  then show ?thesis
    using that by (simp add: collector_ok_def edgeEwmas_def)
qed

lemma observe_loss_ok: "edge_ok r m \<Longrightarrow> v = 0 \<or> v = 1 \<Longrightarrow> edge_ok r (observe_at r COSTDIM_LOSS ts (Fin v) m)"
  by (auto simp: edge_ok_def observe_at_def ewma_at_def costdims intro!: Observe_loss)

lemma observe_latency_ok: "edge_ok r m \<Longrightarrow> sample_ok r v \<Longrightarrow> edge_ok r (observe_at r COSTDIM_LATENCY ts v m)"
  by (auto simp: edge_ok_def observe_at_def ewma_at_def costdims intro!: Observe_latency)

lemma observe_lost_ok: "edge_ok r m \<Longrightarrow> edge_ok r ((observe_at r COSTDIM_LOSS ts (Fin 1) ^^ n) m)"
  by (induction n) (simp_all add: observe_loss_ok)

lemma observeLoss_ok: "edge_ok r m \<Longrightarrow> edge_ok r (fst (observeLoss r now seq prev m))"
  by (simp add: observeLoss_def observe_loss_ok observe_lost_ok Let_def split: option.split)

lemma observeSample_ok:
  assumes "collector_ok r t" and "sample_ok r ms"
  shows "edge_ok r (fst (observeSample r now i ms seq t))"
    and "collector_ok r (snd (observeSample r now i ms seq t))"
proof -
  show e: "edge_ok r (fst (observeSample r now i ms seq t))"
    using observeLoss_ok [OF observe_latency_ok [OF fresh_ok [OF assms(1)] assms(2)]]
    by (simp add: observeSample_def Let_def case_prod_beta)
  then show "collector_ok r (snd (observeSample r now i ms seq t))"
    using assms(1) by (simp add: observeSample_def collector_ok_def Let_def case_prod_beta)
qed

text \<open>The costs of averages in their ranges.\<close>

lemma lossNormalized_ok:
  assumes law: "log1p_law log1p" and m: "0 \<le> m" "m \<le> 1"
  shows "cost_ok (fdiv r (fneg (log1p (fneg (fmin (Fin m) (r (999999 / 1000000))))))
    (fneg (log1p (fneg (costLossReference r)))))"
proof -
  have big: "r (1048575 / 1048576) = Fin (1048575 / 1048576)"
    using r_dyadic [of 1048575 "- 20"] by (simp add: power_int_minus)
  obtain q where q: "r (999999 / 1000000) = Fin q" "0 \<le> q" "q \<le> 1048575 / 1048576"
    by (rule r_between [OF r_zero big, of "999999 / 1000000"]) simp_all
  have "- (1048575 / 1048576) \<le> - min m q" "- min m q \<le> 0"
    using m q by auto
  then obtain n where n: "log1p (Fin (- min m q)) = Fin n" "- 14 \<le> n" "n \<le> 0"
    using law unfolding log1p_law_def by blast
  have "r (1 / 128) = Fin (1 / 128)"
    using r_dyadic [of 1 "- 7"] by (simp add: power_int_minus)
  then obtain c where c: "r (1 / 100) = Fin c" "1 / 128 \<le> c" "c \<le> 1048575 / 1048576"
    by (rule r_between [OF _ big, of "1 / 128" "1 / 100"]) simp_all
  have "- (1048575 / 1048576) \<le> - c" "- c \<le> 0" "- c \<le> - (1 / 128)"
    using c(2,3) by simp_all
  then obtain z where z: "log1p (Fin (- c)) = Fin z" "z \<le> - (1 / 128)"
    using law unfolding log1p_law_def by blast
  have p: "r (2 ^ 11) = Fin (2 ^ 11)"
    by (rule r_power) simp
  have "0 \<le> n / z"
    using n z(2) by (simp add: divide_nonpos_nonpos)
  moreover have "n / z \<le> 2 ^ 11"
  proof -
    have "- n \<le> 2 ^ 11 * (- z)" using n z by simp
    then show ?thesis using z(2) by (simp add: divide_le_eq) 
  qed
  ultimately obtain x where "r (n / z) = Fin x" "0 \<le> x"
    by (rule r_between [OF r_zero p])
  then show ?thesis
    using q(1) n(1) c(1) z by (auto simp: cost_ok_def costLossReference_def min_def split: if_splits)
qed

end

section \<open>The costs\<close>

text \<open>The costs that probes measure are finite and not negative, on every edge.\<close>

definition probed_ok :: "cost_graph \<Rightarrow> bool" where
  "probed_ok cg \<longleftrightarrow> (\<forall>k c d x. mget (cg_graph cg) k = Some c \<longrightarrow>
     d \<in> {COSTDIM_LATENCY, COSTDIM_JITTER, COSTDIM_LOSS} \<longrightarrow> mget c d = Some x \<longrightarrow> cost_ok x)"

lemma UpdateCost_probed: "probed_ok cg \<Longrightarrow> cost_ok c \<Longrightarrow> probed_ok (UpdateCost i d c cg)"
  by (auto simp: probed_ok_def UpdateCost_def split: option.splits if_splits)

lemma Mark_probed [simp]:
  "probed_ok (MarkSeen i now cg) = probed_ok cg" "probed_ok (MarkEdgeConverged i cg) = probed_ok cg"
  by (simp_all add: probed_ok_def MarkSeen_def MarkEdgeConverged_def)

context averaging_mode
begin

lemma cost_quotient:
  assumes "r b = Fin b" and "0 \<le> x" and "x \<le> b" and "1 \<le> y"
  shows "cost_ok (fdiv r (Fin x) (Fin y))"
proof -
  have "x / y \<le> x"
    using assms(2,4) mult_left_mono [of 1 y x] by (simp add: divide_le_eq)
  then have "0 \<le> x / y" "x / y \<le> b"
    using assms by simp_all
  then obtain q where "r (x / y) = Fin q" "0 \<le> q"
    by (rule r_between [OF r_zero assms(1)])
  then show ?thesis
    using assms(4) by (simp add: cost_ok_def)
qed

lemma publishCosts_ok:
  assumes "log1p_law log1p" and "edge_ok r m" and "probed_ok cg"
  shows "probed_ok (publishCosts r log1p now i m cg)"
proof -
  obtain lat loss where e: "mget m COSTDIM_LATENCY = Some lat" "latency_ok r lat"
      "mget m COSTDIM_LOSS = Some loss" "loss_ok r loss"
    using assms(2) by (auto simp: edge_ok_def)
  obtain x s where lat: "ew_mean lat = Fin x" "0 \<le> x" "x \<le> 2 ^ 47" "ew_variance lat = Fin s" "0 \<le> s"
      "s \<le> 3 * 2 ^ 94"
    using e(2) by (auto simp: latency_ok_def)
  obtain p where loss: "ew_mean loss = Fin p" "0 \<le> p" "p \<le> 1"
    using e(4) by (auto simp: loss_ok_def)
  have "cost_ok (fdiv r (Fin x) costDelayReferenceMs)"
    unfolding costDelayReferenceMs_def by (rule cost_quotient [OF r_power lat(2,3)]) simp_all
  moreover have "r 25 = Fin 25"
    using r_dyadic [of 25 0] by simp
  then have "fmul r costJitterReferenceMs costJitterReferenceMs = Fin 25"
    by (simp add: costJitterReferenceMs_def)
  moreover have "cost_ok (fdiv r (Fin s) (Fin 25))"
    by (rule cost_quotient [OF r_three_power lat(5,6)]) simp_all
  ultimately show ?thesis
    using lossNormalized_ok [OF assms(1) loss(2,3)] e(1,3) lat(1,4) loss(1) assms(3)
    by (simp add: publishCosts_def ewma_at_def NormalizeDelayJitterLoss_def Let_def UpdateCost_probed)
qed

lemma handleSTAMP_ok:
  assumes "log1p_law log1p" and "collector_ok r t" and "probed_ok cg"
  shows "collector_ok r (hd_collector (handleSTAMP r log1p un store now seen pkt key t cg)) \<and>
    probed_ok (hd_costs (handleSTAMP r log1p un store now seen pkt key t cg))"
proof -
  have ms: "sample_ok r (durationMs r (time_sub a b))" if "\<not> time_sub a b < 0" for a b
    using that by (intro durationMs_ok) (simp_all add: time_sub_def)
  show ?thesis
    using observeSample_ok [OF assms(2) ms] publishCosts_ok [OF assms(1) observeSample_ok(1) [OF assms(2) ms] assms(3)] assms
    by (simp add: handleSTAMP_def unhandled_def Let_def case_prod_beta split: sum.split option.split)
qed

lemma handleNetStat_ok:
  assumes "collector_ok r t" and "probed_ok cg"
  shows "collector_ok r (hd_collector (handleNetStat un store pkt node t cg))"
    and "probed_ok (hd_costs (handleNetStat un store pkt node t cg))"
  using assms by (simp_all add: handleNetStat_def unhandled_def split: sum.split)

lemma handleTelemetryConsume_ok:
  assumes "log1p_law (tv_log1p env)" and "collector_ok r t" and "probed_ok cg"
  shows "collector_ok r (hd_collector (handleTelemetryConsume r env now seen msg t cg)) \<and>
    probed_ok (hd_costs (handleTelemetryConsume r env now seen msg t cg))"
  using assms
  by (simp add: handleTelemetryConsume_def unhandled_def Let_def handleSTAMP_ok handleNetStat_ok
      split: sum.split)

lemma consumeAll_ok:
  assumes "log1p_law (tv_log1p env)" and "collector_ok r t" and "probed_ok cg"
  shows "collector_ok r (fst (consumeAll r env ms t cg)) \<and> probed_ok (snd (consumeAll r env ms t cg))"
  using assms(2,3)
proof (induction ms arbitrary: t cg)
  case (Cons m ms)
  obtain now seen msg where m: "m = (now, seen, msg)"
    by (cases m)
  show ?case
    using Cons.IH handleTelemetryConsume_ok [OF assms(1) Cons.prems] by (simp add: m Let_def)
qed simp

end

section \<open>Subjects\<close>

lemma split_on_nonempty [simp]: "split_on c s \<noteq> []"
  by (induction s) (auto split: list.split)

lemma split_on_append:
  "split_on c (s @ c # t) = split_on c s @ split_on c t"
  by (induction s) (auto split: list.split simp: neq_Nil_conv)

lemma split_on_free: "c \<notin> set s \<Longrightarrow> split_on c s = [s]"
  by (induction s) auto

lemma join_split: "join [c] (split_on c s) = s"
proof (induction s)
  case (Cons x s)
  then show ?case
    by (cases "split_on c s"; cases "tl (split_on c s)") auto
qed simp

text \<open>The collector reads the key of a result back from the subject it was published under.\<close>

lemma subject_tokens:
  assumes "dc_SubjectPrefix cfg = tc_SubjectPrefix t" and "CHR ''.'' \<notin> set (rk_ProbeType pkt)"
  shows "split_on (CHR ''.'') (Subject cfg pkt) =
    split_on (CHR ''.'') (tc_SubjectPrefix t) @ rk_ProbeType pkt # split_on (CHR ''.'') (rk_TelemetryKey pkt)"
  using assms by (simp add: Subject_def split_on_append split_on_free)

lemma consume_dispatched:
  assumes "dc_SubjectPrefix cfg = tc_SubjectPrefix t" and "CHR ''.'' \<notin> set (rk_ProbeType pkt)"
    and "mg_Subject msg = Subject cfg pkt" and "tv_decode env (mg_Payload msg) = Inr pkt"
    and "rk_ProbeType pkt = ProbeTypeSTAMP"
  shows "handleTelemetryConsume r env now seen msg t cg =
    handleSTAMP r (tv_log1p env) (tv_stamp env) (tv_sample env) now seen pkt (rk_TelemetryKey pkt) t cg"
proof -
  have "0 < length (split_on (CHR ''.'') (rk_TelemetryKey pkt))"
    by simp
  then show ?thesis
    using assms by (simp add: handleTelemetryConsume_def subject_tokens Let_def join_split del: length_greater_0_conv)
qed

end
