(* ===== verification/Telemetry_Run.thy ===== *)
theory Telemetry_Run
  imports Telemetry_Correct
begin

text \<open>
  The properties of the measurement plane, from the octets of a probe on a link to the
  cost of that link in the control plane, with concrete runs of each.
\<close>

section \<open>Packets\<close>

text \<open>C18. Every packet is read back as it was written. The octets of a sender's or a reflector's
  packet decode to that packet, except that a telemetry key which is not UTF-8 is refused and
  that extensions without any TLV are not sent; and a packet can be encoded exactly when its
  key fits the length fields.
\<close>

theorem packets_roundtrip:
  assumes "SenderPacket_Encode None p = Inr b" and "ReflectorPacket_Encode None q = Inr c"
  shows "DecodeSenderPacket None b =
      (if key_readable (sp_SRExtensions p)
       then Inr (p\<lparr>sp_SRExtensions := sent_extensions (sp_SRExtensions p)\<rparr>) else Inl KeyNotUTF8) \<and>
    DecodeReflectorPacket None c =
      (if key_readable (fp_SRExtensions q)
       then Inr (q\<lparr>fp_SRExtensions := sent_extensions (fp_SRExtensions q)\<rparr>) else Inl KeyNotUTF8) \<and>
    ((\<exists>out. SenderPacket_Encode None p' = Inr out) \<longleftrightarrow> key_fits (sp_SRExtensions p')) \<and>
    ((\<exists>out. ReflectorPacket_Encode None q' = Inr out) \<longleftrightarrow> key_fits (fp_SRExtensions q'))"
  using DecodeSenderPacket_Encode [OF assms(1)] DecodeReflectorPacket_Encode [OF assms(2)]
  by (simp add: SenderPacket_Encode_def ReflectorPacket_Encode_def append_extensions_defined)

definition demo_probe :: stamp_probe where
  "demo_probe =
     \<lparr>pc_ProbeType = ProbeTypeSTAMP, pc_LocalLoopback = None, pc_PeerDestination = Addr6 1,
      pc_TelemetryKey = ''A:eth1-B.2'', pc_IsSender = True, pc_NoReply = True, pc_DestPort = 0,
      pc_EgressInterface = ''eth1'', pc_EncapSegments = [], pc_ProbeInterval = second\<rparr>"

lemma demo_probe_sound: "sound_probe demo_probe"
  by (simp add: sound_probe_def demo_probe_def string_bytes_def)

definition demo_reply :: reflector_packet where
  "demo_reply = echo 5 6 (NewReflector stampConfig) probe_estimate (sent_packet demo_probe 7 4)"

lemma demo_reply_encodes: "\<exists>c. ReflectorPacket_Encode None demo_reply = Inr c"
  unfolding ReflectorPacket_Encode_def
  by (simp add: append_extensions_defined)
    (simp add: demo_reply_def echo_def sent_packet_def srExtensions_def demo_probe_def key_fits_def key_of_def
      sent_extensions_def)

theorem packets_roundtrip_witness:
  "DecodeSenderPacket None (sent_bytes demo_probe 7 4) = Inr (sent_packet demo_probe 7 4) \<and>
   (\<exists>c. ReflectorPacket_Encode None demo_reply = Inr c \<and> DecodeReflectorPacket None c = Inr demo_reply)"
proof -
  obtain c where c: "ReflectorPacket_Encode None demo_reply = Inr c"
    using demo_reply_encodes by blast
  have ext: "fp_SRExtensions demo_reply = sp_SRExtensions (sent_packet demo_probe 7 4)"
    using sent_packet_extensions(1) [OF demo_probe_sound] by (simp add: demo_reply_def echo_def)
  show ?thesis
    using packets_roundtrip [OF sent_bytes_encode(1) [OF demo_probe_sound, of 7 4] c]
      sent_packet_extensions [OF demo_probe_sound, of 7 4] c by (simp add: ext)
qed

section \<open>Probing\<close>

text \<open>C20. A probe that arrives is reported for what it was. Whatever part of a sender's probes
  reaches a reflector, in whatever order and however often, each arrival is reported once, in
  the order of arrival, under the sender's telemetry key, with the sequence number and the
  time of the probe that arrived (to the nanosecond of the wire) and the time it was read.
\<close>

theorem arrivals_reported:
  fixes as :: "arrival list" and envs :: "send_env list" and cfg rcfg :: stamp_probe
  assumes "sound_probe cfg" and "list_all calm envs"
    and "list_all (\<lambda>a. ar_seq a < length envs \<and> ar_sent a = te_now (envs ! ar_seq a) \<and>
      in_era (ar_sent a) \<and> in_era (ar_rx a)) as"
  shows "let run = runSTAMPSender (\<lambda>x. Inr (enc x)) cfg envs None
    in snd run = None \<and> length (fst run) = length envs \<and>
       runSTAMPReflector (\<lambda>x. Inr (enc x)) rcfg
         (map (\<lambda>a. Datagram (ar_rx a) (ar_tx a) (\<lambda>_. None) (fst (fst run ! ar_seq a))) as) =
       map (\<lambda>(j, a). measured enc rcfg cfg j (ar_seq a) (ar_sent a) (ar_rx a)) (enumerate 0 as)"
proof -
  let ?outs = "map (\<lambda>(i, env). (sent_bytes cfg i (te_now env), sent_result enc cfg i env)) (enumerate 0 envs)"
  have run: "runSTAMPSender (\<lambda>x. Inr (enc x)) cfg envs None = (?outs, None)"
    by (rule runSTAMPSender_sound [OF assms(1,2)]) simp
  have "Datagram (ar_rx a) (ar_tx a) (\<lambda>_. None) (fst (?outs ! ar_seq a)) = arrives cfg a" if "a \<in> set as" for a
    using that assms(3) by (auto simp: list_all_iff arrives_def nth_enumerate_eq)
  then have evs: "map (\<lambda>a. Datagram (ar_rx a) (ar_tx a) (\<lambda>_. None) (fst (?outs ! ar_seq a))) as = map (arrives cfg) as"
    by simp
  have "list_all (\<lambda>a. in_era (ar_sent a) \<and> in_era (ar_rx a)) as"
    using assms(3) by (auto simp: list_all_iff)
  from Serve_arrivals [OF assms(1) this, of "NewReflector stampConfig" 0 enc rcfg] show ?thesis
    unfolding run Let_def fst_conv snd_conv evs by (simp add: runSTAMPReflector_def NewReflector_def)
qed

definition demo_tick :: "time \<Rightarrow> send_env" where
  "demo_tick t = \<lparr>te_dial = None, te_sent_at = t, te_now = t, te_write = (\<lambda>_. None)\<rparr>"

text \<open>Three probes of which the third arrives twice, the first late, and the second never.\<close>

theorem arrivals_reported_witness:
  "let run = runSTAMPSender (\<lambda>x. Inr x) demo_probe (map demo_tick [0, 10, 20]) None;
       arr = (\<lambda>i t rx. \<lparr>ar_seq = i, ar_sent = t, ar_rx = rx, ar_tx = rx\<rparr>);
       as = [arr 2 20 25, arr 0 0 30, arr 2 20 35]
   in runSTAMPReflector (\<lambda>x. Inr x) reflector_probe
        (map (\<lambda>a. Datagram (ar_rx a) (ar_tx a) (\<lambda>_. None) (fst (fst run ! ar_seq a))) as) =
      [measured id reflector_probe demo_probe 0 2 20 25, measured id reflector_probe demo_probe 1 0 0 30,
       measured id reflector_probe demo_probe 2 2 20 35]"
  using arrivals_reported [where cfg = demo_probe and envs = "map demo_tick [0, 10, 20]" and enc = id
      and as = "[\<lparr>ar_seq = 2, ar_sent = 20, ar_rx = 25, ar_tx = 25\<rparr>,
        \<lparr>ar_seq = 0, ar_sent = 0, ar_rx = 30, ar_tx = 30\<rparr>,
        \<lparr>ar_seq = 2, ar_sent = 20, ar_rx = 35, ar_tx = 35\<rparr>]" and rcfg = reflector_probe]
    demo_probe_sound
  by (simp add: Let_def calm_def demo_tick_def in_era_def second_def NtpUnixOffset_def numeral_2_eq_2)





section \<open>Collecting\<close>


definition demo_log1p :: "f64 \<Rightarrow> f64" where
  "demo_log1p v = (case v of Fin x \<Rightarrow> Fin (2 * x) | _ \<Rightarrow> NaN)"

lemma demo_log1p_law: "log1p_law demo_log1p"
  by (auto simp: log1p_law_def demo_log1p_def)

definition demo_env :: "(stamp_result result_packet, stamp_result) telemetry_env" where
  "demo_env = \<lparr>tv_decode = Inr, tv_stamp = Inr, tv_netstat = (\<lambda>_. Inr []), tv_log1p = demo_log1p,
               tv_sample = (\<lambda>_. None), tv_counters = (\<lambda>_. None)\<rparr>"

definition demo_dispatcher :: dispatcher_config where
  "demo_dispatcher = NewNATSDispatcher \<lparr>dc_SubjectPrefix = ProbeResultSubjectPrefix @ ''.B'', dc_PublishTimeout = 0\<rparr>"


definition demo_measured :: "stamp_result result_packet" where
  "demo_measured = measured id reflector_probe demo_probe 0 2 1000 2500000"

definition demo_cost_graph :: cost_graph where
  "demo_cost_graph = (let k = \<lparr>ck_ID = ''A:eth1-B.2'', ck_From = ''A'', ck_To = ''B''\<rparr>
     in \<lparr>cg_graph = [(k, [(COSTDIM_LATENCY, Fin 1), (COSTDIM_JITTER, Fin 1), (COSTDIM_LOSS, Fin 1)])],
         cg_byID = [(''A:eth1-B.2'', k)], cg_lastSeen = [], cg_converged = [], cg_startedAt = 0\<rparr>)"


text \<open>C24. Measured costs are fit for path computation. In the arithmetic of the machine, and
  whatever messages the collector of a node consumes in whatever order, the mean loss of every
  edge stays between zero and one, its mean latency and variance stay finite and not negative,
  and so do the latency, jitter and loss costs of the graph. The logarithm is only assumed
  to behave as documented between minus one and zero.
\<close>

theorem measured_costs_sound:
  assumes "log1p_law (tv_log1p env)" and "probed_ok cg"
  shows "let run = consumeAll round64 env ms (NewTelemetryCollector n p) cg
    in collector_ok round64 (fst run) \<and> probed_ok (snd run)"
proof -
  have "collector_ok round64 (NewTelemetryCollector n p)"
    by (simp add: collector_ok_def NewTelemetryCollector_def)
  from ieee_avg.consumeAll_ok [OF assms(1) this assms(2)] show ?thesis
    by (simp add: Let_def)
qed

theorem measured_costs_sound_witness:
  "\<exists>msg. Dispatch Inr (\<lambda>_. ''sum'') (\<lambda>_. None) demo_dispatcher demo_measured = Inr msg \<and>
     probed_ok (snd (consumeAll round64 demo_env [(5, 6, msg), (7, 8, msg)]
       (NewTelemetryCollector ''B'' (ProbeResultSubjectPrefix @ ''.B'')) demo_cost_graph))"
proof -
  have "probed_ok demo_cost_graph"
    by (auto simp: probed_ok_def demo_cost_graph_def cost_ok_def costdims mget_def Let_def split: if_splits)
  moreover have "log1p_law (tv_log1p demo_env)"
    using demo_log1p_law by (simp add: demo_env_def)
  ultimately show ?thesis
    using measured_costs_sound [where env = demo_env and cg = demo_cost_graph]
    by (simp add: Dispatch_def Let_def del: consumeAll.simps)
qed

end
