(* ===== verification/Store.thy ===== *)
theory Store
  imports Tenants Telemetry Reconciler "HOL-Library.Product_Lexorder"
begin

text \<open>
  The data store (\<^verbatim>\<open>libs/store\<close> over the schema of \<^verbatim>\<open>db/init\<close>): its tables as lists of rows in
  the order of insertion, and one operation per query, with the constraints that the
  schema puts on it. Keys, unique columns, references and checks are errors when violated,
  and deletions cascade along the references. Reading sorts by the columns of the query;
  rows equal in them stay in the order of insertion. Faults of the connection are part of
  the environment: \<open>st_down\<close> lists the queries that fail, and no operation changes it.
\<close>

section \<open>Tables\<close>

record control_row =
  cr_schema_version :: int
  cr_fingerprint :: string
  cr_sid_cursor :: int
  cr_booted_at :: time

record generation_row =
  gr_node_type :: string
  gr_node_id :: string
  gr_version :: int
  gr_generation :: int

record tenant_row =
  tr_id :: int
  tr_allocation :: prefix
  tr_tier :: string
  tr_tier_index :: int
  tr_vrf_table :: int

record site_row =
  sw_portal_id :: string
  sw_tenant_id :: int
  sw_cpe :: string
  sw_node :: string
  sw_prefix :: prefix
  sw_attach :: string
  sw_attach_node :: string
  sw_if_id :: int
  sw_identity :: string
  sw_reservation_mbps :: f64

record class_row =
  cw_label :: int
  cw_name :: string
  cw_class_index :: int

record dscp_row =
  dw_label :: int
  dw_dscp :: int

record objective_row =
  ow_label :: int
  ow_dimension :: string
  ow_weight :: f64

record reservation_row =
  vw_portal_id :: string
  vw_label :: int
  vw_mbps :: f64

record sid_alloc_row =
  iw_sid :: addr
  iw_locator :: prefix
  iw_tenant_id :: string
  iw_sid_type :: string

record report_row =
  nw_time :: time
  nw_node_id :: string
  nw_node_type :: string
  nw_generation :: int
  nw_observed :: bool
  nw_converged :: bool
  nw_passes :: int
  nw_error :: string

record store =
  st_control :: control_row
  st_generations :: "generation_row list"
  st_tenants :: "tenant_row list"
  st_sites :: "site_row list"
  st_classes :: "class_row list"
  st_dscp :: "dscp_row list"
  st_objectives :: "objective_row list"
  st_reservations :: "reservation_row list"
  st_sids :: "sid_alloc_row list"
  st_reports :: "report_row list"
  st_samples :: "link_sample list"
  st_counters :: "iface_counters list"
  st_down :: "string list"

datatype store_error =
    QueryFailed string
  | DuplicateKey string
  | MissingReference string
  | CheckViolated string
  | InvalidCIDR prefix
  | NoRows

type_synonym update = "store \<Rightarrow> (store_error, store) result"

definition guarded :: "string \<Rightarrow> store \<Rightarrow> (store_error, 'a) result \<Rightarrow> (store_error, 'a) result" where
  "guarded q s res = (if q \<in> set (st_down s) then Inl (QueryFailed q) else res)"

text \<open>A column of type \<^verbatim>\<open>CIDR\<close> takes a network: no bit is set to the right of the mask.\<close>

definition cidr_ok :: "prefix \<Rightarrow> bool" where
  "cidr_ok p \<longleftrightarrow> prefix_is_valid p \<and>
     (case prefix_addr p of
        AddrZero \<Rightarrow> False
      | Addr4 w \<Rightarrow> take_bit (32 - nat (prefix_bits p)) w = 0
      | Addr6 w \<Rightarrow> take_bit (128 - nat (prefix_bits p)) w = 0)"

text \<open>Transactions: the updates happen together or not at all.\<close>

definition InTx :: "update \<Rightarrow> store \<Rightarrow> store_error option \<times> store" where
  "InTx f s =
     (if ''BEGIN'' \<in> set (st_down s) then (Some (QueryFailed ''BEGIN''), s)
      else case f s of
             Inl e \<Rightarrow> (Some e, s)
           | Inr s' \<Rightarrow>
               if ''COMMIT'' \<in> set (st_down s) then (Some (QueryFailed ''COMMIT''), s)
               else (None, s'))"

section \<open>Control state and generations\<close>

definition GetControlState :: "store \<Rightarrow> (store_error, control_row) result" where
  "GetControlState s = guarded ''GetControlState'' s (Inr (st_control s))"

definition SetFingerprint :: "string \<Rightarrow> update" where
  "SetFingerprint f s =
     guarded ''SetFingerprint'' s (Inr (s\<lparr>st_control := (st_control s)\<lparr>cr_fingerprint := f\<rparr>\<rparr>))"

definition SetSIDCursor :: "int \<Rightarrow> update" where
  "SetSIDCursor c s =
     guarded ''SetSIDCursor'' s (Inr (s\<lparr>st_control := (st_control s)\<lparr>cr_sid_cursor := c\<rparr>\<rparr>))"

definition SetBootedAt :: "time \<Rightarrow> update" where
  "SetBootedAt t s =
     guarded ''SetBootedAt'' s (Inr (s\<lparr>st_control := (st_control s)\<lparr>cr_booted_at := t\<rparr>\<rparr>))"

definition same_node :: "string \<Rightarrow> string \<Rightarrow> generation_row \<Rightarrow> bool" where
  "same_node ty i g \<longleftrightarrow> gr_node_type g = ty \<and> gr_node_id g = i"

definition UpsertNodeGeneration :: "generation_row \<Rightarrow> update" where
  "UpsertNodeGeneration g s =
     guarded ''UpsertNodeGeneration'' s
       (Inr (s\<lparr>st_generations :=
          (if \<exists>x \<in> set (st_generations s). same_node (gr_node_type g) (gr_node_id g) x
           then map (\<lambda>x. if same_node (gr_node_type g) (gr_node_id g) x then g else x) (st_generations s)
           else st_generations s @ [g])\<rparr>))"

definition GetNodeGeneration :: "string \<Rightarrow> string \<Rightarrow> store \<Rightarrow> (store_error, generation_row) result" where
  "GetNodeGeneration ty i s =
     guarded ''GetNodeGeneration'' s
       (case List.find (same_node ty i) (st_generations s) of None \<Rightarrow> Inl NoRows | Some g \<Rightarrow> Inr g)"

definition DeleteNodeGeneration :: "string \<Rightarrow> string \<Rightarrow> update" where
  "DeleteNodeGeneration ty i s =
     guarded ''DeleteNodeGeneration'' s
       (Inr (s\<lparr>st_generations := filter (\<lambda>g. \<not> same_node ty i g) (st_generations s)\<rparr>))"

definition ListNodeGenerations :: "store \<Rightarrow> (store_error, generation_row list) result" where
  "ListNodeGenerations s =
     guarded ''ListNodeGenerations'' s
       (Inr (sort_key (\<lambda>g. (gr_node_type g, gr_node_id g)) (st_generations s)))"

section \<open>SID allocations\<close>

definition CreateSIDAllocation :: "sid_alloc_row \<Rightarrow> update" where
  "CreateSIDAllocation r s =
     guarded ''CreateSIDAllocation'' s
       (if iw_sid r \<in> iw_sid ` set (st_sids s) then Inl (DuplicateKey ''sid_allocations_pkey'')
        else if \<exists>x \<in> set (st_sids s). iw_locator x = iw_locator r \<and> iw_tenant_id x = iw_tenant_id r \<and>
            iw_sid_type x = iw_sid_type r then Inl (DuplicateKey ''sid_allocations_locator'')
        else if \<not> cidr_ok (iw_locator r) then Inl (InvalidCIDR (iw_locator r))
        else Inr (s\<lparr>st_sids := st_sids s @ [r]\<rparr>))"

definition DeleteAllSIDAllocations :: update where
  "DeleteAllSIDAllocations s = guarded ''DeleteAllSIDAllocations'' s (Inr (s\<lparr>st_sids := []\<rparr>))"

definition DeleteSIDAllocation :: "addr \<Rightarrow> update" where
  "DeleteSIDAllocation a s =
     guarded ''DeleteSIDAllocation'' s
       (Inr (s\<lparr>st_sids := filter (\<lambda>x. iw_sid x \<noteq> a) (st_sids s)\<rparr>))"

definition GetSIDAllocation :: "prefix \<Rightarrow> string \<Rightarrow> string \<Rightarrow> store \<Rightarrow> (store_error, sid_alloc_row) result" where
  "GetSIDAllocation l t ty s =
     guarded ''GetSIDAllocation'' s
       (case List.find (\<lambda>x. iw_locator x = l \<and> iw_tenant_id x = t \<and> iw_sid_type x = ty) (st_sids s) of
          None \<Rightarrow> Inl NoRows | Some r \<Rightarrow> Inr r)"

text \<open>\<^verbatim>\<open>INET\<close> values sort by family, then by address.\<close>

definition addr_rank :: "addr \<Rightarrow> nat \<times> nat" where
  "addr_rank a = (case a of AddrZero \<Rightarrow> (0, 0) | Addr4 w \<Rightarrow> (4, unat w) | Addr6 w \<Rightarrow> (6, unat w))"

definition ListSIDAllocations :: "store \<Rightarrow> (store_error, sid_alloc_row list) result" where
  "ListSIDAllocations s =
     guarded ''ListSIDAllocations'' s (Inr (sort_key (addr_rank \<circ> iw_sid) (st_sids s)))"

section \<open>Traffic classes\<close>

definition CreateTrafficClass :: "class_row \<Rightarrow> update" where
  "CreateTrafficClass r s =
     guarded ''CreateTrafficClass'' s
       (if cw_label r \<in> cw_label ` set (st_classes s) then Inl (DuplicateKey ''traffic_classes_pkey'')
        else if cw_name r \<in> cw_name ` set (st_classes s) then Inl (DuplicateKey ''traffic_classes_name'')
        else Inr (s\<lparr>st_classes := st_classes s @ [r]\<rparr>))"

definition UpdateTrafficClass :: "class_row \<Rightarrow> update" where
  "UpdateTrafficClass r s =
     guarded ''UpdateTrafficClass'' s
       (if cw_label r \<in> cw_label ` set (st_classes s) \<and>
           (\<exists>x \<in> set (st_classes s). cw_name x = cw_name r \<and> cw_label x \<noteq> cw_label r)
        then Inl (DuplicateKey ''traffic_classes_name'')
        else Inr (s\<lparr>st_classes := map (\<lambda>x. if cw_label x = cw_label r then r else x) (st_classes s)\<rparr>))"

definition GetTrafficClass :: "int \<Rightarrow> store \<Rightarrow> (store_error, class_row) result" where
  "GetTrafficClass l s =
     guarded ''GetTrafficClass'' s
       (case List.find (\<lambda>x. cw_label x = l) (st_classes s) of None \<Rightarrow> Inl NoRows | Some r \<Rightarrow> Inr r)"

definition drop_classes :: "(int \<Rightarrow> bool) \<Rightarrow> store \<Rightarrow> store" where
  "drop_classes P s =
     s\<lparr>st_classes := filter (\<lambda>x. \<not> P (cw_label x)) (st_classes s),
       st_dscp := filter (\<lambda>x. \<not> P (dw_label x)) (st_dscp s),
       st_objectives := filter (\<lambda>x. \<not> P (ow_label x)) (st_objectives s),
       st_reservations := filter (\<lambda>x. \<not> P (vw_label x)) (st_reservations s)\<rparr>"

definition DeleteTrafficClass :: "int \<Rightarrow> update" where
  "DeleteTrafficClass l s = guarded ''DeleteTrafficClass'' s (Inr (drop_classes (\<lambda>x. x = l) s))"

definition DeleteAllTrafficClasses :: update where
  "DeleteAllTrafficClasses s =
     guarded ''DeleteAllTrafficClasses'' s
       (Inr (drop_classes (\<lambda>x. x \<in> cw_label ` set (st_classes s)) s))"

definition ListTrafficClasses :: "store \<Rightarrow> (store_error, class_row list) result" where
  "ListTrafficClasses s =
     guarded ''ListTrafficClasses'' s (Inr (sort_key cw_class_index (st_classes s)))"

definition AddTrafficClassDSCP :: "dscp_row \<Rightarrow> update" where
  "AddTrafficClassDSCP r s =
     guarded ''AddTrafficClassDSCP'' s
       (if dw_dscp r < 0 \<or> 63 < dw_dscp r then Inl (CheckViolated ''dscp'')
        else if r \<in> set (st_dscp s) then Inl (DuplicateKey ''traffic_class_dscp_pkey'')
        else if dw_label r \<notin> cw_label ` set (st_classes s) then Inl (MissingReference ''traffic_classes'')
        else Inr (s\<lparr>st_dscp := st_dscp s @ [r]\<rparr>))"

definition DeleteTrafficClassDSCP :: "int \<Rightarrow> update" where
  "DeleteTrafficClassDSCP l s =
     guarded ''DeleteTrafficClassDSCP'' s
       (Inr (s\<lparr>st_dscp := filter (\<lambda>x. dw_label x \<noteq> l) (st_dscp s)\<rparr>))"

definition ListTrafficClassDSCP :: "int \<Rightarrow> store \<Rightarrow> (store_error, dscp_row list) result" where
  "ListTrafficClassDSCP l s =
     guarded ''ListTrafficClassDSCP'' s
       (Inr (sort_key dw_dscp (filter (\<lambda>x. dw_label x = l) (st_dscp s))))"

definition same_objective :: "objective_row \<Rightarrow> objective_row \<Rightarrow> bool" where
  "same_objective r x \<longleftrightarrow> ow_label x = ow_label r \<and> ow_dimension x = ow_dimension r"

definition SetTrafficClassObjective :: "objective_row \<Rightarrow> update" where
  "SetTrafficClassObjective r s =
     guarded ''SetTrafficClassObjective'' s
       (if ow_label r \<notin> cw_label ` set (st_classes s) then Inl (MissingReference ''traffic_classes'')
        else Inr (s\<lparr>st_objectives :=
          (if \<exists>x \<in> set (st_objectives s). same_objective r x
           then map (\<lambda>x. if same_objective r x then r else x) (st_objectives s)
           else st_objectives s @ [r])\<rparr>))"

definition DeleteTrafficClassObjectives :: "int \<Rightarrow> update" where
  "DeleteTrafficClassObjectives l s =
     guarded ''DeleteTrafficClassObjectives'' s
       (Inr (s\<lparr>st_objectives := filter (\<lambda>x. ow_label x \<noteq> l) (st_objectives s)\<rparr>))"

definition ListTrafficClassObjectives :: "int \<Rightarrow> store \<Rightarrow> (store_error, objective_row list) result" where
  "ListTrafficClassObjectives l s =
     guarded ''ListTrafficClassObjectives'' s
       (Inr (sort_key ow_dimension (filter (\<lambda>x. ow_label x = l) (st_objectives s))))"

section \<open>Tenants and sites\<close>

definition CreateTenant :: "tenant_row \<Rightarrow> update" where
  "CreateTenant r s =
     guarded ''CreateTenant'' s
       (if \<not> cidr_ok (tr_allocation r) then Inl (InvalidCIDR (tr_allocation r))
        else if tr_id r \<in> tr_id ` set (st_tenants s) then Inl (DuplicateKey ''tenants_pkey'')
        else Inr (s\<lparr>st_tenants := st_tenants s @ [r]\<rparr>))"

definition UpdateTenant :: "tenant_row \<Rightarrow> update" where
  "UpdateTenant r s =
     guarded ''UpdateTenant'' s
       (if \<not> cidr_ok (tr_allocation r) then Inl (InvalidCIDR (tr_allocation r))
        else Inr (s\<lparr>st_tenants := map (\<lambda>x. if tr_id x = tr_id r then r else x) (st_tenants s)\<rparr>))"

definition GetTenant :: "int \<Rightarrow> store \<Rightarrow> (store_error, tenant_row) result" where
  "GetTenant i s =
     guarded ''GetTenant'' s
       (case List.find (\<lambda>x. tr_id x = i) (st_tenants s) of None \<Rightarrow> Inl NoRows | Some r \<Rightarrow> Inr r)"

definition ListTenants :: "store \<Rightarrow> (store_error, tenant_row list) result" where
  "ListTenants s = guarded ''ListTenants'' s (Inr (sort_key tr_id (st_tenants s)))"

text \<open>Deleting sites takes their reservations with them, deleting tenants their sites.\<close>

definition drop_sites :: "(site_row \<Rightarrow> bool) \<Rightarrow> store \<Rightarrow> store" where
  "drop_sites P s =
     (let gone = sw_portal_id ` set (filter P (st_sites s))
      in s\<lparr>st_sites := filter (\<lambda>x. \<not> P x) (st_sites s),
           st_reservations := filter (\<lambda>x. vw_portal_id x \<notin> gone) (st_reservations s)\<rparr>)"

definition drop_tenants :: "(int \<Rightarrow> bool) \<Rightarrow> store \<Rightarrow> store" where
  "drop_tenants P s =
     drop_sites (\<lambda>x. P (sw_tenant_id x))
       (s\<lparr>st_tenants := filter (\<lambda>x. \<not> P (tr_id x)) (st_tenants s)\<rparr>)"

definition DeleteTenant :: "int \<Rightarrow> update" where
  "DeleteTenant i s = guarded ''DeleteTenant'' s (Inr (drop_tenants (\<lambda>x. x = i) s))"

definition DeleteAllTenants :: update where
  "DeleteAllTenants s =
     guarded ''DeleteAllTenants'' s (Inr (drop_tenants (\<lambda>x. x \<in> tr_id ` set (st_tenants s)) s))"

definition CreateSite :: "site_row \<Rightarrow> update" where
  "CreateSite r s =
     guarded ''CreateSite'' s
       (if \<not> cidr_ok (sw_prefix r) then Inl (InvalidCIDR (sw_prefix r))
        else if sw_portal_id r \<in> sw_portal_id ` set (st_sites s) then Inl (DuplicateKey ''sites_pkey'')
        else if sw_identity r \<in> sw_identity ` set (st_sites s) then Inl (DuplicateKey ''sites_identity'')
        else if sw_tenant_id r \<notin> tr_id ` set (st_tenants s) then Inl (MissingReference ''tenants'')
        else Inr (s\<lparr>st_sites := st_sites s @ [r]\<rparr>))"

definition UpdateSite :: "site_row \<Rightarrow> update" where
  "UpdateSite r s =
     guarded ''UpdateSite'' s
       (if \<not> cidr_ok (sw_prefix r) then Inl (InvalidCIDR (sw_prefix r))
        else if sw_portal_id r \<notin> sw_portal_id ` set (st_sites s) then Inr s
        else if \<exists>x \<in> set (st_sites s). sw_identity x = sw_identity r \<and> sw_portal_id x \<noteq> sw_portal_id r
          then Inl (DuplicateKey ''sites_identity'')
        else if sw_tenant_id r \<notin> tr_id ` set (st_tenants s) then Inl (MissingReference ''tenants'')
        else Inr (s\<lparr>st_sites := map (\<lambda>x. if sw_portal_id x = sw_portal_id r then r else x) (st_sites s)\<rparr>))"

definition DeleteSite :: "string \<Rightarrow> update" where
  "DeleteSite p s = guarded ''DeleteSite'' s (Inr (drop_sites (\<lambda>x. sw_portal_id x = p) s))"

definition find_site :: "(site_row \<Rightarrow> bool) \<Rightarrow> store \<Rightarrow> (store_error, site_row) result" where
  "find_site P s = (case List.find P (st_sites s) of None \<Rightarrow> Inl NoRows | Some r \<Rightarrow> Inr r)"

definition GetSite :: "string \<Rightarrow> store \<Rightarrow> (store_error, site_row) result" where
  "GetSite p s = guarded ''GetSite'' s (find_site (\<lambda>x. sw_portal_id x = p) s)"

definition GetSiteByIdentity :: "string \<Rightarrow> store \<Rightarrow> (store_error, site_row) result" where
  "GetSiteByIdentity i s = guarded ''GetSiteByIdentity'' s (find_site (\<lambda>x. sw_identity x = i) s)"

definition ListSites :: "store \<Rightarrow> (store_error, site_row list) result" where
  "ListSites s =
     guarded ''ListSites'' s (Inr (sort_key (\<lambda>x. (sw_tenant_id x, sw_if_id x)) (st_sites s)))"

definition ListSitesByAttach :: "string \<Rightarrow> store \<Rightarrow> (store_error, site_row list) result" where
  "ListSitesByAttach a s =
     guarded ''ListSitesByAttach'' s
       (Inr (sort_key sw_if_id (filter (\<lambda>x. sw_attach x = a) (st_sites s))))"

definition ListSitesByTenant :: "int \<Rightarrow> store \<Rightarrow> (store_error, site_row list) result" where
  "ListSitesByTenant i s =
     guarded ''ListSitesByTenant'' s
       (Inr (sort_key sw_if_id (filter (\<lambda>x. sw_tenant_id x = i) (st_sites s))))"

definition same_reservation :: "reservation_row \<Rightarrow> reservation_row \<Rightarrow> bool" where
  "same_reservation r x \<longleftrightarrow> vw_portal_id x = vw_portal_id r \<and> vw_label x = vw_label r"

definition SetSiteClassReservation :: "reservation_row \<Rightarrow> update" where
  "SetSiteClassReservation r s =
     guarded ''SetSiteClassReservation'' s
       (if vw_portal_id r \<notin> sw_portal_id ` set (st_sites s) then Inl (MissingReference ''sites'')
        else if vw_label r \<notin> cw_label ` set (st_classes s) then Inl (MissingReference ''traffic_classes'')
        else Inr (s\<lparr>st_reservations :=
          (if \<exists>x \<in> set (st_reservations s). same_reservation r x
           then map (\<lambda>x. if same_reservation r x then r else x) (st_reservations s)
           else st_reservations s @ [r])\<rparr>))"

definition DeleteSiteClassReservations :: "string \<Rightarrow> update" where
  "DeleteSiteClassReservations p s =
     guarded ''DeleteSiteClassReservations'' s
       (Inr (s\<lparr>st_reservations := filter (\<lambda>x. vw_portal_id x \<noteq> p) (st_reservations s)\<rparr>))"

definition ListSiteClassReservations :: "string \<Rightarrow> store \<Rightarrow> (store_error, reservation_row list) result" where
  "ListSiteClassReservations p s =
     guarded ''ListSiteClassReservations'' s
       (Inr (sort_key vw_label (filter (\<lambda>x. vw_portal_id x = p) (st_reservations s))))"

section \<open>Measurements and reports\<close>

text \<open>A row whose key is taken is dropped without an error.\<close>

definition InsertLinkSample :: "link_sample \<Rightarrow> update" where
  "InsertLinkSample r s =
     guarded ''InsertLinkSample'' s
       (Inr (if \<exists>x \<in> set (st_samples s). ls_TelemetryKey x = ls_TelemetryKey r \<and> ls_Time x = ls_Time r
             then s else s\<lparr>st_samples := st_samples s @ [r]\<rparr>))"

definition InsertIfaceCounters :: "iface_counters \<Rightarrow> update" where
  "InsertIfaceCounters r s =
     guarded ''InsertIfaceCounters'' s
       (Inr (if \<exists>x \<in> set (st_counters s). ic_NodeID x = ic_NodeID r \<and> ic_Iface x = ic_Iface r \<and>
                ic_Time x = ic_Time r
             then s else s\<lparr>st_counters := st_counters s @ [r]\<rparr>))"

definition InsertNodeReport :: "report_row \<Rightarrow> update" where
  "InsertNodeReport r s =
     guarded ''InsertNodeReport'' s
       (Inr (if \<exists>x \<in> set (st_reports s). nw_node_id x = nw_node_id r \<and> nw_time x = nw_time r
             then s else s\<lparr>st_reports := st_reports s @ [r]\<rparr>))"

definition ListLinkSamples :: "string \<Rightarrow> time \<Rightarrow> store \<Rightarrow> (store_error, link_sample list) result" where
  "ListLinkSamples k t s =
     guarded ''ListLinkSamples'' s
       (Inr (sort_key ls_Time (filter (\<lambda>x. ls_TelemetryKey x = k \<and> t \<le> ls_Time x) (st_samples s))))"

definition ListLatestLinkSamples :: "string \<Rightarrow> nat \<Rightarrow> store \<Rightarrow> (store_error, link_sample list) result" where
  "ListLatestLinkSamples k n s =
     guarded ''ListLatestLinkSamples'' s
       (Inr (take n (sort_key (\<lambda>x. - ls_Time x) (filter (\<lambda>x. ls_TelemetryKey x = k) (st_samples s)))))"

definition ListIfaceCounters :: "string \<Rightarrow> string \<Rightarrow> time \<Rightarrow> store \<Rightarrow>
    (store_error, iface_counters list) result" where
  "ListIfaceCounters node iface t s =
     guarded ''ListIfaceCounters'' s
       (Inr (sort_key ic_Time
         (filter (\<lambda>x. ic_NodeID x = node \<and> ic_Iface x = iface \<and> t \<le> ic_Time x) (st_counters s))))"

definition ListNodeIfaceCounters :: "string \<Rightarrow> time \<Rightarrow> store \<Rightarrow>
    (store_error, iface_counters list) result" where
  "ListNodeIfaceCounters node t s =
     guarded ''ListNodeIfaceCounters'' s
       (Inr (sort_key (\<lambda>x. (ic_Iface x, ic_Time x))
         (filter (\<lambda>x. ic_NodeID x = node \<and> t \<le> ic_Time x) (st_counters s))))"

definition ListNodeReports :: "string \<Rightarrow> time \<Rightarrow> store \<Rightarrow> (store_error, report_row list) result" where
  "ListNodeReports node t s =
     guarded ''ListNodeReports'' s
       (Inr (sort_key (\<lambda>x. - nw_time x)
         (filter (\<lambda>x. nw_node_id x = node \<and> t \<le> nw_time x) (st_reports s))))"

definition ListLatestNodeReports :: "string \<Rightarrow> nat \<Rightarrow> store \<Rightarrow> (store_error, report_row list) result" where
  "ListLatestNodeReports node n s =
     guarded ''ListLatestNodeReports'' s
       (Inr (take n (sort_key (\<lambda>x. - nw_time x) (filter (\<lambda>x. nw_node_id x = node) (st_reports s)))))"

end
