(* ===== verification/Boot.thy ===== *)
theory Boot
  imports Store
begin

text \<open>
  Starting the control plane on its store: the tenant repository saved to and loaded from
  the tables (\<^verbatim>\<open>tenant_repository_store.go\<close>), the choice between a cold start, a warm start
  and a reset (\<^verbatim>\<open>boot.go\<close>), and the recorder of node reports (\<^verbatim>\<open>node_report_recorder.go\<close>).
  Conversions to the narrower integers of the columns wrap, as in Go.
\<close>

definition int32 :: "int \<Rightarrow> int" where
  "int32 x = signed_take_bit 31 x"

definition int16 :: "int \<Rightarrow> int" where
  "int16 x = signed_take_bit 15 x"

primrec each :: "('a \<Rightarrow> update) \<Rightarrow> 'a list \<Rightarrow> update" where
  "each f [] s = Inr s"
| "each f (x # xs) s = bind_result (f x s) (each f xs)"

section \<open>Saving\<close>

definition class_row_of :: "traffic_class \<Rightarrow> class_row" where
  "class_row_of c =
     \<lparr>cw_label = sint (tc_Label c), cw_name = tc_Name c, cw_class_index = int32 (tc_Index c)\<rparr>"

definition dscp_row_of :: "traffic_class \<Rightarrow> int \<Rightarrow> dscp_row" where
  "dscp_row_of c d = \<lparr>dw_label = sint (tc_Label c), dw_dscp = int16 d\<rparr>"

definition objective_row_of :: "traffic_class \<Rightarrow> CostDimension \<times> f64 \<Rightarrow> objective_row" where
  "objective_row_of c dw =
     \<lparr>ow_label = sint (tc_Label c), ow_dimension = fst dw, ow_weight = snd dw\<rparr>"

definition saveClass :: "traffic_class \<Rightarrow> update" where
  "saveClass c s =
     bind_result (CreateTrafficClass (class_row_of c) s) (\<lambda>s1.
     bind_result (each (\<lambda>d. AddTrafficClassDSCP (dscp_row_of c d)) (tc_DSCP c) s1) (\<lambda>s2.
       each (\<lambda>dw. SetTrafficClassObjective (objective_row_of c dw)) (tc_Objective c) s2))"

definition tenant_row_of :: "tenant \<Rightarrow> tenant_row" where
  "tenant_row_of t =
     \<lparr>tr_id = int32 (tn_ID t), tr_allocation = tn_Allocation t, tr_tier = tn_Tier t,
      tr_tier_index = int32 (tn_TierIndex t), tr_vrf_table = int32 (tn_VRFTable t)\<rparr>"

definition site_row_of :: "site \<Rightarrow> site_row" where
  "site_row_of x =
     \<lparr>sw_portal_id = si_PortalID x, sw_tenant_id = int32 (si_TenantID x), sw_cpe = si_CPE x,
      sw_node = si_Node x, sw_prefix = si_Prefix x, sw_attach = si_Attach x,
      sw_attach_node = si_AttachNode x, sw_if_id = uint (si_IfID x),
      sw_identity = si_Identity x, sw_reservation_mbps = si_ReservationMbps x\<rparr>"

definition reservation_row_of :: "site \<Rightarrow> 64 word \<times> f64 \<Rightarrow> reservation_row" where
  "reservation_row_of x lm =
     \<lparr>vw_portal_id = si_PortalID x, vw_label = sint (fst lm), vw_mbps = snd lm\<rparr>"

definition saveSite :: "site \<Rightarrow> update" where
  "saveSite x s =
     bind_result (CreateSite (site_row_of x) s) (\<lambda>s1.
       each (\<lambda>lm. SetSiteClassReservation (reservation_row_of x lm)) (si_ClassMbps x) s1)"

definition saveTenant :: "tenant \<Rightarrow> update" where
  "saveTenant t s =
     bind_result (CreateTenant (tenant_row_of t) s) (\<lambda>s1. each saveSite (tn_Sites t) s1)"

definition SaveTo :: "tenant_repo \<Rightarrow> update" where
  "SaveTo repo s =
     bind_result (DeleteAllTenants s) (\<lambda>s1.
     bind_result (DeleteAllTrafficClasses s1) (\<lambda>s2.
     bind_result (each saveClass (map snd (re_classes repo)) s2) (\<lambda>s3.
       each saveTenant (map snd (re_byID repo)) s3)))"

section \<open>Loading\<close>

datatype load_error = StoreError store_error | UnknownTenant string int

definition from_store :: "(store_error, 'a) result \<Rightarrow> (load_error, 'a) result" where
  "from_store res = (case res of Inl e \<Rightarrow> Inl (StoreError e) | Inr x \<Rightarrow> Inr x)"

definition loadClass :: "store \<Rightarrow> class_row \<Rightarrow> (load_error, traffic_class) result" where
  "loadClass s row =
     bind_result (from_store (ListTrafficClassDSCP (cw_label row) s)) (\<lambda>dscp.
     bind_result (from_store (ListTrafficClassObjectives (cw_label row) s)) (\<lambda>objectives.
       Inr \<lparr>tc_Name = cw_name row, tc_Label = word_of_int (cw_label row),
            tc_Index = cw_class_index row, tc_DSCP = map dw_dscp dscp,
            tc_Objective = fold (\<lambda>o'. mput (ow_dimension o') (ow_weight o')) objectives []\<rparr>))"

primrec loadClassRows :: "store \<Rightarrow> class_row list \<Rightarrow> (64 word, traffic_class) gomap \<Rightarrow>
    (load_error, (64 word, traffic_class) gomap) result" where
  "loadClassRows s [] classes = Inr classes"
| "loadClassRows s (row # rows) classes =
     bind_result (loadClass s row) (\<lambda>c.
       loadClassRows s rows (mput (word_of_int (cw_label row)) c classes))"

definition loadTrafficClasses :: "store \<Rightarrow> (load_error, (64 word, traffic_class) gomap) result" where
  "loadTrafficClasses s =
     bind_result (from_store (ListTrafficClasses s)) (\<lambda>rows. loadClassRows s rows [])"

definition tenant_of_row :: "tenant_row \<Rightarrow> tenant" where
  "tenant_of_row row =
     \<lparr>tn_ID = tr_id row, tn_Allocation = tr_allocation row, tn_Tier = tr_tier row,
      tn_TierIndex = tr_tier_index row, tn_VRFTable = tr_vrf_table row, tn_Sites = []\<rparr>"

definition site_of_row :: "site_row \<Rightarrow> reservation_row list \<Rightarrow> site" where
  "site_of_row row res =
     \<lparr>si_TenantID = sw_tenant_id row, si_CPE = sw_cpe row, si_PortalID = sw_portal_id row,
      si_Node = sw_node row, si_Prefix = sw_prefix row, si_Attach = sw_attach row,
      si_AttachNode = sw_attach_node row, si_IfID = word_of_int (sw_if_id row),
      si_Identity = sw_identity row, si_ReservationMbps = sw_reservation_mbps row,
      si_ClassMbps = fold (\<lambda>v. mput (word_of_int (vw_label v)) (vw_mbps v)) res []\<rparr>"

record site_tables =
  sl_byID :: "(TenantID, tenant) gomap"
  sl_byIdentity :: "(string, site) gomap"
  sl_byPortalID :: "(string, site) gomap"
  sl_byPop :: "(string, site list) gomap"

definition addSite :: "tenant \<Rightarrow> site \<Rightarrow> site_tables \<Rightarrow> site_tables" where
  "addSite t x m =
     \<lparr>sl_byID = mput (tn_ID t) (t\<lparr>tn_Sites := tn_Sites t @ [x]\<rparr>) (sl_byID m),
      sl_byIdentity = mput (si_Identity x) x (sl_byIdentity m),
      sl_byPortalID = mput (si_PortalID x) x (sl_byPortalID m),
      sl_byPop = mput (si_Attach x) (mget0 [] (sl_byPop m) (si_Attach x) @ [x]) (sl_byPop m)\<rparr>"

primrec loadSiteRows :: "store \<Rightarrow> site_row list \<Rightarrow> site_tables \<Rightarrow> (load_error, site_tables) result" where
  "loadSiteRows s [] m = Inr m"
| "loadSiteRows s (row # rows) m =
     (case mget (sl_byID m) (sw_tenant_id row) of
        None \<Rightarrow> Inl (UnknownTenant (sw_portal_id row) (sw_tenant_id row))
      | Some t \<Rightarrow>
          bind_result (from_store (ListSiteClassReservations (sw_portal_id row) s)) (\<lambda>res.
            loadSiteRows s rows (addSite t (site_of_row row res) m)))"

text \<open>\<^verbatim>\<open>LoadFrom\<close> replaces the repository when everything was read, and leaves it as it was
  otherwise.\<close>

definition LoadFrom :: "store \<Rightarrow> tenant_repo \<Rightarrow> load_error option \<times> tenant_repo" where
  "LoadFrom s repo =
     (case
        bind_result (loadTrafficClasses s) (\<lambda>classes.
        bind_result (from_store (ListTenants s)) (\<lambda>tenantRows.
        bind_result (from_store (ListSites s)) (\<lambda>siteRows.
        bind_result
          (loadSiteRows s siteRows
             \<lparr>sl_byID = fold (\<lambda>row. mput (tr_id row) (tenant_of_row row)) tenantRows [],
              sl_byIdentity = [], sl_byPortalID = [], sl_byPop = []\<rparr>)
          (\<lambda>m. Inr (classes, m))))) of
        Inl e \<Rightarrow> (Some e, repo)
      | Inr (classes, m) \<Rightarrow>
          (None, \<lparr>re_classes = classes, re_byID = sl_byID m, re_byIdentity = sl_byIdentity m,
                  re_byPortalID = sl_byPortalID m, re_byPop = sl_byPop m\<rparr>))"

section \<open>Booting\<close>

datatype boot_mode = BootCold | BootWarm | BootReset

datatype boot_error =
    FingerprintFailed
  | BootStore store_error
  | SchemaMismatch int
  | BootLoad load_error
  | BootFile tenant_error

definition SchemaVersion :: int where
  "SchemaVersion = 1"

text \<open>\<^verbatim>\<open>topologyFingerprint\<close>: the hash of the two files of the current build, which are read in
  this order; a file that cannot be read gives no fingerprint.\<close>

definition topologyFingerprint :: "(string \<Rightarrow> string) \<Rightarrow> string option \<Rightarrow> string option \<Rightarrow>
    string option \<Rightarrow> string option" where
  "topologyFingerprint sha base topo tenants =
     (case base of
        None \<Rightarrow> None
      | Some _ \<Rightarrow>
     (case topo of
        None \<Rightarrow> None
      | Some t \<Rightarrow> (case tenants of None \<Rightarrow> None | Some d \<Rightarrow> Some (sha (t @ d)))))"

definition bootMode :: "string \<Rightarrow> string \<Rightarrow> boot_mode" where
  "bootMode old fingerprint =
     (if old = [] then BootCold else if old \<noteq> fingerprint then BootReset else BootWarm)"

definition resetStore :: "tenant_repo \<Rightarrow> string \<Rightarrow> update" where
  "resetStore repo fingerprint s =
     bind_result (DeleteAllSIDAllocations s) (\<lambda>s1.
     bind_result (SetSIDCursor 0 s1) (\<lambda>s2.
     bind_result (SaveTo repo s2) (\<lambda>s3. SetFingerprint fingerprint s3)))"

text \<open>\<^verbatim>\<open>bootStore\<close>; \<open>file_load\<close> is \<^verbatim>\<open>tenants.Load\<close> on the file of the build. The result, the
  repository and the store after it.\<close>

definition bootStore :: "string option \<Rightarrow> (tenant_repo \<Rightarrow> tenant_error option \<times> tenant_repo) \<Rightarrow> time \<Rightarrow>
    tenant_repo \<Rightarrow> store \<Rightarrow> (boot_error, boot_mode) result \<times> tenant_repo \<times> store" where
  "bootStore fp file_load now repo s =
     (case fp of
        None \<Rightarrow> (Inl FingerprintFailed, repo, s)
      | Some fingerprint \<Rightarrow>
     (case GetControlState s of
        Inl e \<Rightarrow> (Inl (BootStore e), repo, s)
      | Inr state \<Rightarrow>
      if cr_schema_version state \<noteq> SchemaVersion
      then (Inl (SchemaMismatch (cr_schema_version state)), repo, s)
      else let mode = bootMode (cr_fingerprint state) fingerprint;
               booted = (\<lambda>repo' s'.
                 case SetBootedAt now s' of
                   Inl e \<Rightarrow> (Inl (BootStore e), repo', s')
                 | Inr s'' \<Rightarrow> (Inr mode, repo', s''))
           in if mode = BootWarm
              then (case LoadFrom s repo of
                      (Some e, repo') \<Rightarrow> (Inl (BootLoad e), repo', s)
                    | (None, repo') \<Rightarrow> booted repo' s)
              else (case file_load repo of
                      (Some e, repo') \<Rightarrow> (Inl (BootFile e), repo', s)
                    | (None, repo') \<Rightarrow>
                        (case InTx (resetStore repo' fingerprint) s of
                           (Some e, s') \<Rightarrow> (Inl (BootStore e), repo', s')
                         | (None, s') \<Rightarrow> booted repo' s'))))"

section \<open>Node reports\<close>

text \<open>\<^verbatim>\<open>record\<close> of the node report recorder; an error of the store is only logged. The text of an
  error is a parameter, and so is the zero time.\<close>

definition node_type_text :: "node_type \<Rightarrow> string" where
  "node_type_text ty = (case ty of NodeTypeCPE \<Rightarrow> ''cpe'' | NodeTypePE \<Rightarrow> ''pe'' | NodeTypeOther t \<Rightarrow> t)"

definition report_row_of :: "(reconcile_error option \<Rightarrow> string) \<Rightarrow> 'j node_state \<Rightarrow> report_row" where
  "report_row_of text ns =
     \<lparr>nw_time = nst_ReportedAt ns, nw_node_id = nst_NodeID ns,
      nw_node_type = node_type_text (nst_NodeType ns), nw_generation = uint (nst_Generation ns),
      nw_observed = nst_Observed ns, nw_converged = nst_Converged ns,
      nw_passes = int32 (int (nst_Passes ns)), nw_error = text (nst_Error ns)\<rparr>"

definition recordReport :: "(reconcile_error option \<Rightarrow> string) \<Rightarrow> time \<Rightarrow> 'j node_state \<Rightarrow> store \<Rightarrow>
    store" where
  "recordReport text zero_time ns s =
     (if nst_NodeID ns = [] \<or> nst_ReportedAt ns = zero_time then s
      else case InsertNodeReport (report_row_of text ns) s of Inl _ \<Rightarrow> s | Inr s' \<Rightarrow> s')"

end
