(* ===== verification/Store_Correct.thy ===== *)
theory Store_Correct
  imports Store
begin

text \<open>
  What the store guarantees: every query that changes a table keeps its keys, references and
  checks intact (\<open>store_ok\<close>).
\<close>

section \<open>Lists of keyed rows\<close>

lemma filter_concat_key:
  assumes "c \<in> set cs" and "distinct (map k cs)" and "\<And>c r. r \<in> set (f c) \<Longrightarrow> g r = k c"
  shows "filter (\<lambda>r. g r = k c) (concat (map f cs)) = f c"
proof -
  have none: "filter (\<lambda>r. g r = k c) (concat (map f ds)) = []" if "k c \<notin> k ` set ds" for ds
  proof (unfold filter_empty_conv, rule ballI)
    fix r assume "r \<in> set (concat (map f ds))"
    then obtain d where "d \<in> set ds" "r \<in> set (f d)" by auto
    then show "g r \<noteq> k c" using that assms(3) by (metis imageI)
  qed
  have self: "filter (\<lambda>r. g r = k c) (f c) = f c"
    using assms(3) by (simp add: filter_id_conv)
  show ?thesis
    using assms(1,2)
  proof (induction cs)
    case (Cons d ds)
    show ?case
    proof (cases "c = d")
      case True
      then have "k c \<notin> k ` set ds" using Cons.prems(2) by simp
      from none [OF this] self True show ?thesis by simp
    next
      case False
      then have c: "c \<in> set ds" using Cons.prems(1) by simp
      then have "k d \<noteq> k c" using Cons.prems(2) by (auto simp: image_iff)
      then have "filter (\<lambda>r. g r = k c) (f d) = []"
        using assms(3) by (simp add: filter_empty_conv)
      then show ?thesis using Cons.IH [OF c] Cons.prems(2) by simp
    qed
  qed simp
qed

lemma map_of_perm: "distinct (map fst xs) \<Longrightarrow> mset xs = mset ys \<Longrightarrow> map_of xs = map_of ys"
proof -
  assume d: "distinct (map fst xs)" and m: "mset xs = mset ys"
  have "set xs = set ys" using m by (rule mset_eq_setD)
  moreover have "mset (map fst xs) = mset (map fst ys)"
    using m by (simp add: mset_map)
  then have "distinct (map fst ys)"
    using d mset_eq_imp_distinct_iff by blast
  ultimately show ?thesis
    using d map_of_eqI by (metis list.set_map map_of_eq_Some_iff option.exhaust)
qed

text \<open>Filling a map from sorted rows gives what the rows were made of.\<close>

lemma mget_fold_rows:
  assumes "mwf m" and "\<And>x. x \<in> set m \<Longrightarrow> kf (f x) = fst x \<and> vf (f x) = w (snd x)"
  shows "mget (fold (\<lambda>r. mput (kf r) (vf r)) (sort_key h (map f m)) []) k = map_option w (mget m k)"
proof -
  let ?rows = "sort_key h (map f m)"
  let ?pairs = "map (\<lambda>r. (kf r, vf r)) ?rows"
  let ?new = "map (\<lambda>x. (fst x, w (snd x))) m"
  have "map (\<lambda>r. (kf r, vf r)) (map f m) = ?new"
    using assms(2) by (simp add: o_def)
  moreover have "mset ?pairs = mset (map (\<lambda>r. (kf r, vf r)) (map f m))"
    by (simp only: mset_map mset_sort)
  ultimately have perm: "mset (rev ?pairs) = mset ?new"
    by (simp only: mset_rev)
  have new: "distinct (map fst ?new)"
    using assms(1) by (simp add: mwf_def o_def)
  have "fold (\<lambda>r. mput (kf r) (vf r)) ?rows [] = fold (\<lambda>(k, v). mput k v) ?pairs []"
    by (simp add: fold_map o_def)
  then have "mget (fold (\<lambda>r. mput (kf r) (vf r)) ?rows []) k = map_of (rev ?pairs) k"
    by (simp add: gm.get_fold_put split: option.split)
  also have "\<dots> = map_of ?new k"
    using map_of_perm [OF new perm [symmetric]] by simp
  also have "\<dots> = map_option w (mget m k)"
    by (induction m) (auto simp: mget_def)
  finally show ?thesis .
qed

section \<open>Integrity\<close>

text \<open>The rows \<open>xs\<close> refer by \<open>f\<close> to rows \<open>ys\<close> with key \<open>g\<close>.\<close>

definition refs :: "('a \<Rightarrow> 'k) \<Rightarrow> 'a list \<Rightarrow> ('b \<Rightarrow> 'k) \<Rightarrow> 'b list \<Rightarrow> bool" where
  "refs f xs g ys \<longleftrightarrow> (\<forall>x \<in> set xs. \<exists>y \<in> set ys. g y = f x)"

named_theorems refs_rules \<open>updates keep references\<close>

lemma refs_Nil [refs_rules]: "refs f [] g ys"
  by (simp add: refs_def)

lemma refs_filter [refs_rules]: "refs f xs g ys \<Longrightarrow> refs f (filter P xs) g ys"
  by (simp add: refs_def)

lemma refs_snoc [refs_rules]: "refs f xs g ys \<Longrightarrow> f x \<in> g ` set ys \<Longrightarrow> refs f (xs @ [x]) g ys"
  by (auto simp: refs_def)

lemma refs_grow [refs_rules]: "refs f xs g ys \<Longrightarrow> refs f xs g (ys @ zs)"
  by (auto simp: refs_def)

lemma refs_sets: "refs f xs g ys \<longleftrightarrow> set (map f xs) \<subseteq> set (map g ys)"
  unfolding refs_def set_map by (force simp: image_iff)

lemma refs_keys: "refs f xs g ys \<Longrightarrow> map f xs' = map f xs \<Longrightarrow> refs f xs' g ys"
  by (simp only: refs_sets)

lemma refs_right: "refs f xs g ys \<Longrightarrow> map g ys' = map g ys \<Longrightarrow> refs f xs g ys'"
  by (simp only: refs_sets)

lemma refs_cut [refs_rules]:
  "refs f xs g ys \<Longrightarrow> refs f (filter (\<lambda>x. \<not> P (f x)) xs) g (filter (\<lambda>y. \<not> P (g y)) ys)"
  unfolding refs_def by fastforce

lemma refs_cut_rows [refs_rules]:
  "refs f xs g ys \<Longrightarrow> refs f (filter (\<lambda>x. f x \<notin> g ` set (filter P ys)) xs) g (filter (\<lambda>y. \<not> P y) ys)"
  unfolding refs_def
proof (rule ballI)
  fix x
  assume all: "\<forall>x \<in> set xs. \<exists>y \<in> set ys. g y = f x"
    and x: "x \<in> set (filter (\<lambda>x. f x \<notin> g ` set (filter P ys)) xs)"
  then obtain y where y: "y \<in> set ys" "g y = f x" by auto
  then have "\<not> P y" using x by (auto simp: image_iff)
  then show "\<exists>y \<in> set (filter (\<lambda>y. \<not> P y) ys). g y = f x" using y by auto
qed

text \<open>Keys are unique and references point to rows.\<close>

definition store_ok :: "store \<Rightarrow> bool" where
  "store_ok s \<longleftrightarrow>
     distinct (map tr_id (st_tenants s)) \<and>
     distinct (map sw_portal_id (st_sites s)) \<and> distinct (map sw_identity (st_sites s)) \<and>
     distinct (map cw_label (st_classes s)) \<and> distinct (map cw_name (st_classes s)) \<and>
     distinct (st_dscp s) \<and> distinct (map iw_sid (st_sids s)) \<and>
     refs sw_tenant_id (st_sites s) tr_id (st_tenants s) \<and>
     refs dw_label (st_dscp s) cw_label (st_classes s) \<and>
     refs ow_label (st_objectives s) cw_label (st_classes s) \<and>
     refs vw_label (st_reservations s) cw_label (st_classes s) \<and>
     refs vw_portal_id (st_reservations s) sw_portal_id (st_sites s)"

lemma guarded_Inr: "guarded q s res = Inr x \<Longrightarrow> res = Inr x"
  by (simp add: guarded_def split: if_splits)

lemma if_Inr: "(if C then Inl e else res) = Inr x \<longleftrightarrow> \<not> C \<and> res = Inr x"
  by auto

lemma drop_sites_ok: "store_ok s \<Longrightarrow> store_ok (drop_sites P s)"
  unfolding store_ok_def drop_sites_def Let_def
  by (simp add: distinct_map_filter refs_rules del: set_filter)

lemma drop_tenants_ok: "store_ok s \<Longrightarrow> store_ok (drop_tenants P s)"
  unfolding store_ok_def drop_tenants_def drop_sites_def Let_def
  by (simp add: distinct_map_filter refs_rules del: set_filter)

lemma drop_classes_ok: "store_ok s \<Longrightarrow> store_ok (drop_classes P s)"
  unfolding store_ok_def drop_classes_def
  by (simp add: distinct_map_filter refs_rules)

text \<open>Replacing the rows with a key by one with that key keeps the keys.\<close>

lemma map_replace: "map k (map (\<lambda>x. if k x = k r then r else x) xs) = map k xs"
  by simp

lemma distinct_replace:
  assumes "distinct (map n xs)" and "\<forall>x \<in> set xs. n x = n r \<longrightarrow> k x = k r"
    and "distinct (map k xs)"
  shows "distinct (map n (map (\<lambda>x. if k x = k r then r else x) xs))"
  using assms by (induction xs) (auto simp: image_iff)

text \<open>Every update of the store keeps its integrity; one that fails does not change it.\<close>

lemma creates_ok:
  assumes "store_ok s"
  shows "CreateTenant a s = Inr s' \<Longrightarrow> store_ok s'" and "CreateSite b s = Inr s' \<Longrightarrow> store_ok s'"
    and "CreateTrafficClass c s = Inr s' \<Longrightarrow> store_ok s'"
    and "AddTrafficClassDSCP d s = Inr s' \<Longrightarrow> store_ok s'"
    and "CreateSIDAllocation e s = Inr s' \<Longrightarrow> store_ok s'"
  using assms
  by (auto simp: CreateTenant_def CreateSite_def CreateTrafficClass_def AddTrafficClassDSCP_def
      CreateSIDAllocation_def store_ok_def refs_rules dest!: guarded_Inr split: if_splits)

lemma upserts_ok:
  assumes "store_ok s"
  shows "SetTrafficClassObjective a s = Inr s' \<Longrightarrow> store_ok s'"
    and "SetSiteClassReservation b s = Inr s' \<Longrightarrow> store_ok s'"
proof -
  have a: "map ow_label (map (\<lambda>x. if same_objective a x then a else x) xs) = map ow_label xs" for xs
    by (simp add: same_objective_def)
  have b: "map vw_label (map (\<lambda>x. if same_reservation b x then b else x) xs) = map vw_label xs"
    "map vw_portal_id (map (\<lambda>x. if same_reservation b x then b else x) xs) = map vw_portal_id xs" for xs
    by (simp_all add: same_reservation_def)
  show "SetTrafficClassObjective a s = Inr s' \<Longrightarrow> store_ok s'"
    using assms
    by (auto simp: SetTrafficClassObjective_def store_ok_def refs_rules intro: refs_keys [OF _ a]
        dest!: guarded_Inr split: if_splits)
  show "SetSiteClassReservation b s = Inr s' \<Longrightarrow> store_ok s'"
    using assms
    by (auto simp: SetSiteClassReservation_def store_ok_def refs_rules intro: refs_keys [OF _ b(1)]
        refs_keys [OF _ b(2)] dest!: guarded_Inr split: if_splits)
qed

text \<open>New rows under the old keys.\<close>

lemma same_tenants_ok:
  "store_ok s \<Longrightarrow> map tr_id ts = map tr_id (st_tenants s) \<Longrightarrow> store_ok (s\<lparr>st_tenants := ts\<rparr>)"
  unfolding store_ok_def refs_sets by (simp del: set_map map_map)

lemma same_classes_ok:
  "store_ok s \<Longrightarrow> map cw_label cs = map cw_label (st_classes s) \<Longrightarrow> distinct (map cw_name cs) \<Longrightarrow>
   store_ok (s\<lparr>st_classes := cs\<rparr>)"
  unfolding store_ok_def refs_sets by (simp del: set_map map_map)

lemma same_sites_ok:
  "store_ok s \<Longrightarrow> map sw_portal_id xs = map sw_portal_id (st_sites s) \<Longrightarrow> distinct (map sw_identity xs) \<Longrightarrow>
   refs sw_tenant_id xs tr_id (st_tenants s) \<Longrightarrow> store_ok (s\<lparr>st_sites := xs\<rparr>)"
  unfolding store_ok_def refs_sets by (simp del: set_map map_map)

lemma updates_ok:
  assumes "store_ok s"
  shows "UpdateTenant a s = Inr s' \<Longrightarrow> store_ok s'"
    and "UpdateTrafficClass c s = Inr s' \<Longrightarrow> store_ok s'"
    and "UpdateSite b s = Inr s' \<Longrightarrow> store_ok s'"
proof -
  show "UpdateTenant a s = Inr s' \<Longrightarrow> store_ok s'"
  proof -
    assume upd: "UpdateTenant a s = Inr s'"
    have "s' = s\<lparr>st_tenants := map (\<lambda>x. if tr_id x = tr_id a then a else x) (st_tenants s)\<rparr>"
      using guarded_Inr [OF upd [unfolded UpdateTenant_def]] by (simp split: if_split_asm)
    then show ?thesis
      using same_tenants_ok [OF assms map_replace [of tr_id a]] by (simp only:)
  qed
  show "UpdateTrafficClass c s = Inr s' \<Longrightarrow> store_ok s'"
  proof -
    let ?cs = "map (\<lambda>x. if cw_label x = cw_label c then c else x) (st_classes s)"
    assume upd: "UpdateTrafficClass c s = Inr s'"
    have s': "s' = s\<lparr>st_classes := ?cs\<rparr>"
      and free: "cw_label c \<in> cw_label ` set (st_classes s) \<Longrightarrow>
        \<forall>x \<in> set (st_classes s). cw_name x = cw_name c \<longrightarrow> cw_label x = cw_label c"
      using guarded_Inr [OF upd [unfolded UpdateTrafficClass_def], unfolded if_Inr] by blast+
    have d: "distinct (map cw_name (st_classes s))" "distinct (map cw_label (st_classes s))"
      using assms by (simp_all add: store_ok_def)
    have "distinct (map cw_name ?cs)"
    proof (cases "cw_label c \<in> cw_label ` set (st_classes s)")
      case True
      show ?thesis by (rule distinct_replace [OF d(1) free [OF True] d(2)])
    next
      case False
      then have "?cs = st_classes s" by (intro map_idI) (metis image_eqI)
      then show ?thesis using d(1) by simp
    qed
    from same_classes_ok [OF assms map_replace this] s' show ?thesis by (simp only:)
  qed
  show "UpdateSite b s = Inr s' \<Longrightarrow> store_ok s'"
  proof (cases "s' = s")
    case False
    let ?xs = "map (\<lambda>x. if sw_portal_id x = sw_portal_id b then b else x) (st_sites s)"
    assume upd: "UpdateSite b s = Inr s'"
    have "sw_portal_id b \<in> sw_portal_id ` set (st_sites s)"
      using guarded_Inr [OF upd [unfolded UpdateSite_def], unfolded if_Inr] False by (auto simp only: if_True sum.inject split: if_split_asm)
    then have s': "s' = s\<lparr>st_sites := ?xs\<rparr>"
      and free: "\<forall>x \<in> set (st_sites s). sw_identity x = sw_identity b \<longrightarrow> sw_portal_id x = sw_portal_id b"
      and t: "sw_tenant_id b \<in> tr_id ` set (st_tenants s)"
      using guarded_Inr [OF upd [unfolded UpdateSite_def], unfolded if_Inr] by (simp_all only: not_not not_True_eq_False if_False if_Inr) blast+
    have d: "distinct (map sw_identity (st_sites s))" "distinct (map sw_portal_id (st_sites s))"
        "refs sw_tenant_id (st_sites s) tr_id (st_tenants s)"
      using assms by (simp_all add: store_ok_def)
    have "refs sw_tenant_id ?xs tr_id (st_tenants s)"
      using d(3) t by (auto simp: refs_def)
    from same_sites_ok [OF assms map_replace distinct_replace [OF d(1) free d(2)] this] s' show ?thesis by (simp only:)
  qed (use assms in simp)
qed

lemma deletes_ok:
  assumes "store_ok s"
  shows "DeleteTenant i s = Inr s' \<Longrightarrow> store_ok s'" and "DeleteAllTenants s = Inr s' \<Longrightarrow> store_ok s'"
    and "DeleteSite p s = Inr s' \<Longrightarrow> store_ok s'" and "DeleteTrafficClass l s = Inr s' \<Longrightarrow> store_ok s'"
    and "DeleteAllTrafficClasses s = Inr s' \<Longrightarrow> store_ok s'"
    and "DeleteTrafficClassDSCP l s = Inr s' \<Longrightarrow> store_ok s'"
    and "DeleteTrafficClassObjectives l s = Inr s' \<Longrightarrow> store_ok s'"
    and "DeleteSiteClassReservations p s = Inr s' \<Longrightarrow> store_ok s'"
    and "DeleteSIDAllocation x s = Inr s' \<Longrightarrow> store_ok s'" and "DeleteAllSIDAllocations s = Inr s' \<Longrightarrow> store_ok s'"
proof -
  show "DeleteTenant i s = Inr s' \<Longrightarrow> store_ok s'" "DeleteAllTenants s = Inr s' \<Longrightarrow> store_ok s'"
    using drop_tenants_ok [OF assms] by (auto simp: DeleteTenant_def DeleteAllTenants_def dest!: guarded_Inr)
  show "DeleteSite p s = Inr s' \<Longrightarrow> store_ok s'"
    using drop_sites_ok [OF assms] by (auto simp: DeleteSite_def dest!: guarded_Inr)
  show "DeleteTrafficClass l s = Inr s' \<Longrightarrow> store_ok s'" "DeleteAllTrafficClasses s = Inr s' \<Longrightarrow> store_ok s'"
    using drop_classes_ok [OF assms]
    by (auto simp: DeleteTrafficClass_def DeleteAllTrafficClasses_def dest!: guarded_Inr)
  show "DeleteTrafficClassDSCP l s = Inr s' \<Longrightarrow> store_ok s'"
      "DeleteTrafficClassObjectives l s = Inr s' \<Longrightarrow> store_ok s'"
      "DeleteSiteClassReservations p s = Inr s' \<Longrightarrow> store_ok s'"
      "DeleteSIDAllocation x s = Inr s' \<Longrightarrow> store_ok s'" "DeleteAllSIDAllocations s = Inr s' \<Longrightarrow> store_ok s'"
    using assms
    by (auto simp: DeleteTrafficClassDSCP_def DeleteTrafficClassObjectives_def DeleteSiteClassReservations_def
        DeleteSIDAllocation_def DeleteAllSIDAllocations_def store_ok_def refs_rules distinct_map_filter
        dest!: guarded_Inr)
qed

end
