(* ===== verification/Boot_Correct.thy ===== *)
theory Boot_Correct
  imports Boot Store_Correct
begin

text \<open>
  Saving a repository and loading it again gives the same repository up to the order of its
  sites, and a start after a cold one or a reset is a warm one with the same tenants.
\<close>

section \<open>Saving\<close>

lemma guarded_up [simp]: "st_down s = [] \<Longrightarrow> guarded q s res = res"
  by (simp add: guarded_def)

lemma each_append: "each f (xs @ ys) s = bind_result (each f xs s) (each f ys)"
proof (induction xs arbitrary: s)
  case (Cons x xs)
  then show ?case by (cases "f x s") simp_all
qed simp

text \<open>The label of a class, as a column of 64 bits with a sign, still tells classes apart.\<close>

lemma word_of_sint [simp]: "word_of_int (sint l) = (l :: 64 word)"
  by simp

lemma sint_inj: "sint l = sint l' \<longleftrightarrow> l = (l' :: 64 word)"
  by (metis word_of_sint)

lemma distinct_map_mid: "distinct (map f (xs @ y # ys)) \<Longrightarrow> x \<in> set xs \<Longrightarrow> f x \<noteq> f y"
  by (induction xs) auto

lemma distinct_map_init: "distinct (map f (xs @ ys @ zs)) \<Longrightarrow> distinct (map f (xs @ ys))"
  by (metis append.assoc distinct_append map_append)

lemma each_dscp:
  assumes "st_down s = []" and "sint (tc_Label c) \<in> cw_label ` set (st_classes s)"
    and "distinct ds" and "\<forall>d \<in> set ds. 0 \<le> d \<and> d \<le> 63"
    and "\<forall>d \<in> set ds. dscp_row_of c d \<notin> set (st_dscp s)"
  shows "each (\<lambda>d. AddTrafficClassDSCP (dscp_row_of c d)) ds s =
    Inr (s\<lparr>st_dscp := st_dscp s @ map (dscp_row_of c) ds\<rparr>)"
  using assms
proof (induction ds arbitrary: s)
  case (Cons d ds)
  have i16: "int16 x = x" if "0 \<le> x" "x \<le> 63" for x
    using that by (simp add: int16_def signed_take_bit_int_eq_self)
  let ?s = "s\<lparr>st_dscp := st_dscp s @ [dscp_row_of c d]\<rparr>"
  have "AddTrafficClassDSCP (dscp_row_of c d) s = Inr ?s"
    using Cons.prems i16 [of d] by (simp add: AddTrafficClassDSCP_def dscp_row_of_def)
  moreover have "\<forall>x \<in> set ds. dscp_row_of c x \<notin> set (st_dscp ?s)"
    using Cons.prems i16 by (auto simp: dscp_row_of_def)
  then have "each (\<lambda>d. AddTrafficClassDSCP (dscp_row_of c d)) ds ?s =
      Inr (?s\<lparr>st_dscp := st_dscp ?s @ map (dscp_row_of c) ds\<rparr>)"
    using Cons.IH [of ?s] Cons.prems by simp
  ultimately show ?case by simp
qed simp

lemma each_objective:
  assumes "st_down s = []" and "sint (tc_Label c) \<in> cw_label ` set (st_classes s)"
    and "distinct (map fst os)"
    and "\<forall>d \<in> set os. \<forall>x \<in> set (st_objectives s). \<not> same_objective (objective_row_of c d) x"
  shows "each (\<lambda>d. SetTrafficClassObjective (objective_row_of c d)) os s =
    Inr (s\<lparr>st_objectives := st_objectives s @ map (objective_row_of c) os\<rparr>)"
  using assms
proof (induction os arbitrary: s)
  case (Cons d os)
  let ?s = "s\<lparr>st_objectives := st_objectives s @ [objective_row_of c d]\<rparr>"
  have none: "\<not> (\<exists>x \<in> set (st_objectives s). same_objective (objective_row_of c d) x)"
    using Cons.prems(4) by simp
  have "SetTrafficClassObjective (objective_row_of c d) s = Inr ?s"
    using Cons.prems(1,2) none by (simp add: SetTrafficClassObjective_def objective_row_of_def)
  moreover have "\<forall>e \<in> set os. \<forall>x \<in> set (st_objectives ?s). \<not> same_objective (objective_row_of c e) x"
    using Cons.prems(3,4) by (auto simp: same_objective_def objective_row_of_def image_iff)
  then have "each (\<lambda>d. SetTrafficClassObjective (objective_row_of c d)) os ?s =
      Inr (?s\<lparr>st_objectives := st_objectives ?s @ map (objective_row_of c) os\<rparr>)"
    using Cons.IH [of ?s] Cons.prems by simp
  ultimately show ?case by simp
qed simp

lemma each_reservation:
  assumes "st_down s = []" and "si_PortalID x \<in> sw_portal_id ` set (st_sites s)"
    and "\<forall>l \<in> set ls. sint (fst l) \<in> cw_label ` set (st_classes s)" and "distinct (map fst ls)"
    and "\<forall>l \<in> set ls. \<forall>v \<in> set (st_reservations s). \<not> same_reservation (reservation_row_of x l) v"
  shows "each (\<lambda>l. SetSiteClassReservation (reservation_row_of x l)) ls s =
    Inr (s\<lparr>st_reservations := st_reservations s @ map (reservation_row_of x) ls\<rparr>)"
  using assms
proof (induction ls arbitrary: s)
  case (Cons l ls)
  let ?s = "s\<lparr>st_reservations := st_reservations s @ [reservation_row_of x l]\<rparr>"
  have none: "\<not> (\<exists>v \<in> set (st_reservations s). same_reservation (reservation_row_of x l) v)"
    using Cons.prems(5) by simp
  have "SetSiteClassReservation (reservation_row_of x l) s = Inr ?s"
    using Cons.prems(1-3) none by (simp add: SetSiteClassReservation_def reservation_row_of_def)
  moreover have "\<forall>e \<in> set ls. \<forall>v \<in> set (st_reservations ?s). \<not> same_reservation (reservation_row_of x e) v"
  proof (rule ballI)
    fix e assume e: "e \<in> set ls"
    have "fst l \<notin> fst ` set ls" using Cons.prems(4) by simp
    then have "fst l \<noteq> fst e" using e by (metis imageI)
    then have "\<not> same_reservation (reservation_row_of x e) (reservation_row_of x l)"
      by (simp add: same_reservation_def reservation_row_of_def sint_inj)
    then show "\<forall>v \<in> set (st_reservations ?s). \<not> same_reservation (reservation_row_of x e) v"
      using Cons.prems(5) e by simp
  qed
  then have "each (\<lambda>l. SetSiteClassReservation (reservation_row_of x l)) ls ?s =
      Inr (?s\<lparr>st_reservations := st_reservations ?s @ map (reservation_row_of x) ls\<rparr>)"
    using Cons.IH [of ?s] Cons.prems by simp
  ultimately show ?case by simp
qed simp


text \<open>The rows of a class and of a site.\<close>

definition dscp_rows :: "traffic_class \<Rightarrow> dscp_row list" where
  "dscp_rows c = map (dscp_row_of c) (tc_DSCP c)"

definition objective_rows :: "traffic_class \<Rightarrow> objective_row list" where
  "objective_rows c = map (objective_row_of c) (tc_Objective c)"

definition reservation_rows :: "site \<Rightarrow> reservation_row list" where
  "reservation_rows x = map (reservation_row_of x) (si_ClassMbps x)"

definition class_fits :: "traffic_class \<Rightarrow> bool" where
  "class_fits c \<longleftrightarrow> int32 (tc_Index c) = tc_Index c \<and> distinct (tc_DSCP c) \<and>
     (\<forall>d \<in> set (tc_DSCP c). 0 \<le> d \<and> d \<le> 63) \<and> mwf (tc_Objective c)"

lemma saveClass_row:
  assumes "st_down s = []" and "class_fits c"
    and "sint (tc_Label c) \<notin> cw_label ` set (st_classes s)" and "tc_Name c \<notin> cw_name ` set (st_classes s)"
    and "sint (tc_Label c) \<notin> dw_label ` set (st_dscp s)"
    and "sint (tc_Label c) \<notin> ow_label ` set (st_objectives s)"
  shows "saveClass c s =
    Inr (s\<lparr>st_classes := st_classes s @ [class_row_of c], st_dscp := st_dscp s @ dscp_rows c,
           st_objectives := st_objectives s @ objective_rows c\<rparr>)"
proof -
  let ?s1 = "s\<lparr>st_classes := st_classes s @ [class_row_of c]\<rparr>"
  let ?s2 = "?s1\<lparr>st_dscp := st_dscp s @ dscp_rows c\<rparr>"
  have "CreateTrafficClass (class_row_of c) s = Inr ?s1"
    using assms(1,3,4) by (simp add: CreateTrafficClass_def class_row_of_def)
  moreover have "\<forall>d \<in> set (tc_DSCP c). dscp_row_of c d \<notin> set (st_dscp ?s1)"
    using assms(5) by (auto simp: dscp_row_of_def image_iff)
  then have "each (\<lambda>d. AddTrafficClassDSCP (dscp_row_of c d)) (tc_DSCP c) ?s1 = Inr ?s2"
    using each_dscp [of ?s1 c "tc_DSCP c"] assms(1,2)
    by (simp add: class_fits_def class_row_of_def dscp_rows_def)
  moreover have "\<forall>d \<in> set (tc_Objective c). \<forall>x \<in> set (st_objectives ?s2).
      \<not> same_objective (objective_row_of c d) x"
    using assms(6) by (auto simp: same_objective_def objective_row_of_def image_iff)
  then have "each (\<lambda>d. SetTrafficClassObjective (objective_row_of c d)) (tc_Objective c) ?s2 =
      Inr (?s2\<lparr>st_objectives := st_objectives s @ objective_rows c\<rparr>)"
    using each_objective [of ?s2 c "tc_Objective c"] assms(1,2)
    by (simp add: class_fits_def class_row_of_def objective_rows_def mwf_def)
  ultimately show ?thesis by (simp add: saveClass_def)
qed

lemma row_labels [simp]:
  "r \<in> set (dscp_rows c) \<Longrightarrow> dw_label r = sint (tc_Label c)"
  "q \<in> set (objective_rows c) \<Longrightarrow> ow_label q = sint (tc_Label c)"
  "v \<in> set (reservation_rows x) \<Longrightarrow> vw_portal_id v = si_PortalID x"
  by (auto simp: dscp_rows_def dscp_row_of_def objective_rows_def objective_row_of_def
      reservation_rows_def reservation_row_of_def)

lemma each_saveClass:
  assumes "st_down s = []" and "st_classes s = map class_row_of ds"
    and "st_dscp s = concat (map dscp_rows ds)" and "st_objectives s = concat (map objective_rows ds)"
    and "distinct (map tc_Label (ds @ cs))" and "distinct (map tc_Name (ds @ cs))"
    and "list_all class_fits cs"
  shows "each saveClass cs s =
    Inr (s\<lparr>st_classes := map class_row_of (ds @ cs), st_dscp := concat (map dscp_rows (ds @ cs)),
           st_objectives := concat (map objective_rows (ds @ cs))\<rparr>)"
  using assms
proof (induction cs arbitrary: ds s)
  case (Cons c cs)
  let ?s = "s\<lparr>st_classes := st_classes s @ [class_row_of c], st_dscp := st_dscp s @ dscp_rows c,
    st_objectives := st_objectives s @ objective_rows c\<rparr>"
  have l: "tc_Label d \<noteq> tc_Label c" if "d \<in> set ds" for d
    using distinct_map_mid [OF Cons.prems(5) that] .
  have n: "tc_Name d \<noteq> tc_Name c" if "d \<in> set ds" for d
    using distinct_map_mid [OF Cons.prems(6) that] .
  have "saveClass c s = Inr ?s"
  proof (rule saveClass_row)
    show "sint (tc_Label c) \<notin> cw_label ` set (st_classes s)"
      by (auto simp: Cons.prems(2) class_row_of_def sint_inj dest: l)
    show "tc_Name c \<notin> cw_name ` set (st_classes s)"
      by (auto simp: Cons.prems(2) class_row_of_def dest: n)
    show "sint (tc_Label c) \<notin> dw_label ` set (st_dscp s)"
      by (auto simp: Cons.prems(3) sint_inj dest: l)
    show "sint (tc_Label c) \<notin> ow_label ` set (st_objectives s)"
      by (auto simp: Cons.prems(4) sint_inj dest: l)
  qed (use Cons.prems in simp_all)
  moreover have "each saveClass cs ?s =
      Inr (?s\<lparr>st_classes := map class_row_of ((ds @ [c]) @ cs),
        st_dscp := concat (map dscp_rows ((ds @ [c]) @ cs)),
        st_objectives := concat (map objective_rows ((ds @ [c]) @ cs))\<rparr>)"
    by (rule Cons.IH) (use Cons.prems in simp_all)
  ultimately show ?case by simp
qed simp


definition site_fits :: "site \<Rightarrow> bool" where
  "site_fits x \<longleftrightarrow> cidr_ok (si_Prefix x) \<and> mwf (si_ClassMbps x)"

definition tenant_fits :: "tenant \<Rightarrow> bool" where
  "tenant_fits t \<longleftrightarrow> cidr_ok (tn_Allocation t) \<and> int32 (tn_ID t) = tn_ID t \<and>
     int32 (tn_TierIndex t) = tn_TierIndex t \<and> int32 (tn_VRFTable t) = tn_VRFTable t \<and>
     (\<forall>x \<in> set (tn_Sites t). site_fits x \<and> si_TenantID x = tn_ID t)"

lemma saveSite_row:
  assumes "st_down s = []" and "site_fits x"
    and "si_PortalID x \<notin> sw_portal_id ` set (st_sites s)" and "si_Identity x \<notin> sw_identity ` set (st_sites s)"
    and "int32 (si_TenantID x) \<in> tr_id ` set (st_tenants s)"
    and "\<forall>l \<in> set (si_ClassMbps x). sint (fst l) \<in> cw_label ` set (st_classes s)"
    and "si_PortalID x \<notin> vw_portal_id ` set (st_reservations s)"
  shows "saveSite x s =
    Inr (s\<lparr>st_sites := st_sites s @ [site_row_of x],
           st_reservations := st_reservations s @ reservation_rows x\<rparr>)"
proof -
  let ?s = "s\<lparr>st_sites := st_sites s @ [site_row_of x]\<rparr>"
  have "CreateSite (site_row_of x) s = Inr ?s"
    using assms(1-5) by (simp add: CreateSite_def site_row_of_def site_fits_def)
  moreover have "\<forall>l \<in> set (si_ClassMbps x). \<forall>v \<in> set (st_reservations ?s).
      \<not> same_reservation (reservation_row_of x l) v"
    using assms(7) by (auto simp: same_reservation_def reservation_row_of_def image_iff)
  then have "each (\<lambda>l. SetSiteClassReservation (reservation_row_of x l)) (si_ClassMbps x) ?s =
      Inr (?s\<lparr>st_reservations := st_reservations s @ reservation_rows x\<rparr>)"
    using each_reservation [of ?s x "si_ClassMbps x"] assms(1,2,6)
    by (simp add: site_fits_def site_row_of_def reservation_rows_def mwf_def)
  ultimately show ?thesis by (simp add: saveSite_def)
qed

lemma each_saveSite:
  assumes "st_down s = []" and "st_sites s = map site_row_of ds"
    and "st_reservations s = concat (map reservation_rows ds)"
    and "distinct (map si_PortalID (ds @ xs))" and "distinct (map si_Identity (ds @ xs))"
    and "\<forall>x \<in> set xs. site_fits x \<and> int32 (si_TenantID x) \<in> tr_id ` set (st_tenants s) \<and>
      (\<forall>l \<in> set (si_ClassMbps x). sint (fst l) \<in> cw_label ` set (st_classes s))"
  shows "each saveSite xs s =
    Inr (s\<lparr>st_sites := map site_row_of (ds @ xs), st_reservations := concat (map reservation_rows (ds @ xs))\<rparr>)"
  using assms
proof (induction xs arbitrary: ds s)
  case (Cons x xs)
  let ?s = "s\<lparr>st_sites := st_sites s @ [site_row_of x],
    st_reservations := st_reservations s @ reservation_rows x\<rparr>"
  note p = distinct_map_mid [OF Cons.prems(4)] and i = distinct_map_mid [OF Cons.prems(5)]
  have "saveSite x s = Inr ?s"
  proof (rule saveSite_row)
    show "si_PortalID x \<notin> sw_portal_id ` set (st_sites s)"
      by (auto simp: Cons.prems(2) site_row_of_def dest: p)
    show "si_Identity x \<notin> sw_identity ` set (st_sites s)"
      by (auto simp: Cons.prems(2) site_row_of_def dest: i)
    show "si_PortalID x \<notin> vw_portal_id ` set (st_reservations s)"
      by (auto simp: Cons.prems(3) dest: p)
  qed (use Cons.prems(1,6) in simp_all)
  moreover have "each saveSite xs ?s =
      Inr (?s\<lparr>st_sites := map site_row_of ((ds @ [x]) @ xs),
        st_reservations := concat (map reservation_rows ((ds @ [x]) @ xs))\<rparr>)"
    by (rule Cons.IH) (use Cons.prems in simp_all)
  ultimately show ?case by simp
qed simp

lemma saveTenant_row:
  assumes "st_down s = []" and "tenant_fits t" and "tn_ID t \<notin> tr_id ` set (st_tenants s)"
    and "st_sites s = map site_row_of ds" and "st_reservations s = concat (map reservation_rows ds)"
    and "distinct (map si_PortalID (ds @ tn_Sites t))" and "distinct (map si_Identity (ds @ tn_Sites t))"
    and "\<forall>x \<in> set (tn_Sites t). \<forall>l \<in> set (si_ClassMbps x). sint (fst l) \<in> cw_label ` set (st_classes s)"
  shows "saveTenant t s =
    Inr (s\<lparr>st_tenants := st_tenants s @ [tenant_row_of t], st_sites := map site_row_of (ds @ tn_Sites t),
           st_reservations := concat (map reservation_rows (ds @ tn_Sites t))\<rparr>)"
proof -
  let ?s = "s\<lparr>st_tenants := st_tenants s @ [tenant_row_of t]\<rparr>"
  have "CreateTenant (tenant_row_of t) s = Inr ?s"
    using assms(1-3) by (simp add: CreateTenant_def tenant_row_of_def tenant_fits_def)
  moreover have "each saveSite (tn_Sites t) ?s =
      Inr (?s\<lparr>st_sites := map site_row_of (ds @ tn_Sites t),
        st_reservations := concat (map reservation_rows (ds @ tn_Sites t))\<rparr>)"
    by (rule each_saveSite) (use assms in \<open>simp_all add: tenant_fits_def tenant_row_of_def\<close>)
  ultimately show ?thesis by (simp add: saveTenant_def)
qed

lemma each_saveTenant:
  assumes "st_down s = []" and "st_tenants s = map tenant_row_of us"
    and "st_sites s = map site_row_of (concat (map tn_Sites us))"
    and "st_reservations s = concat (map reservation_rows (concat (map tn_Sites us)))"
    and "distinct (map tn_ID (us @ ts))" and "list_all tenant_fits (us @ ts)"
    and "distinct (map si_PortalID (concat (map tn_Sites (us @ ts))))"
    and "distinct (map si_Identity (concat (map tn_Sites (us @ ts))))"
    and "\<forall>t \<in> set ts. \<forall>x \<in> set (tn_Sites t). \<forall>l \<in> set (si_ClassMbps x).
      sint (fst l) \<in> cw_label ` set (st_classes s)"
  shows "each saveTenant ts s =
    Inr (s\<lparr>st_tenants := map tenant_row_of (us @ ts),
           st_sites := map site_row_of (concat (map tn_Sites (us @ ts))),
           st_reservations := concat (map reservation_rows (concat (map tn_Sites (us @ ts))))\<rparr>)"
  using assms
proof (induction ts arbitrary: us s)
  case (Cons t ts)
  let ?ds = "concat (map tn_Sites us)"
  let ?s = "s\<lparr>st_tenants := st_tenants s @ [tenant_row_of t], st_sites := map site_row_of (?ds @ tn_Sites t),
    st_reservations := concat (map reservation_rows (?ds @ tn_Sites t))\<rparr>"
  note i = distinct_map_mid [OF Cons.prems(5)]
  have e: "concat (map tn_Sites (us @ t # ts)) = ?ds @ tn_Sites t @ concat (map tn_Sites ts)" by simp
  have "saveTenant t s = Inr ?s"
  proof (rule saveTenant_row)
    show "tn_ID t \<notin> tr_id ` set (st_tenants s)"
      using Cons.prems(6) by (auto simp: Cons.prems(2) tenant_row_of_def tenant_fits_def list_all_iff dest: i)
    show "distinct (map si_PortalID (?ds @ tn_Sites t))" "distinct (map si_Identity (?ds @ tn_Sites t))"
      by (rule distinct_map_init [OF Cons.prems(7) [unfolded e]], rule distinct_map_init [OF Cons.prems(8) [unfolded e]])
  qed (use Cons.prems in simp_all)
  moreover have "each saveTenant ts ?s =
      Inr (?s\<lparr>st_tenants := map tenant_row_of ((us @ [t]) @ ts),
           st_sites := map site_row_of (concat (map tn_Sites ((us @ [t]) @ ts))),
           st_reservations := concat (map reservation_rows (concat (map tn_Sites ((us @ [t]) @ ts))))\<rparr>)"
    by (rule Cons.IH) (use Cons.prems in simp_all)
  ultimately show ?case by simp
qed simp


text \<open>Repositories that the tables can hold, with indexes that hold exactly their sites.\<close>

definition storable :: "tenant_repo \<Rightarrow> bool" where
  "storable repo \<longleftrightarrow>
     mwf (re_classes repo) \<and> (\<forall>(l, c) \<in> set (re_classes repo). tc_Label c = l \<and> class_fits c) \<and>
     distinct (map (tc_Name \<circ> snd) (re_classes repo)) \<and>
     mwf (re_byID repo) \<and> (\<forall>(i, t) \<in> set (re_byID repo). tn_ID t = i \<and> tenant_fits t) \<and>
     distinct (map si_PortalID (repo_sites repo)) \<and> distinct (map si_Identity (repo_sites repo)) \<and>
     (\<forall>x \<in> set (repo_sites repo). fst ` set (si_ClassMbps x) \<subseteq> fst ` set (re_classes repo)) \<and>
     (\<forall>k x. mget (re_byIdentity repo) k = Some x \<longleftrightarrow> x \<in> set (repo_sites repo) \<and> si_Identity x = k) \<and>
     (\<forall>k x. mget (re_byPortalID repo) k = Some x \<longleftrightarrow> x \<in> set (repo_sites repo) \<and> si_PortalID x = k) \<and>
     (\<forall>p. mset (mget0 [] (re_byPop repo) p) = mset (filter (\<lambda>x. si_Attach x = p) (repo_sites repo)))"

lemma storableD:
  assumes "storable repo"
  shows "mwf (re_classes repo)" and "\<forall>(l, c) \<in> set (re_classes repo). tc_Label c = l \<and> class_fits c"
    and "distinct (map (tc_Name \<circ> snd) (re_classes repo))" and "mwf (re_byID repo)"
    and "\<forall>(i, t) \<in> set (re_byID repo). tn_ID t = i \<and> tenant_fits t"
    and "distinct (map si_PortalID (repo_sites repo))" and "distinct (map si_Identity (repo_sites repo))"
    and "\<forall>x \<in> set (repo_sites repo). fst ` set (si_ClassMbps x) \<subseteq> fst ` set (re_classes repo)"
    and "\<forall>k x. mget (re_byIdentity repo) k = Some x \<longleftrightarrow> x \<in> set (repo_sites repo) \<and> si_Identity x = k"
    and "\<forall>k x. mget (re_byPortalID repo) k = Some x \<longleftrightarrow> x \<in> set (repo_sites repo) \<and> si_PortalID x = k"
    and "\<forall>p. mset (mget0 [] (re_byPop repo) p) = mset (filter (\<lambda>x. si_Attach x = p) (repo_sites repo))"
  using assms unfolding storable_def by - (elim conjE, assumption)+

definition saved :: "tenant_repo \<Rightarrow> store \<Rightarrow> store" where
  "saved repo s =
     (let cs = map snd (re_classes repo); xs = repo_sites repo
      in s\<lparr>st_classes := map class_row_of cs, st_dscp := concat (map dscp_rows cs),
           st_objectives := concat (map objective_rows cs),
           st_tenants := map tenant_row_of (map snd (re_byID repo)),
           st_sites := map site_row_of xs, st_reservations := concat (map reservation_rows xs)\<rparr>)"

lemma refs_all:
  assumes "refs f xs g ys"
  shows "filter (\<lambda>x. f x \<in> g ` set ys) xs = xs" and "filter (\<lambda>x. f x \<notin> g ` set ys) xs = []"
proof -
  have "f x \<in> g ` set ys" if "x \<in> set xs" for x
    using assms that unfolding refs_def by (metis imageI)
  then show "filter (\<lambda>x. f x \<in> g ` set ys) xs = xs" "filter (\<lambda>x. f x \<notin> g ` set ys) xs = []"
    by (simp_all add: filter_id_conv filter_empty_conv)
qed

lemma DeleteAllTenants_empty:
  assumes "store_ok s" and "st_down s = []"
  shows "DeleteAllTenants s = Inr (s\<lparr>st_tenants := [], st_sites := [], st_reservations := []\<rparr>)"
proof -
  have "refs sw_tenant_id (st_sites s) tr_id (st_tenants s)"
    "refs vw_portal_id (st_reservations s) sw_portal_id (st_sites s)"
    using assms(1) by (simp_all add: store_ok_def)
  note r = this [THEN refs_all(1)] this [THEN refs_all(2)]
  have "filter (\<lambda>x. tr_id x \<notin> tr_id ` set (st_tenants s)) (st_tenants s) = []"
    by (simp add: filter_empty_conv)
  with r show ?thesis
    using assms(2) by (simp add: DeleteAllTenants_def drop_tenants_def drop_sites_def del: set_filter)
qed

lemma DeleteAllTrafficClasses_empty:
  assumes "store_ok s" and "st_down s = []"
  shows "DeleteAllTrafficClasses s =
    Inr (s\<lparr>st_classes := [], st_dscp := [], st_objectives := [], st_reservations := []\<rparr>)"
proof -
  have "refs dw_label (st_dscp s) cw_label (st_classes s)"
    "refs ow_label (st_objectives s) cw_label (st_classes s)"
    "refs vw_label (st_reservations s) cw_label (st_classes s)"
    using assms(1) by (simp_all add: store_ok_def)
  note r = this [THEN refs_all(2)]
  have "filter (\<lambda>x. cw_label x \<notin> cw_label ` set (st_classes s)) (st_classes s) = []"
    by (simp add: filter_empty_conv)
  with r show ?thesis
    using assms(2) by (simp add: DeleteAllTrafficClasses_def drop_classes_def)
qed

lemma SaveTo_saved:
  assumes "store_ok s" and "st_down s = []" and "storable repo"
  shows "SaveTo repo s = Inr (saved repo s)"
proof -
  let ?cs = "map snd (re_classes repo)" and ?ts = "map snd (re_byID repo)"
  let ?s1 = "s\<lparr>st_tenants := [], st_sites := [], st_reservations := []\<rparr>"
  let ?s2 = "?s1\<lparr>st_classes := [], st_dscp := [], st_objectives := []\<rparr>"
  let ?s3 = "?s2\<lparr>st_classes := map class_row_of ?cs, st_dscp := concat (map dscp_rows ?cs),
    st_objectives := concat (map objective_rows ?cs)\<rparr>"
  note S = storableD [OF assms(3)]
  have labels: "map tc_Label ?cs = map fst (re_classes repo)"
    using S(2) by auto
  have ids: "map tn_ID ?ts = map fst (re_byID repo)"
    using S(5) by auto
  have sites: "concat (map tn_Sites ?ts) = repo_sites repo"
    by (simp add: repo_sites_def)
  have c: "distinct (map tc_Label ([] @ ?cs))" "distinct (map tc_Name ([] @ ?cs))" "list_all class_fits ?cs"
  proof -
    show "distinct (map tc_Label ([] @ ?cs))" unfolding append_Nil labels using S(1) by (simp add: mwf_def)
    show "distinct (map tc_Name ([] @ ?cs))" using S(3) by simp
    show "list_all class_fits ?cs" using S(2) by (auto simp: list_all_iff)
  qed
  have t: "distinct (map tn_ID ([] @ ?ts))" "list_all tenant_fits ([] @ ?ts)"
    "distinct (map si_PortalID (concat (map tn_Sites ([] @ ?ts))))"
    "distinct (map si_Identity (concat (map tn_Sites ([] @ ?ts))))"
  proof -
    show "distinct (map tn_ID ([] @ ?ts))" unfolding append_Nil ids using S(4) by (simp add: mwf_def)
    show "list_all tenant_fits ([] @ ?ts)" using S(5) by (auto simp: list_all_iff)
  qed (unfold append_Nil sites, rule S(6), rule S(7))
  have l: "\<forall>t \<in> set ?ts. \<forall>x \<in> set (tn_Sites t). \<forall>l \<in> set (si_ClassMbps x).
      sint (fst l) \<in> cw_label ` set (st_classes ?s3)"
  proof (intro ballI)
    fix t x l assume "t \<in> set ?ts" "x \<in> set (tn_Sites t)" and l: "l \<in> set (si_ClassMbps x)"
    then have "x \<in> set (repo_sites repo)" by (auto simp: repo_sites_def)
    then have "fst l \<in> fst ` set (re_classes repo)"
      using S(8) l by blast
    then have "fst l \<in> set (map tc_Label ?cs)" by (simp only: labels list.set_map)
    then obtain d where d: "d \<in> set ?cs" "fst l = tc_Label d" by auto
    have "class_row_of d \<in> set (st_classes ?s3)"
      using imageI [OF d(1), of class_row_of] by (simp add: image_image)
    then show "sint (fst l) \<in> cw_label ` set (st_classes ?s3)"
      by (rule rev_image_eqI) (simp add: class_row_of_def d(2))
  qed
  have "store_ok ?s1"
    using assms(1) by (simp add: store_ok_def refs_def)
  from DeleteAllTrafficClasses_empty [OF this]
  have "DeleteAllTrafficClasses ?s1 = Inr ?s2"
    using assms(2) by simp
  moreover have "each saveClass ?cs ?s2 = Inr ?s3"
  proof -
    have "each saveClass ?cs ?s2 = Inr (?s2\<lparr>st_classes := map class_row_of ([] @ ?cs),
        st_dscp := concat (map dscp_rows ([] @ ?cs)), st_objectives := concat (map objective_rows ([] @ ?cs))\<rparr>)"
      by (rule each_saveClass [OF _ _ _ _ c]) (use assms(2) in simp_all)
    then show ?thesis by simp
  qed
  moreover have "each saveTenant ?ts ?s3 = Inr (saved repo s)"
  proof -
    have "each saveTenant ?ts ?s3 = Inr (?s3\<lparr>st_tenants := map tenant_row_of ([] @ ?ts),
           st_sites := map site_row_of (concat (map tn_Sites ([] @ ?ts))),
           st_reservations := concat (map reservation_rows (concat (map tn_Sites ([] @ ?ts))))\<rparr>)"
      by (rule each_saveTenant [OF _ _ _ _ t l]) (use assms(2) in simp_all)
    then show ?thesis by (simp add: saved_def Let_def sites del: map_map)
  qed
  ultimately show ?thesis
    using DeleteAllTenants_empty [OF assms(1,2)] by (simp add: SaveTo_def)
qed


section \<open>Loading\<close>

lemma sort_key_map: "map f (sort_key f xs) = sort (map f xs)"
proof (rule properties_for_sort [symmetric])
  show "mset (map f (sort_key f xs)) = mset (map f xs)" by (simp only: mset_map mset_sort)
qed simp

text \<open>What is read back of a class and of a site.\<close>

definition loaded_class :: "traffic_class \<Rightarrow> traffic_class" where
  "loaded_class c = c\<lparr>tc_DSCP := sort (tc_DSCP c),
     tc_Objective := fold (\<lambda>q. mput (ow_dimension q) (ow_weight q))
       (sort_key ow_dimension (objective_rows c)) []\<rparr>"

definition loaded_site :: "site \<Rightarrow> site" where
  "loaded_site x = site_of_row (site_row_of x) (sort_key vw_label (reservation_rows x))"

text \<open>Equal up to the order of codepoints, of maps and of sites.\<close>

definition class_view :: "traffic_class \<Rightarrow> traffic_class \<times> (CostDimension \<Rightarrow> f64 option)" where
  "class_view c = (c\<lparr>tc_DSCP := sort (tc_DSCP c), tc_Objective := []\<rparr>, mget (tc_Objective c))"

definition site_view :: "site \<Rightarrow> site \<times> (64 word \<Rightarrow> f64 option)" where
  "site_view x = (x\<lparr>si_ClassMbps := []\<rparr>, mget (si_ClassMbps x))"

definition tenant_view :: "tenant \<Rightarrow> tenant \<times> (site \<times> (64 word \<Rightarrow> f64 option)) multiset" where
  "tenant_view t = (t\<lparr>tn_Sites := []\<rparr>, mset (map site_view (tn_Sites t)))"

definition same_repo :: "tenant_repo \<Rightarrow> tenant_repo \<Rightarrow> bool" where
  "same_repo a b \<longleftrightarrow>
     (\<forall>l. map_option class_view (repo_Class a l) = map_option class_view (repo_Class b l)) \<and>
     (\<forall>i. map_option tenant_view (mget (re_byID a) i) = map_option tenant_view (mget (re_byID b) i)) \<and>
     (\<forall>k. map_option site_view (repo_SiteByIdentity a k) = map_option site_view (repo_SiteByIdentity b k)) \<and>
     (\<forall>k. map_option site_view (repo_SiteByPortalID a k) = map_option site_view (repo_SiteByPortalID b k)) \<and>
     (\<forall>p. mset (map site_view (repo_SitesByPop a p)) = mset (map site_view (repo_SitesByPop b p)))"

lemma class_view_loaded:
  assumes "class_fits c"
  shows "class_view (loaded_class c) = class_view c"
proof -
  have "mget (tc_Objective (loaded_class c)) = mget (tc_Objective c)"
  proof
    fix k
    show "mget (tc_Objective (loaded_class c)) k = mget (tc_Objective c) k"
      using mget_fold_rows [of "tc_Objective c" ow_dimension "objective_row_of c" ow_weight "\<lambda>x. x" ow_dimension k]
        assms
      by (simp add: loaded_class_def objective_rows_def class_fits_def objective_row_of_def map_option.id [unfolded id_def])
  qed
  then show ?thesis by (simp add: class_view_def loaded_class_def sorted_sort_id)
qed

lemma site_view_loaded:
  assumes "site_fits x" and "int32 (si_TenantID x) = si_TenantID x"
  shows "site_view (loaded_site x) = site_view x"
proof -
  have "mget (si_ClassMbps (loaded_site x)) = mget (si_ClassMbps x)"
  proof
    fix k
    show "mget (si_ClassMbps (loaded_site x)) k = mget (si_ClassMbps x) k"
      using mget_fold_rows [of "si_ClassMbps x" "\<lambda>v. word_of_int (vw_label v)" "reservation_row_of x" vw_mbps "\<lambda>x. x" vw_label k]
        assms(1)
      by (simp add: loaded_site_def site_of_row_def reservation_rows_def site_fits_def reservation_row_of_def
          map_option.id [unfolded id_def])
  qed
  then show ?thesis
    using assms(2) by (simp add: site_view_def loaded_site_def site_of_row_def site_row_of_def)
qed


text \<open>The tables of a store that a repository was saved to.\<close>

definition holds :: "tenant_repo \<Rightarrow> store \<Rightarrow> bool" where
  "holds repo s \<longleftrightarrow> st_down s = [] \<and>
     st_classes s = map class_row_of (map snd (re_classes repo)) \<and>
     st_dscp s = concat (map dscp_rows (map snd (re_classes repo))) \<and>
     st_objectives s = concat (map objective_rows (map snd (re_classes repo))) \<and>
     st_tenants s = map tenant_row_of (map snd (re_byID repo)) \<and>
     st_sites s = map site_row_of (repo_sites repo) \<and>
     st_reservations s = concat (map reservation_rows (repo_sites repo))"

lemma loadClass_saved:
  assumes "storable repo" and "holds repo s" and c: "c \<in> set (map snd (re_classes repo))"
  shows "loadClass s (class_row_of c) = Inr (loaded_class c)"
proof -
  let ?cs = "map snd (re_classes repo)"
  note S = storableD [OF assms(1)]
  have "map tc_Label ?cs = map fst (re_classes repo)" using S(2) by auto
  then have "distinct (map tc_Label ?cs)" using S(1) by (simp only: mwf_def)
  then have d: "distinct (map (\<lambda>c. sint (tc_Label c)) ?cs)"
    unfolding distinct_map by (auto simp: inj_on_def sint_inj)
  have "filter (\<lambda>r. dw_label r = sint (tc_Label c)) (st_dscp s) = dscp_rows c"
    using assms(2) filter_concat_key [OF c d, of dscp_rows dw_label] by (simp add: holds_def)
  moreover have "filter (\<lambda>r. ow_label r = sint (tc_Label c)) (st_objectives s) = objective_rows c"
    using assms(2) filter_concat_key [OF c d, of objective_rows ow_label] by (simp add: holds_def)
  moreover have "class_fits c" using S(2) c by auto
  then have "map dw_dscp (dscp_rows c) = tc_DSCP c"
    by (auto simp: dscp_rows_def dscp_row_of_def class_fits_def int16_def signed_take_bit_int_eq_self intro!: map_idI)
  moreover have "st_down s = []" using assms(2) by (simp add: holds_def)
  ultimately show ?thesis
    using \<open>class_fits c\<close>
    by (simp add: loadClass_def ListTrafficClassDSCP_def ListTrafficClassObjectives_def from_store_def
        class_row_of_def sort_key_map loaded_class_def class_fits_def)
qed

lemma loadClassRows_fold:
  assumes "\<And>r. r \<in> set rows \<Longrightarrow> loadClass s r = Inr (g r)"
  shows "loadClassRows s rows m = Inr (fold (\<lambda>r. mput (word_of_int (cw_label r)) (g r)) rows m)"
  using assms by (induction rows arbitrary: m) simp_all

lemma loadTrafficClasses_saved:
  assumes "storable repo" and "holds repo s"
  shows "\<exists>m. loadTrafficClasses s = Inr m \<and> (\<forall>l. mget m l = map_option loaded_class (mget (re_classes repo) l))"
proof -
  let ?cs = "map snd (re_classes repo)" and ?g = "\<lambda>r. projr (loadClass s r)"
  let ?rows = "sort_key cw_class_index (map (class_row_of \<circ> snd) (re_classes repo))"
  note S = storableD [OF assms(1)]
  have g: "loadClass s (class_row_of c) = Inr (loaded_class c)" if "c \<in> set ?cs" for c
    by (rule loadClass_saved [OF assms that])
  have "st_classes s = map (class_row_of \<circ> snd) (re_classes repo)" "st_down s = []"
    using assms(2) by (simp_all add: holds_def)
  then have "loadTrafficClasses s = loadClassRows s ?rows []"
    by (simp add: loadTrafficClasses_def ListTrafficClasses_def from_store_def)
  also have "\<dots> = Inr (fold (\<lambda>r. mput (word_of_int (cw_label r)) (?g r)) ?rows [])"
  proof (rule loadClassRows_fold)
    fix r assume "r \<in> set ?rows"
    then obtain c where "c \<in> set ?cs" "r = class_row_of c" by auto
    then show "loadClass s r = Inr (?g r)" using g by simp
  qed
  finally have l: "loadTrafficClasses s = Inr (fold (\<lambda>r. mput (word_of_int (cw_label r)) (?g r)) ?rows [])" .
  have "mget (fold (\<lambda>r. mput (word_of_int (cw_label r)) (?g r)) ?rows []) l =
      map_option loaded_class (mget (re_classes repo) l)" for l
  proof (rule mget_fold_rows [OF S(1)])
    fix x assume x: "x \<in> set (re_classes repo)"
    then have "tc_Label (snd x) = fst x" using S(2) by auto
    moreover have "?g (class_row_of (snd x)) = loaded_class (snd x)" using g [of "snd x"] x by simp
    ultimately show "word_of_int (cw_label ((class_row_of \<circ> snd) x)) = fst x \<and>
        ?g ((class_row_of \<circ> snd) x) = loaded_class (snd x)"
      by (simp add: class_row_of_def)
  qed
  with l show ?thesis by blast
qed

lemma ListTenants_saved:
  assumes "storable repo" and "holds repo s"
  shows "\<exists>rows. ListTenants s = Inr rows \<and>
    (\<forall>i. mget (fold (\<lambda>row. mput (tr_id row) (tenant_of_row row)) rows []) i =
       map_option (\<lambda>t. t\<lparr>tn_Sites := []\<rparr>) (mget (re_byID repo) i))"
proof -
  let ?rows = "sort_key tr_id (map (tenant_row_of \<circ> snd) (re_byID repo))"
  note S = storableD [OF assms(1)]
  have "ListTenants s = Inr ?rows"
    using assms(2) by (simp add: ListTenants_def holds_def)
  moreover have "mget (fold (\<lambda>row. mput (tr_id row) (tenant_of_row row)) ?rows []) i =
      map_option (\<lambda>t. t\<lparr>tn_Sites := []\<rparr>) (mget (re_byID repo) i)" for i
  proof (rule mget_fold_rows [OF S(4)])
    fix x assume "x \<in> set (re_byID repo)"
    then have "tn_ID (snd x) = fst x" "tenant_fits (snd x)" using S(5) by auto
    then show "tr_id ((tenant_row_of \<circ> snd) x) = fst x \<and>
        tenant_of_row ((tenant_row_of \<circ> snd) x) = (snd x)\<lparr>tn_Sites := []\<rparr>"
      by (simp add: tenant_row_of_def tenant_of_row_def tenant_fits_def)
  qed
  ultimately show ?thesis by blast
qed


lemma insort_key_map: "insort_key h (f x) (map f ys) = map f (insort_key (\<lambda>y. h (f y)) x ys)"
  by (induction ys) simp_all

lemma sort_key_of_map: "sort_key h (map f xs) = map f (sort_key (\<lambda>y. h (f y)) xs)"
  by (induction xs) (simp_all add: insort_key_map)

lemma loadSiteRows_saved:
  assumes "\<And>x. x \<in> set ys \<Longrightarrow> ListSiteClassReservations (si_PortalID x) s = Inr (sort_key vw_label (reservation_rows x))"
    and "\<And>x. x \<in> set ys \<Longrightarrow> mget (sl_byID m) (int32 (si_TenantID x)) \<noteq> None"
    and "\<And>i t. mget (sl_byID m) i = Some t \<Longrightarrow> tn_ID t = i"
  shows "\<exists>m'. loadSiteRows s (map site_row_of ys) m = Inr m' \<and>
    (\<forall>i. mget (sl_byID m') i =
       map_option (\<lambda>t. t\<lparr>tn_Sites := tn_Sites t @ map loaded_site (filter (\<lambda>x. int32 (si_TenantID x) = i) ys)\<rparr>)
         (mget (sl_byID m) i)) \<and>
    sl_byIdentity m' = fold (\<lambda>x. mput (si_Identity x) (loaded_site x)) ys (sl_byIdentity m) \<and>
    sl_byPortalID m' = fold (\<lambda>x. mput (si_PortalID x) (loaded_site x)) ys (sl_byPortalID m) \<and>
    (\<forall>p. mget0 [] (sl_byPop m') p =
       mget0 [] (sl_byPop m) p @ map loaded_site (filter (\<lambda>x. si_Attach x = p) ys))"
  using assms
proof (induction ys arbitrary: m)
  case Nil
  have "map_option (\<lambda>t. t\<lparr>tn_Sites := tn_Sites t\<rparr>) o' = o'" for o' :: "tenant option"
    by (cases o') simp_all
  then show ?case by simp
next
  case (Cons x ys)
  from Cons.prems(2) [of x] obtain t where t: "mget (sl_byID m) (int32 (si_TenantID x)) = Some t" by auto
  then have ti: "tn_ID t = int32 (si_TenantID x)" by (rule Cons.prems(3))
  let ?m = "addSite t (loaded_site x) m"
  have row: "sw_tenant_id (site_row_of x) = int32 (si_TenantID x)" "sw_portal_id (site_row_of x) = si_PortalID x"
    "si_Identity (loaded_site x) = si_Identity x" "si_PortalID (loaded_site x) = si_PortalID x"
    "si_Attach (loaded_site x) = si_Attach x"
    by (simp_all add: site_row_of_def loaded_site_def site_of_row_def)
  have one: "loadSiteRows s (map site_row_of (x # ys)) m = loadSiteRows s (map site_row_of ys) ?m"
    using Cons.prems(1) [of x] t by (simp add: row from_store_def loaded_site_def)
  have "\<exists>m'. loadSiteRows s (map site_row_of ys) ?m = Inr m' \<and>
    (\<forall>i. mget (sl_byID m') i =
       map_option (\<lambda>t. t\<lparr>tn_Sites := tn_Sites t @ map loaded_site (filter (\<lambda>x. int32 (si_TenantID x) = i) ys)\<rparr>)
         (mget (sl_byID ?m) i)) \<and>
    sl_byIdentity m' = fold (\<lambda>x. mput (si_Identity x) (loaded_site x)) ys (sl_byIdentity ?m) \<and>
    sl_byPortalID m' = fold (\<lambda>x. mput (si_PortalID x) (loaded_site x)) ys (sl_byPortalID ?m) \<and>
    (\<forall>p. mget0 [] (sl_byPop m') p =
       mget0 [] (sl_byPop ?m) p @ map loaded_site (filter (\<lambda>x. si_Attach x = p) ys))"
    by (rule Cons.IH) (use Cons.prems ti in \<open>auto simp: addSite_def split: if_splits\<close>)
  then obtain m' where m': "loadSiteRows s (map site_row_of ys) ?m = Inr m'"
    and id: "\<And>i. mget (sl_byID m') i =
       map_option (\<lambda>t. t\<lparr>tn_Sites := tn_Sites t @ map loaded_site (filter (\<lambda>x. int32 (si_TenantID x) = i) ys)\<rparr>)
         (mget (sl_byID ?m) i)"
    and ix: "sl_byIdentity m' = fold (\<lambda>x. mput (si_Identity x) (loaded_site x)) ys (sl_byIdentity ?m)"
      "sl_byPortalID m' = fold (\<lambda>x. mput (si_PortalID x) (loaded_site x)) ys (sl_byPortalID ?m)"
    and pop: "\<And>p. mget0 [] (sl_byPop m') p =
       mget0 [] (sl_byPop ?m) p @ map loaded_site (filter (\<lambda>x. si_Attach x = p) ys)"
    by blast
  have "mget (sl_byID m') i =
      map_option (\<lambda>t. t\<lparr>tn_Sites := tn_Sites t @ map loaded_site (filter (\<lambda>x. int32 (si_TenantID x) = i) (x # ys))\<rparr>)
        (mget (sl_byID m) i)" for i
    using t ti by (simp add: id addSite_def)
  moreover have "mget0 [] (sl_byPop m') p =
      mget0 [] (sl_byPop m) p @ map loaded_site (filter (\<lambda>x. si_Attach x = p) (x # ys))" for p
    by (simp add: pop addSite_def row)
  ultimately show ?case
    using one m' ix by (simp add: addSite_def row)
qed


lemma filter_concat_key_in:
  assumes "c \<in> set cs" and "distinct (map k cs)"
    and "\<And>c r. c \<in> set cs \<Longrightarrow> r \<in> set (f c) \<Longrightarrow> g r = k c"
  shows "filter (\<lambda>r. g r = k c) (concat (map f cs)) = f c"
proof -
  let ?f = "\<lambda>c. if c \<in> set cs then f c else []"
  have e: "map ?f cs = map f cs" by simp
  have "filter (\<lambda>r. g r = k c) (concat (map ?f cs)) = ?f c"
    by (rule filter_concat_key [OF assms(1,2)]) (use assms(3) in \<open>auto split: if_splits\<close>)
  then show ?thesis unfolding e using assms(1) by simp
qed

lemma mget_fold_index:
  assumes "distinct (map f ys)"
  shows "mget (fold (\<lambda>x. mput (f x) (g x)) ys []) k = Some v \<longleftrightarrow> (\<exists>x \<in> set ys. f x = k \<and> v = g x)"
  using assms
proof (induction ys rule: rev_induct)
  case Nil
  then show ?case by (simp add: gm.get_empty)
next
  case (snoc y ys)
  have "f x \<noteq> f y" if "x \<in> set ys" for x
    using distinct_map_mid [of f ys y "[]" x] snoc.prems that by simp
  with snoc show ?case by auto
qed

lemma index_view:
  assumes "distinct (map f ys)" and "set ys = set xs"
    and "\<forall>k x. mget m k = Some x \<longleftrightarrow> x \<in> set xs \<and> f x = k"
    and "\<And>x. x \<in> set xs \<Longrightarrow> view (g x) = view x"
  shows "map_option view (mget m k) = map_option view (mget (fold (\<lambda>x. mput (f x) (g x)) ys []) k)"
proof (cases "mget m k")
  case None
  then have "f x \<noteq> k" if "x \<in> set xs" for x
    using assms(3) that by (metis option.distinct(1))
  then have "mget (fold (\<lambda>x. mput (f x) (g x)) ys []) k \<noteq> Some v" for v
    using assms(2) by (auto simp: mget_fold_index [OF assms(1)])
  with None show ?thesis by (metis not_Some_eq)
next
  case (Some x)
  then have x: "x \<in> set xs" "f x = k" using assms(3) by auto
  then have "mget (fold (\<lambda>x. mput (f x) (g x)) ys []) k = Some (g x)"
    using assms(2) by (auto simp: mget_fold_index [OF assms(1)])
  with Some x assms(4) show ?thesis by simp
qed

text \<open>The facts about the sites of a storable repository.\<close>

lemma storable_sites:
  assumes "storable repo"
  shows "x \<in> set (repo_sites repo) \<Longrightarrow> site_view (loaded_site x) = site_view x"
    and "x \<in> set (repo_sites repo) \<Longrightarrow> mget (re_byID repo) (int32 (si_TenantID x)) \<noteq> None"
    and "mget (re_byID repo) i = Some t \<Longrightarrow>
      filter (\<lambda>x. int32 (si_TenantID x) = i) (repo_sites repo) = tn_Sites t"
proof -
  note S = storableD [OF assms]
  have fits: "tn_ID t = i \<and> tenant_fits t" if "(i, t) \<in> set (re_byID repo)" for i t
    using S(5) that by blast
  have own: "int32 (si_TenantID x) = i \<and> site_fits x \<and> int32 (si_TenantID x) = si_TenantID x"
    if "(i, t) \<in> set (re_byID repo)" "x \<in> set (tn_Sites t)" for i t x
    using fits [OF that(1)] that(2) by (auto simp: tenant_fits_def)
  have site: "\<exists>i t. (i, t) \<in> set (re_byID repo) \<and> x \<in> set (tn_Sites t)" if "x \<in> set (repo_sites repo)" for x
    using that by (auto simp: repo_sites_def; blast)
  show "site_view (loaded_site x) = site_view x" if "x \<in> set (repo_sites repo)"
    using site [OF that] own site_view_loaded by blast
  show "mget (re_byID repo) (int32 (si_TenantID x)) \<noteq> None" if "x \<in> set (repo_sites repo)"
    using site [OF that] own in_set_mget [OF S(4)] by fastforce
  show "filter (\<lambda>x. int32 (si_TenantID x) = i) (repo_sites repo) = tn_Sites t"
    if "mget (re_byID repo) i = Some t"
  proof -
    have c: "(i, t) \<in> set (re_byID repo)" using that by (rule mget_in_set)
    have "filter (\<lambda>x. int32 (si_TenantID x) = fst (i, t)) (concat (map (tn_Sites \<circ> snd) (re_byID repo))) =
        (tn_Sites \<circ> snd) (i, t)"
      by (rule filter_concat_key_in [OF c]) (use S(4) own in \<open>auto simp: mwf_def\<close>)
    then show ?thesis by (simp add: repo_sites_def)
  qed
qed


lemma ListSites_saved:
  assumes "holds repo s"
  shows "\<exists>ys. ListSites s = Inr (map site_row_of ys) \<and> mset ys = mset (repo_sites repo)"
proof -
  let ?h = "\<lambda>x. (sw_tenant_id x, sw_if_id x)"
  have "ListSites s = Inr (map site_row_of (sort_key (\<lambda>x. ?h (site_row_of x)) (repo_sites repo)))"
    using assms by (simp only: ListSites_def holds_def guarded_up sort_key_of_map)
  moreover have "mset (sort_key (\<lambda>x. ?h (site_row_of x)) (repo_sites repo)) = mset (repo_sites repo)"
    by simp
  ultimately show ?thesis by blast
qed

lemma ListSiteClassReservations_saved:
  assumes "storable repo" and "holds repo s" and "x \<in> set (repo_sites repo)"
  shows "ListSiteClassReservations (si_PortalID x) s = Inr (sort_key vw_label (reservation_rows x))"
  using assms(2) filter_concat_key [OF assms(3) storableD(6) [OF assms(1)], of reservation_rows vw_portal_id]
  by (simp add: ListSiteClassReservations_def holds_def)

lemma same_repo_loaded:
  assumes "storable repo" and ys: "mset ys = mset (repo_sites repo)"
    and cl: "\<And>l. mget (re_classes new) l = map_option loaded_class (mget (re_classes repo) l)"
    and id: "\<And>i. mget (re_byID new) i =
       map_option (\<lambda>t. t\<lparr>tn_Sites := map loaded_site (filter (\<lambda>x. int32 (si_TenantID x) = i) ys)\<rparr>)
         (mget (re_byID repo) i)"
    and ix: "re_byIdentity new = fold (\<lambda>x. mput (si_Identity x) (loaded_site x)) ys []"
      "re_byPortalID new = fold (\<lambda>x. mput (si_PortalID x) (loaded_site x)) ys []"
    and pop: "\<And>p. mget0 [] (re_byPop new) p = map loaded_site (filter (\<lambda>x. si_Attach x = p) ys)"
  shows "same_repo repo new"
proof -
  note S = storableD [OF assms(1)] and X = storable_sites [OF assms(1)]
  show ?thesis
  proof (unfold same_repo_def, intro conjI allI)
    fix l
    have "class_view (loaded_class c) = class_view c" if "mget (re_classes repo) l = Some c" for c
      using S(2) mget_in_set [OF that] class_view_loaded by blast
    then show "map_option class_view (repo_Class repo l) = map_option class_view (repo_Class new l)"
      by (cases "mget (re_classes repo) l") (simp_all add: repo_Class_def cl)
  next
    fix i
    show "map_option tenant_view (mget (re_byID repo) i) = map_option tenant_view (mget (re_byID new) i)"
    proof (cases "mget (re_byID repo) i")
      case (Some t)
      have "mset (filter (\<lambda>x. int32 (si_TenantID x) = i) ys) = mset (tn_Sites t)"
        using X(3) [OF Some] ys by (metis mset_filter)
      moreover have "set (tn_Sites t) \<subseteq> set (repo_sites repo)"
        using X(3) [OF Some] by (metis filter_is_subset)
      ultimately have "mset (map site_view (map loaded_site (filter (\<lambda>x. int32 (si_TenantID x) = i) ys))) =
          mset (map site_view (tn_Sites t))"
        using X(1) by (auto simp: mset_map image_mset.compositionality o_def intro!: image_mset_cong)
      then show ?thesis by (simp add: id Some tenant_view_def del: mset_map)
    qed (simp add: id)
  next
    fix k
    have d: "distinct (map si_Identity ys)" "distinct (map si_PortalID ys)"
      using S(6,7) ys by (metis mset_eq_imp_distinct_iff mset_map)+
    show "map_option site_view (repo_SiteByIdentity repo k) = map_option site_view (repo_SiteByIdentity new k)"
      using index_view [OF d(1) mset_eq_setD [OF ys] S(9), of site_view loaded_site k] X(1) by (simp add: repo_SiteByIdentity_def ix)
    show "map_option site_view (repo_SiteByPortalID repo k) = map_option site_view (repo_SiteByPortalID new k)"
      using index_view [OF d(2) mset_eq_setD [OF ys] S(10), of site_view loaded_site k] X(1) by (simp add: repo_SiteByPortalID_def ix)
  next
    fix p
    have "mset (filter (\<lambda>x. si_Attach x = p) ys) = mset (repo_SitesByPop repo p)"
      using S(11) ys by (simp add: repo_SitesByPop_def)
    moreover from this have "set (repo_SitesByPop repo p) \<subseteq> set (repo_sites repo)"
      using ys by (metis filter_is_subset mset_eq_setD)
    ultimately show "mset (map site_view (repo_SitesByPop repo p)) = mset (map site_view (repo_SitesByPop new p))"
      using X(1) by (auto simp: repo_SitesByPop_def pop mset_map image_mset.compositionality o_def intro!: image_mset_cong)
  qed
qed

lemma LoadFrom_saved:
  assumes "storable repo" and "holds repo s"
  shows "\<exists>repo'. LoadFrom s old = (None, repo') \<and> same_repo repo repo'"
proof -
  note S = storableD [OF assms(1)] and X = storable_sites [OF assms(1)]
  obtain classes where cl: "loadTrafficClasses s = Inr classes"
    "\<And>l. mget classes l = map_option loaded_class (mget (re_classes repo) l)"
    using loadTrafficClasses_saved [OF assms] by blast
  obtain rows where te: "ListTenants s = Inr rows"
    "\<And>i. mget (fold (\<lambda>row. mput (tr_id row) (tenant_of_row row)) rows []) i =
       map_option (\<lambda>t. t\<lparr>tn_Sites := []\<rparr>) (mget (re_byID repo) i)"
    using ListTenants_saved [OF assms] by blast
  obtain ys where ys: "ListSites s = Inr (map site_row_of ys)" "mset ys = mset (repo_sites repo)"
    using ListSites_saved [OF assms(2)] by blast
  have set: "set ys = set (repo_sites repo)" using ys(2) by (rule mset_eq_setD)
  let ?m = "\<lparr>sl_byID = fold (\<lambda>row. mput (tr_id row) (tenant_of_row row)) rows [],
    sl_byIdentity = [], sl_byPortalID = [], sl_byPop = []\<rparr>"
  have ids: "tn_ID t = i" if "mget (re_byID repo) i = Some t" for i t
    using S(5) mget_in_set [OF that] by blast
  have p: "\<And>x. x \<in> set ys \<Longrightarrow> ListSiteClassReservations (si_PortalID x) s = Inr (sort_key vw_label (reservation_rows x))"
    "\<And>x. x \<in> set ys \<Longrightarrow> mget (sl_byID ?m) (int32 (si_TenantID x)) \<noteq> None"
    "\<And>i t. mget (sl_byID ?m) i = Some t \<Longrightarrow> tn_ID t = i"
    using ListSiteClassReservations_saved [OF assms] X(2) by (auto simp: set te(2) dest: ids)
  have e: "mget0 [] ([] :: (string, site list) gomap) q = []" for q
    by (simp add: mget0_def gm.get_empty)
  obtain m' where m': "loadSiteRows s (map site_row_of ys) ?m = Inr m'"
    and id: "\<And>i. mget (sl_byID m') i =
       map_option (\<lambda>t. t\<lparr>tn_Sites := tn_Sites t @ map loaded_site (filter (\<lambda>x. int32 (si_TenantID x) = i) ys)\<rparr>)
         (mget (sl_byID ?m) i)"
    and ix: "sl_byIdentity m' = fold (\<lambda>x. mput (si_Identity x) (loaded_site x)) ys []"
      "sl_byPortalID m' = fold (\<lambda>x. mput (si_PortalID x) (loaded_site x)) ys []"
    and pop: "\<And>p. mget0 [] (sl_byPop m') p = map loaded_site (filter (\<lambda>x. si_Attach x = p) ys)"
    using loadSiteRows_saved [of ys s ?m, OF p] e by auto
  let ?new = "\<lparr>re_classes = classes, re_byID = sl_byID m', re_byIdentity = sl_byIdentity m',
    re_byPortalID = sl_byPortalID m', re_byPop = sl_byPop m'\<rparr>"
  have "LoadFrom s old = (None, ?new)"
    using cl(1) te(1) ys(1) m' by (simp add: LoadFrom_def from_store_def)
  moreover have "same_repo repo ?new"
    by (rule same_repo_loaded [OF assms(1) ys(2)])
      (simp_all add: cl(2) id te(2) ix pop option.map_comp o_def)
  ultimately show ?thesis by blast
qed

end
