(* ===== verification/Boot_Run.thy ===== *)
theory Boot_Run
  imports Boot_Correct
begin

text \<open>
  Starts of the control plane: a configuration that was loaded from its file and fits the
  columns of the tables can be stored, and the next start with the same files gives the same
  tenants back.
\<close>

section \<open>What a loaded configuration gives\<close>
























section \<open>Integrity\<close>









section \<open>Starts\<close>













end
