(* ===== verification/Spec2Isabelle.thy ===== *)
theory Spec2Isabelle
  imports Pce_Run Pce_Report Controller_Run Dataplane_Run Telemetry_Run Boot_Run
begin

text \<open>
  \<^bold>\<open>Maeto\<close> is an SD-WAN over SRv6. A control plane (\<^verbatim>\<open>src/services/control-plane\<close>) knows the
  topology and the contracts of the tenants, computes paths and publishes to every node an
  intent; an agent on each node reconciles the Linux kernel with its intent
  (\<^verbatim>\<open>src/libs/dataplane\<close>) and probes its links (\<^verbatim>\<open>src/libs/probe\<close>, \<^verbatim>\<open>src/libs/stamp\<close>); the
  measurements come back to the control plane as the costs the next paths are computed with.
  This development models these parts as functions and step relations and proves what makes
  them correct, one theory per component and one theory \<open>_Correct\<close> or \<open>_Run\<close> for longer proofs
  and for the properties of whole runs. Definitions have the names of the Go functions; a
  prefix of two or three letters marks the fields of a record.

  \<^bold>\<open>Shared.\<close> \<open>Prelude\<close>: results with errors, Go maps as association lists in insertion order
  behind the locale \<open>go_map\<close>, reachable states and the locale \<open>invariant_of\<close>, the printing verbs.
  \<open>Float64\<close>: \<^verbatim>\<open>float64\<close> as a rational, an infinity or NaN, every operation with a rounding
  parameter; the locale \<open>rounding_mode\<close> has the laws the proofs need, and it is interpreted by
  exact arithmetic and by \<open>round64\<close>, which rounds to 53 bits, ties to even. \<open>Netip\<close>: addresses
  and prefixes. Times and durations are nanoseconds as integers, machine integers are words.

  \<^bold>\<open>Topology and costs.\<close> \<open>Topology\<close> (\<^verbatim>\<open>topology.go\<close>, \<^verbatim>\<open>topology_clab.go\<close>,
  \<^verbatim>\<open>topology_report_collector.go\<close>) builds the graph from the decoded file, keeps the End.X
  identifiers that nodes report and clears stale ones: the graph has both directions of every
  link exactly once, and after a sweep only nodes with recent reports have identifiers.
  \<open>Cost_Graph\<close> (\<^verbatim>\<open>cost_graph.go\<close>) and \<open>Pce_Graph\<close> (\<^verbatim>\<open>pce_graph.go\<close>) hold the costs and the
  logical edges.

  \<^bold>\<open>Path computation.\<close> \<open>Cspf\<close> and \<open>Cspf_Correct\<close> (\<^verbatim>\<open>cspf.go\<close>): the search returns, its path is a
  simple walk no dearer than any other walk under any rounding with the laws, and no path is
  reported exactly when there is none of finite cost. The proof is in the locale
  \<open>route_algebra\<close>, which every \<open>rounding_mode\<close> gives. \<open>Tenants\<close> (\<^verbatim>\<open>tenant_repository.go\<close>,
  \<^verbatim>\<open>node_inventory.go\<close>) checks the configuration, \<open>Demands\<close> (\<^verbatim>\<open>pce_demand.go\<close>) derives the demands.
  \<open>Reservation\<close> and \<open>Reservation_Correct\<close> (\<^verbatim>\<open>bandwidth_reservation.go\<close>): the load of an edge is
  the bound of the hose model, a move implements the move of one key in an abstract map of
  bookings. \<open>Pce\<close>, \<open>Pce_Correct\<close>, \<open>Pce_Run\<close> and \<open>Pce_Report\<close> (\<^verbatim>\<open>pce.go\<close>, \<^verbatim>\<open>pce_report.go\<close>) model the tick
  of the engine as a step relation: every tick returns, links are never booked beyond 95
  percent (in exact arithmetic), bandwidth is booked exactly along the paths in use, and a
  working path is replaced only for a sufficient gain after its hold-down.

  \<^bold>\<open>Intents.\<close> \<open>Sid_Alloc\<close> (\<^verbatim>\<open>service_registry_sid.go\<close>, \<^verbatim>\<open>hash.go\<close>) allocates segment identifiers;
  \<open>Intents\<close> (\<^verbatim>\<open>libs/nodesync\<close>) has the intents; \<open>Service_Registry\<close>, \<open>Registry_Correct\<close> and
  \<open>Registry_Run\<close> (\<^verbatim>\<open>service_registry*.go\<close>) the registry with its transactions, restarts and
  publications: identifiers are unique and kept, what is published never goes back, a commit
  counts one generation. \<open>Controller\<close>, \<open>Controller_Correct\<close> and \<open>Controller_Run\<close>
  (\<^verbatim>\<open>controller_segments.go\<close>, \<^verbatim>\<open>controller_dispatcher.go\<close>, \<^verbatim>\<open>controller_intents.go\<close>,
  \<^verbatim>\<open>controller_tunnels.go\<close>) turn paths into segment lists and intents: a dispatch without errors
  leaves the routes of the paths in the published intents.

  \<^bold>\<open>Dataplane.\<close> \<open>Dataplane\<close> and \<open>Dataplane_Correct\<close> (\<^verbatim>\<open>resource*.go\<close>, \<^verbatim>\<open>reconciler_render.go\<close>,
  \<^verbatim>\<open>reconciler_diff.go\<close>) render intents and kernel state to resources; \<open>Reconciler\<close>,
  \<open>Reconciler_Correct\<close> and \<open>Converge\<close> (\<^verbatim>\<open>reconciler.go\<close>, \<^verbatim>\<open>reconciler_plan.go\<close>,
  \<^verbatim>\<open>reconciler_apply.go\<close>, \<^verbatim>\<open>state.go\<close>) plan and apply over any dataplane; \<open>Netlink\<close> and
  \<open>Netlink_Correct\<close> (\<^verbatim>\<open>dataplane_netlink.go\<close>) model every operation of the Linux dataplane over
  the requests it sends, through the locale \<open>dataplane_rel\<close>. \<open>Dataplane_Run\<close>: a reconcile
  converges on a dataplane that keeps its contract, ends in one of the described ways on any,
  never goes back to an older intent, and changes only what is marked as Maeto's.

  \<^bold>\<open>Measurement.\<close> \<open>Stamp\<close> and \<open>Stamp_Correct\<close> (\<^verbatim>\<open>libs/stamp\<close>): packets, TLVs and timestamps on the
  wire, sender and reflector; packets are read back as written. \<open>Probe\<close> and \<open>Probe_Correct\<close>
  (\<^verbatim>\<open>libs/probe\<close>): the probes, their results and the supervisor. \<open>Telemetry\<close>, \<open>Telemetry_Correct\<close>
  and \<open>Telemetry_Run\<close> (\<^verbatim>\<open>ewma.go\<close>, \<^verbatim>\<open>telemetry_collector*.go\<close>): every arrival is reported with the
  times of the probe that was sent, a report reaches the averages and costs of the edge its
  key names, and in the arithmetic of the machine all averages and costs stay in their ranges
  (locale \<open>averaging_mode\<close>).

  \<^bold>\<open>Persistence.\<close> \<open>Store\<close> and \<open>Store_Correct\<close> (\<^verbatim>\<open>libs/store\<close>): the tables, one definition per query
  of the generated code; every update keeps keys, references and checks. \<open>Boot\<close>,
  \<open>Boot_Correct\<close> and \<open>Boot_Run\<close> (\<^verbatim>\<open>tenant_repository_store.go\<close>, \<^verbatim>\<open>boot.go\<close>,
  \<^verbatim>\<open>node_report_recorder.go\<close>): saving and loading the tenants, and the start on the store; what a
  start saved the next one reads back, and a start that fails changes nothing.

  \<^bold>\<open>Loops and bounds.\<close> The search of \<open>computePath\<close> ends because a node is visited once; the
  reconstruction is a \<open>partial_function\<close>, and that it returns is part of the property. A
  reconcile has at most the three passes of the code. The allocation of an identifier tries as
  often as the code does. There is no other fuel. Iteration over a Go map has the order of the
  association list; a property holds for every order, because the list is arbitrary.

  \<^bold>\<open>Parameters.\<close> JSON, the parsers of addresses and prefixes, SHA-256, the logarithm and the square
  root, sockets, the kernel, the message bus and the failure of a query of the database are
  arguments of the definitions; what a property needs of them is a hypothesis of the property,
  and its witness has concrete functions for them.

  \<^bold>\<open>Not modelled.\<close> Locks (an operation that holds its lock throughout is one step), logging and
  tracing; process start-up and configuration from the environment (\<^verbatim>\<open>cmd\<close>, \<^verbatim>\<open>config.go\<close>); the
  snapshots for the web interface (\<^verbatim>\<open>snapshot.go\<close>) and the web interface itself; the agent and
  portal processes, which connect modelled parts to the message bus and to daemons; the IPsec
  client (\<^verbatim>\<open>libs/swan\<close>); watches on buckets (\<^verbatim>\<open>libs/nodesync/watch.go\<close>); the debugging tools and the
  Python laboratory. They are I/O or wiring around the parts above, or do not act on the network.
\<close>

end
